(* ===== verification/Prelude.thy ===== *)
theory Prelude
  imports Main "HOL-Library.Word" "HOL-Library.Monad_Syntax"
begin

section \<open>Shared vocabulary of the development\<close>

text \<open>
  The conventions every component uses.

  \<^item> A Rust \<open>u8\<close> buffer that is text is a \<open>string\<close>: HOL characters are exactly the
    256 byte values, so \<open>CHR 0x0A\<close> is \<open>b'\n'\<close> and \<open>length\<close> counts bytes.
    A \<open>String\<close> or \<open>&str\<close> is such a byte list that happens to be valid UTF-8.
  \<^item> A Unicode scalar (\<open>char\<close>) is its code point, a \<open>nat\<close>.
  \<^item> \<open>usize\<close> values are \<open>nat\<close>; a cast to \<open>u32\<close> is written out as \<open>u32_cast\<close>.
  \<^item> A panic is a value (\<open>None\<close> of an \<open>option\<close>, or a constructor of a result type),
    so that a theorem can say that it does not happen.
\<close>

named_theorems span_simps \<open>facts about spans and positions\<close>

type_synonym byte = char
type_synonym bytes = string
type_synonym scalar = nat

subsection \<open>Machine integers\<close>

text \<open>\<open>x as u32\<close>: the cast keeps the low 32 bits.\<close>

definition u32_cast :: "nat \<Rightarrow> nat" where
  "u32_cast n = n mod 2 ^ 32"

lemma u32_cast_id [simp]: "n < 4294967296 \<Longrightarrow> u32_cast n = n"
  by (simp add: u32_cast_def)

lemma u32_cast_less [simp]: "u32_cast n < 4294967296"
  by (simp add: u32_cast_def)

text \<open>\<open>a - b\<close> on \<open>usize\<close>: underflow is a panic.\<close>

definition usize_sub :: "nat \<Rightarrow> nat \<Rightarrow> nat option" where
  "usize_sub a b = (if b \<le> a then Some (a - b) else None)"

lemma usize_sub_Some [simp]: "b \<le> a \<Longrightarrow> usize_sub a b = Some (a - b)"
  by (simp add: usize_sub_def)

subsection \<open>Slices\<close>

text \<open>\<open>&xs[i..]\<close>, \<open>&xs[i..j]\<close> (panicking) and \<open>xs.get(i)\<close>.\<close>

definition slice_from :: "'a list \<Rightarrow> nat \<Rightarrow> 'a list option" where
  "slice_from xs i = (if i \<le> length xs then Some (drop i xs) else None)"

definition slice_range :: "'a list \<Rightarrow> nat \<Rightarrow> nat \<Rightarrow> 'a list option" where
  "slice_range xs i j =
     (if i \<le> j \<and> j \<le> length xs then Some (take (j - i) (drop i xs)) else None)"

definition get_at :: "'a list \<Rightarrow> nat \<Rightarrow> 'a option" where
  "get_at xs i = (if i < length xs then Some (xs ! i) else None)"

text \<open>\<open>xs[i..i + ys.len()].copy_from_slice(ys)\<close>.\<close>

definition copy_into :: "'a list \<Rightarrow> nat \<Rightarrow> 'a list \<Rightarrow> 'a list option" where
  "copy_into xs i ys =
     (if i + length ys \<le> length xs
      then Some (take i xs @ ys @ drop (i + length ys) xs) else None)"

lemma slice_from_Some [simp]: "i \<le> length xs \<Longrightarrow> slice_from xs i = Some (drop i xs)"
  by (simp add: slice_from_def)

lemma slice_range_Some [simp]:
  "i \<le> j \<Longrightarrow> j \<le> length xs \<Longrightarrow> slice_range xs i j = Some (take (j - i) (drop i xs))"
  by (simp add: slice_range_def)

lemma get_at_Some_iff: "get_at xs i = Some x \<longleftrightarrow> i < length xs \<and> xs ! i = x"
  by (auto simp: get_at_def)

lemma get_at_None_iff [simp]: "get_at xs i = None \<longleftrightarrow> length xs \<le> i"
  by (auto simp: get_at_def)

lemma copy_into_Some [simp]:
  "i + length ys \<le> length xs \<Longrightarrow>
     copy_into xs i ys = Some (take i xs @ ys @ drop (i + length ys) xs)"
  by (simp add: copy_into_def)

lemma length_copy_into: "copy_into xs i ys = Some zs \<Longrightarrow> length zs = length xs"
  by (auto simp: copy_into_def split: if_splits)

subsection \<open>List facts the components share\<close>

lemma take_take_drop: "take k (drop i xs) @ take l (drop (i + k) xs) = take (k + l) (drop i xs)"
  by (simp add: add.commute take_add)

lemma take_append_drop_slice:
  "i \<le> j \<Longrightarrow> take i xs @ take (j - i) (drop i xs) = take j xs"
  by (metis le_add_diff_inverse take_add)

end
