(* ===== verification/Wyhash.thy ===== *)
theory Wyhash
  imports Prelude
begin

unbundle bit_operations_syntax

section \<open>align\_hash: wyhash and its streaming form\<close>

text \<open>
  The model of \<open>crates/align_hash/src/lib.rs\<close>: the one-shot \<open>wyhash\<close> and the incremental
  \<open>WyHashStream\<close> whose total length is declared up front. Words are 64-bit words, bytes are
  8-bit words, and every slice access of the Rust code is a checked access of the model
  (\<open>None\<close> is the panic). The lemmas show that no access panics and that any way of cutting
  a key into chunks gives the one-shot hash.
\<close>

type_synonym u8 = "8 word"
type_synonym u64 = "64 word"
type_synonym u128 = "128 word"

definition WY_SECRET :: "u64 list" where
  "WY_SECRET = [0xa0761d6478bd642f, 0xe7037ed1a0b428db, 0x8ebc6af09c88c6e3, 0x589965cc75374cc3]"

definition WY_SEED :: u64 where
  "WY_SEED = 0"

definition wymum :: "u64 \<Rightarrow> u64 \<Rightarrow> u64 \<times> u64" where
  "wymum a b =
     (let r = (ucast a :: u128) * ucast b in (ucast r, ucast (drop_bit 64 r)))"

definition wymix :: "u64 \<Rightarrow> u64 \<Rightarrow> u64" where
  "wymix a b = (let (lo, hi) = wymum a b in lo XOR hi)"

fun from_le_bytes :: "u8 list \<Rightarrow> u64" where
  "from_le_bytes [] = 0"
| "from_le_bytes (b # bs) = ucast b OR push_bit 8 (from_le_bytes bs)"

definition wyr8 :: "u8 list \<Rightarrow> u64 option" where
  "wyr8 p = (if 8 \<le> length p then Some (from_le_bytes (take 8 p)) else None)"

definition wyr4 :: "u8 list \<Rightarrow> u64 option" where
  "wyr4 p = (if 4 \<le> length p then Some (from_le_bytes (take 4 p)) else None)"

definition wyr3 :: "u8 list \<Rightarrow> nat \<Rightarrow> u64 option" where
  "wyr3 p k = do {
     b0 \<leftarrow> get_at p 0;
     b1 \<leftarrow> get_at p (k div 2);
     i2 \<leftarrow> usize_sub k 1;
     b2 \<leftarrow> get_at p i2;
     Some (push_bit 16 (ucast b0) OR push_bit 8 (ucast b1) OR ucast b2)
   }"

text \<open>\<open>wyr8(&p[i..])\<close> and \<open>wyr4(&p[i..])\<close>.\<close>

definition wyr8_at :: "u8 list \<Rightarrow> nat \<Rightarrow> u64 option" where
  "wyr8_at p i = do { q \<leftarrow> slice_from p i; wyr8 q }"

definition wyr4_at :: "u8 list \<Rightarrow> nat \<Rightarrow> u64 option" where
  "wyr4_at p i = do { q \<leftarrow> slice_from p i; wyr4 q }"

subsection \<open>The one-shot hash\<close>

text \<open>
  The lanes of a short key (at most 16 bytes); the streaming \<open>finish\<close> reads the same lanes
  from its 16-byte tail, so the reader is shared: \<open>len\<close> is the key's length and \<open>p\<close> the
  buffer that holds it.
\<close>

definition short_lanes :: "u8 list \<Rightarrow> nat \<Rightarrow> (u64 \<times> u64) option" where
  "short_lanes p len =
     (if 4 \<le> len then do {
        let off = (len div 8) * 4;
        a0 \<leftarrow> wyr4 p;
        a1 \<leftarrow> wyr4_at p off;
        i0 \<leftarrow> usize_sub len 4;
        b0 \<leftarrow> wyr4_at p i0;
        i1 \<leftarrow> usize_sub i0 off;
        b1 \<leftarrow> wyr4_at p i1;
        Some (push_bit 32 a0 OR a1, push_bit 32 b0 OR b1)
      }
      else if 0 < len then do { a \<leftarrow> wyr3 p len; Some (a, 0) }
      else Some (0, 0))"

text \<open>One 48-byte round and one 16-byte round at offset \<open>p\<close> of \<open>key\<close>.\<close>

definition round48 :: "u8 list \<Rightarrow> nat \<Rightarrow> u64 \<times> u64 \<times> u64 \<Rightarrow> (u64 \<times> u64 \<times> u64) option" where
  "round48 key p st = (case st of (seed, see1, see2) \<Rightarrow> do {
     a \<leftarrow> wyr8_at key p;
     b \<leftarrow> wyr8_at key (p + 8);
     c \<leftarrow> wyr8_at key (p + 16);
     d \<leftarrow> wyr8_at key (p + 24);
     e \<leftarrow> wyr8_at key (p + 32);
     f \<leftarrow> wyr8_at key (p + 40);
     Some (wymix (a XOR WY_SECRET ! 1) (b XOR seed),
           wymix (c XOR WY_SECRET ! 2) (d XOR see1),
           wymix (e XOR WY_SECRET ! 3) (f XOR see2))
   })"

definition round16 :: "u8 list \<Rightarrow> nat \<Rightarrow> u64 \<Rightarrow> u64 option" where
  "round16 key p seed = do {
     a \<leftarrow> wyr8_at key p;
     b \<leftarrow> wyr8_at key (p + 8);
     Some (wymix (a XOR WY_SECRET ! 1) (b XOR seed))
   }"

text \<open>The loops \<open>while i > 48\<close> and \<open>while i > 16\<close>.\<close>

function loop48 :: "u8 list \<Rightarrow> nat \<Rightarrow> nat \<Rightarrow> u64 \<times> u64 \<times> u64 \<Rightarrow> (nat \<times> nat \<times> u64 \<times> u64 \<times> u64) option" where
  "loop48 key i p st =
     (if 48 < i
      then do { st' \<leftarrow> round48 key p st; loop48 key (i - 48) (p + 48) st' }
      else (case st of (seed, see1, see2) \<Rightarrow> Some (i, p, seed, see1, see2)))"
  by pat_completeness auto
termination
  by (relation "measure (\<lambda>(key, i, p, st). i)") auto

function loop16 :: "u8 list \<Rightarrow> nat \<Rightarrow> nat \<Rightarrow> u64 \<Rightarrow> u64 option" where
  "loop16 key i p seed =
     (if 16 < i
      then do { seed' \<leftarrow> round16 key p seed; loop16 key (i - 16) (p + 16) seed' }
      else Some seed)"
  by pat_completeness auto
termination
  by (relation "measure (\<lambda>(key, i, p, seed). i)") auto

declare loop48.simps [simp del] loop16.simps [simp del]

text \<open>The closing mix, shared by the one-shot function and the stream.\<close>

definition wyfinish :: "u64 \<Rightarrow> u64 \<Rightarrow> u64 \<Rightarrow> u64 \<Rightarrow> u64" where
  "wyfinish seed a b len =
     (let (lo, hi) = wymum (a XOR WY_SECRET ! 1) (b XOR seed)
      in wymix (lo XOR WY_SECRET ! 0 XOR len) (hi XOR WY_SECRET ! 1))"

definition wyseed :: "u64 \<Rightarrow> u64" where
  "wyseed seed = seed XOR wymix (seed XOR WY_SECRET ! 0) (WY_SECRET ! 1)"

definition wyhash :: "u8 list \<Rightarrow> u64 \<Rightarrow> u64 option" where
  "wyhash key seed0 = (let len = length key; seed = wyseed seed0 in
     if len \<le> 16 then do {
       (a, b) \<leftarrow> short_lanes key len;
       Some (wyfinish seed a b (word_of_nat len))
     }
     else do {
       (i, p, seed1) \<leftarrow>
         (if 48 < len then do {
            (i, p, seed', see1, see2) \<leftarrow> loop48 key len 0 (seed, seed, seed);
            Some (i, p, seed' XOR (see1 XOR see2))
          }
          else Some (len, 0, seed));
       seed2 \<leftarrow> loop16 key i p seed1;
       i16 \<leftarrow> usize_sub len 16;
       a \<leftarrow> wyr8_at key i16;
       i8 \<leftarrow> usize_sub len 8;
       b \<leftarrow> wyr8_at key i8;
       Some (wyfinish seed2 a b (word_of_nat len))
     })"

subsection \<open>The stream\<close>

record wy_hash_stream =
  expected :: nat
  received :: nat
  triple_bytes :: nat
  process_bytes :: nat
  processed :: nat
  ws_seed :: u64
  ws_see1 :: u64
  ws_see2 :: u64
  block :: "u8 list"
  block_len :: nat
  tail :: "u8 list"
  tail_len :: nat

definition for_len :: "u64 \<Rightarrow> nat \<Rightarrow> wy_hash_stream" where
  "for_len seed0 len =
     (let triple = (if 48 < len then ((len - 1) div 48) * 48 else 0);
          remaining = len - triple;
          single = (if 16 < len then ((remaining - 1) div 16) * 16 else 0);
          seed = wyseed seed0
      in \<lparr>expected = len, received = 0, triple_bytes = triple, process_bytes = triple + single,
          processed = 0, ws_seed = seed, ws_see1 = seed, ws_see2 = seed,
          block = replicate 48 0, block_len = 0, tail = replicate 16 0, tail_len = 0\<rparr>)"

definition update_tail :: "wy_hash_stream \<Rightarrow> u8 list \<Rightarrow> wy_hash_stream option" where
  "update_tail s bytes =
     (let tail_capacity = length (tail s) in
      if tail_capacity \<le> length bytes then do {
        t \<leftarrow> copy_into (tail s) 0 (drop (length bytes - tail_capacity) bytes);
        Some (s\<lparr>tail := t, tail_len := tail_capacity\<rparr>)
      }
      else do {
        let keep = min (tail_len s) (tail_capacity - length bytes);
        t1 \<leftarrow> (if 0 < keep then do {
                 kept \<leftarrow> slice_range (tail s) (tail_len s - keep) (tail_len s);
                 copy_into (tail s) 0 kept
               }
               else Some (tail s));
        t2 \<leftarrow> copy_into t1 keep bytes;
        Some (s\<lparr>tail := t2, tail_len := keep + length bytes\<rparr>)
      })"

definition process_block :: "wy_hash_stream \<Rightarrow> nat \<Rightarrow> wy_hash_stream option" where
  "process_block s sz = do {
     s1 \<leftarrow> (if sz = 48 then do {
              (a, b, c) \<leftarrow> round48 (block s) 0 (ws_seed s, ws_see1 s, ws_see2 s);
              Some (s\<lparr>ws_seed := a, ws_see1 := b, ws_see2 := c\<rparr>)
            }
            else do {
              a \<leftarrow> round16 (block s) 0 (ws_seed s);
              Some (s\<lparr>ws_seed := a\<rparr>)
            });
     let s2 = s1\<lparr>processed := processed s1 + sz, block_len := 0\<rparr>;
     Some (if triple_bytes s2 \<noteq> 0 \<and> processed s2 = triple_bytes s2
           then s2\<lparr>ws_seed := ws_seed s2 XOR (ws_see1 s2 XOR ws_see2 s2)\<rparr> else s2)
   }"

text \<open>
  The \<open>while\<close> loop of \<open>update\<close>: its guard, one turn of its body, and the loop itself.
  \<open>fuel\<close> bounds the number of turns. Every turn takes at least one byte, so the length of
  the chunk is enough; running out is \<open>None\<close>.
\<close>

definition update_guard :: "wy_hash_stream \<Rightarrow> u8 list \<Rightarrow> nat \<Rightarrow> bool" where
  "update_guard s bytes cursor \<longleftrightarrow>
     cursor < length bytes \<and> processed s + block_len s < process_bytes s"

definition update_turn :: "wy_hash_stream \<Rightarrow> u8 list \<Rightarrow> nat \<Rightarrow> (wy_hash_stream \<times> nat) option" where
  "update_turn s bytes cursor = do {
     let target = (if processed s < triple_bytes s then 48 else 16);
     r0 \<leftarrow> usize_sub (process_bytes s) (processed s);
     remaining_prefix \<leftarrow> usize_sub r0 (block_len s);
     room \<leftarrow> usize_sub target (block_len s);
     let n = min (min room remaining_prefix) (length bytes - cursor);
     chunk \<leftarrow> slice_range bytes cursor (cursor + n);
     blk \<leftarrow> copy_into (block s) (block_len s) chunk;
     let s1 = s\<lparr>block := blk, block_len := block_len s + n\<rparr>;
     s2 \<leftarrow> (if block_len s1 = target then process_block s1 target else Some s1);
     Some (s2, cursor + n)
   }"

primrec update_loop :: "nat \<Rightarrow> wy_hash_stream \<Rightarrow> u8 list \<Rightarrow> nat \<Rightarrow> wy_hash_stream option" where
  "update_loop 0 s bytes cursor = (if update_guard s bytes cursor then None else Some s)"
| "update_loop (Suc fuel) s bytes cursor =
     (if update_guard s bytes cursor
      then do { (s', cursor') \<leftarrow> update_turn s bytes cursor; update_loop fuel s' bytes cursor' }
      else Some s)"

definition update :: "wy_hash_stream \<Rightarrow> u8 list \<Rightarrow> (bool \<times> wy_hash_stream) option" where
  "update s bytes = do {
     room \<leftarrow> usize_sub (expected s) (received s);
     if room < length bytes then Some (False, s)
     else do {
       s1 \<leftarrow> update_tail s bytes;
       let s2 = s1\<lparr>received := received s1 + length bytes\<rparr>;
       s3 \<leftarrow> update_loop (length bytes) s2 bytes 0;
       Some (True, s3)
     }
   }"

text \<open>\<open>finish\<close>: the outer option is the panic, the inner one the returned \<open>Option<u64>\<close>.\<close>

definition finish :: "wy_hash_stream \<Rightarrow> u64 option option" where
  "finish s =
     (if received s \<noteq> expected s \<or> processed s \<noteq> process_bytes s \<or> block_len s \<noteq> 0
      then Some None
      else do {
        (a, b) \<leftarrow> (if expected s \<le> 16 then short_lanes (tail s) (expected s)
                   else do { a \<leftarrow> wyr8 (tail s); b \<leftarrow> wyr8_at (tail s) 8; Some (a, b) });
        Some (if expected s < 2 ^ 64
              then Some (wyfinish (ws_seed s) a b (word_of_nat (expected s))) else None)
      })"

text \<open>Feeding a sequence of chunks, one \<open>update\<close> each; the flags returned are collected.\<close>

fun feed :: "wy_hash_stream \<Rightarrow> u8 list list \<Rightarrow> (bool list \<times> wy_hash_stream) option" where
  "feed s [] = Some ([], s)"
| "feed s (c # cs) = do {
     (ok, s1) \<leftarrow> update s c;
     (oks, s2) \<leftarrow> feed s1 cs;
     Some (ok # oks, s2)
   }"

subsection \<open>Reads of the key\<close>

lemma wyr8_at_eq [simp]:
  "i + 8 \<le> length p \<Longrightarrow> wyr8_at p i = Some (from_le_bytes (take 8 (drop i p)))"
  by (simp add: wyr8_at_def wyr8_def)

lemma wyr4_at_eq [simp]:
  "i + 4 \<le> length p \<Longrightarrow> wyr4_at p i = Some (from_le_bytes (take 4 (drop i p)))"
  by (simp add: wyr4_at_def wyr4_def)

lemma wyr8_eq: "wyr8 p = wyr8_at p 0"
  by (simp add: wyr8_at_def)

lemma wyr4_eq: "wyr4 p = wyr4_at p 0"
  by (simp add: wyr4_at_def)

lemma round48_total: "p + 48 \<le> length key \<Longrightarrow> \<exists>st'. round48 key p st = Some st'"
  by (cases st) (simp add: round48_def)

lemma round16_total: "p + 16 \<le> length key \<Longrightarrow> \<exists>s'. round16 key p s = Some s'"
  by (simp add: round16_def)

text \<open>A round reads the 48 (or 16) bytes at its offset and nothing else.\<close>

lemma round48_local:
  assumes "p + 48 \<le> length key" and "q + 48 \<le> length key'"
    and "take 48 (drop p key) = take 48 (drop q key')"
  shows "round48 key p st = round48 key' q st"
proof -
  have sub: "take 8 (drop (p + k) key) = take 8 (drop (q + k) key')" if "k + 8 \<le> 48" for k
  proof -
    have "take 8 (drop (p + k) key) = take 8 (drop k (take 48 (drop p key)))"
      using that by (simp add: drop_take add.commute min_absorb1)
    also have "\<dots> = take 8 (drop (q + k) key')"
      using that by (simp add: assms(3) drop_take add.commute min_absorb1)
    finally show ?thesis .
  qed
  from sub [of 0] sub [of 8] sub [of 16] sub [of 24] sub [of 32] sub [of 40] assms(1,2)
  show ?thesis
    by (cases st) (simp add: round48_def)
qed

lemma round16_local:
  assumes "p + 16 \<le> length key" and "q + 16 \<le> length key'"
    and "take 16 (drop p key) = take 16 (drop q key')"
  shows "round16 key p s = round16 key' q s"
proof -
  have sub: "take 8 (drop (p + k) key) = take 8 (drop (q + k) key')" if "k + 8 \<le> 16" for k
  proof -
    have "take 8 (drop (p + k) key) = take 8 (drop k (take 16 (drop p key)))"
      using that by (simp add: drop_take add.commute min_absorb1)
    also have "\<dots> = take 8 (drop (q + k) key')"
      using that by (simp add: assms(3) drop_take add.commute min_absorb1)
    finally show ?thesis .
  qed
  from sub [of 0] sub [of 8] assms(1,2) show ?thesis
    by (simp add: round16_def)
qed

lemma short_offsets:
  assumes "4 \<le> (len::nat)" and "len \<le> 16"
  shows "(len div 8) * 4 + 4 \<le> len"
  using assms by presburger

lemma short_lanes_total:
  "len \<le> 16 \<Longrightarrow> len \<le> length p \<Longrightarrow> \<exists>ab. short_lanes p len = Some ab"
  using short_offsets [of len]
  by (auto simp: short_lanes_def wyr4_eq wyr3_def get_at_def Let_def)

lemma short_lanes_local:
  assumes "len \<le> 16" and "len \<le> length p"
  shows "short_lanes p len = short_lanes (take len p) len"
proof -
  have sub: "take 4 (drop k p) = take 4 (drop k (take len p))" if "k + 4 \<le> len" for k
    using that by (simp add: drop_take min_absorb1)
  show ?thesis
    using assms short_offsets [of len] sub
    by (auto simp: short_lanes_def wyr4_eq wyr3_def get_at_def Let_def)
qed

subsection \<open>The block sequence both forms absorb\<close>

inductive absorbed :: "nat \<Rightarrow> u64 \<Rightarrow> u8 list \<Rightarrow> nat \<Rightarrow> u64 \<times> u64 \<times> u64 \<Rightarrow> bool"
  for T :: nat and s0 :: u64 and key :: "u8 list" where
  start: "absorbed T s0 key 0 (s0, s0, s0)"
| triple: "absorbed T s0 key q st \<Longrightarrow> q < T \<Longrightarrow> round48 key q st = Some (a, b, c) \<Longrightarrow>
     absorbed T s0 key (q + 48) (if q + 48 = T then a XOR (b XOR c) else a, b, c)"
| single: "absorbed T s0 key q (a, b, c) \<Longrightarrow> T \<le> q \<Longrightarrow> round16 key q a = Some a' \<Longrightarrow>
     absorbed T s0 key (q + 16) (a', b, c)"

lemma absorbed_aligned:
  assumes "absorbed T s0 key q st" and "48 dvd T"
  shows "q < T \<Longrightarrow> 48 dvd q" and "q \<le> T \<or> 16 dvd (q - T)"
  using assms
  by (induction rule: absorbed.induct) (auto elim!: dvdE, presburger+)


inductive_cases absorbed_0E: "absorbed T s0 key 0 st"

lemma absorbed_bounds:
  assumes "absorbed T s0 key q st" and "48 dvd T"
  shows "q < T \<Longrightarrow> q + 48 \<le> T"
  using absorbed_aligned (1) [OF assms] assms(2) by (auto elim!: dvdE)

lemma absorbed_deterministic:
  assumes "absorbed T s0 key q st" and "absorbed T s0 key q st'" and T: "48 dvd T"
  shows "st = st'"
  using assms(1,2)
proof (induction arbitrary: st' rule: absorbed.induct)
  case start
  then show ?case by (auto elim: absorbed_0E)
next
  case (triple q st a b c)
  note t = this
  have le: "q + 48 \<le> T" by (rule absorbed_bounds [OF t(1) T t(2)])
  from t(5) show ?case
  proof (cases rule: absorbed.cases)
    case (triple q' st'' a' b' c')
    then have "st = st''" using t(4) by simp
    then have "(a, b, c) = (a', b', c')" using triple t(3) by simp
    then show ?thesis using triple(1,2) by simp
  next
    case (single q' a' b' c' a'')
    then show ?thesis using le by linarith
  qed simp
next
  case (single q a b c a')
  note s = this
  from s(5) show ?case
  proof (cases rule: absorbed.cases)
    case (triple q' st'' a1 b1 c1)
    have "q' + 48 \<le> T" by (rule absorbed_bounds [OF triple(3) T triple(4)])
    then show ?thesis using triple(1) s(2) by linarith
  next
    case (single q' a1 b1 c1 a2)
    then have "(a, b, c) = (a1, b1, c1)" using s(4) by simp
    then show ?thesis using single s(3) by simp
  qed simp
qed

subsection \<open>The one-shot function absorbs every block\<close>

definition triple_of :: "nat \<Rightarrow> nat" where
  "triple_of len = (if 48 < len then ((len - 1) div 48) * 48 else 0)"

definition process_of :: "nat \<Rightarrow> nat" where
  "process_of len =
     triple_of len + (if 16 < len then ((len - triple_of len - 1) div 16) * 16 else 0)"

lemma triple_of_dvd [simp]: "48 dvd triple_of len"
  by (simp add: triple_of_def)

lemma triple_of_bounds:
  "48 < len \<Longrightarrow> 0 < triple_of len \<and> triple_of len < len \<and> len \<le> triple_of len + 48"
  unfolding triple_of_def by (simp, linarith)

lemma triple_of_small [simp]: "len \<le> 48 \<Longrightarrow> triple_of len = 0"
  by (simp add: triple_of_def)

lemma triple_of_less: "0 < len \<Longrightarrow> triple_of len < len"
  using triple_of_bounds [of len] by (cases "48 < len") simp_all

lemma process_of_small [simp]: "len \<le> 16 \<Longrightarrow> process_of len = 0"
  by (simp add: process_of_def)

lemma triple_le_process [simp]: "triple_of len \<le> process_of len"
  by (simp add: process_of_def)

lemma process_of_bounds:
  assumes "16 < len"
  shows "process_of len < len \<and> len \<le> process_of len + 16"
proof -
  let ?r = "len - triple_of len"
  have "triple_of len < len" using assms by (intro triple_of_less) simp
  then have "0 < ?r" by simp
  then have "((?r - 1) div 16) * 16 < ?r" and "?r \<le> ((?r - 1) div 16) * 16 + 16"
    by linarith+
  then have "triple_of len + ((?r - 1) div 16) * 16 < len"
    and "len \<le> triple_of len + ((?r - 1) div 16) * 16 + 16"
    using \<open>triple_of len < len\<close> by linarith+
  with assms show ?thesis by (simp add: process_of_def)
qed

lemma process_of_le [simp]: "process_of len \<le> len"
  using process_of_bounds [of len] by (cases "16 < len") simp_all

lemma loop48_absorbs:
  assumes "absorbed T s0 key p st" and "p < T" and "48 dvd T"
    and "T < length key" and "length key \<le> T + 48" and "p + i = length key"
  shows "\<exists>a b c. loop48 key i p st = Some (length key - T, T, a, b, c) \<and>
           absorbed T s0 key T (a XOR (b XOR c), b, c)"
  using assms
proof (induction "T - p" arbitrary: p i st rule: less_induct)
  case less
  have pT: "p + 48 \<le> T" by (rule absorbed_bounds [OF less.prems(1,3,2)])
  then have i: "48 < i" and p48: "p + 48 \<le> length key"
    using less.prems(4,6) by linarith+
  obtain a b c where r: "round48 key p st = Some (a, b, c)"
    using round48_total [OF p48] by (metis prod_cases3)
  have ab: "absorbed T s0 key (p + 48) (if p + 48 = T then a XOR (b XOR c) else a, b, c)"
    by (rule absorbed.triple [OF less.prems(1,2) r])
  have step: "loop48 key i p st = loop48 key (i - 48) (p + 48) (a, b, c)"
    using i r by (simp add: loop48.simps [of key i])
  show ?case
  proof (cases "p + 48 = T")
    case True
    then have "\<not> 48 < i - 48" and "i - 48 = length key - T" using less.prems(5,6) by linarith+
    then have "loop48 key (i - 48) (p + 48) (a, b, c) = Some (length key - T, T, a, b, c)"
      using True by (simp add: loop48.simps)
    with step ab True show ?thesis by auto
  next
    case False
    with pT have lt: "p + 48 < T" by simp
    have "T - (p + 48) < T - p" using lt by simp
    moreover have "absorbed T s0 key (p + 48) (a, b, c)" using ab False by simp
    moreover have "p + 48 + (i - 48) = length key" using less.prems(6) i by simp
    ultimately show ?thesis
      unfolding step using less.hyps lt less.prems(3-5) by blast
  qed
qed

lemma loop16_absorbs:
  assumes "absorbed T s0 key p (a, b, c)" and "T \<le> p" and "p + i = length key" and "0 < i"
  shows "\<exists>a'. loop16 key i p a = Some a' \<and>
           absorbed T s0 key (p + ((i - 1) div 16) * 16) (a', b, c)"
  using assms
proof (induction i arbitrary: p a rule: less_induct)
  case (less i)
  show ?case
  proof (cases "16 < i")
    case False
    with less.prems show ?thesis by (simp add: loop16.simps)
  next
    case True
    then obtain a' where r: "round16 key p a = Some a'"
      using less.prems(3) round16_total [of p key a] by fastforce
    have ab: "absorbed T s0 key (p + 16) (a', b, c)"
      by (rule absorbed.single [OF less.prems(1,2) r])
    obtain k where "i = k + 17" by (rule that [of "i - 17"]) (use True in simp)
    then have d: "(i - 1) div 16 = Suc ((i - 16 - 1) div 16)" by simp
    have "\<exists>a''. loop16 key (i - 16) (p + 16) a' = Some a'' \<and>
        absorbed T s0 key (p + 16 + ((i - 16 - 1) div 16) * 16) (a'', b, c)"
      using less.IH [of "i - 16" "p + 16" a'] ab less.prems True by simp
    then obtain a'' where l: "loop16 key (i - 16) (p + 16) a' = Some a''"
      and ab': "absorbed T s0 key (p + 16 + ((i - 16 - 1) div 16) * 16) (a'', b, c)" by blast
    have "loop16 key i p a = Some a''"
      by (subst loop16.simps) (simp add: True r l)
    moreover have "p + 16 + ((i - 16 - 1) div 16) * 16 = p + ((i - 1) div 16) * 16"
      unfolding d by simp
    ultimately show ?thesis using ab' by metis
  qed
qed

text \<open>The hash of a key as the lanes and the absorbed seed determine it.\<close>

lemma wyhash_absorbed:
  assumes "16 < length key"
  shows "\<exists>a b c. absorbed (triple_of (length key)) (wyseed s) key (process_of (length key)) (a, b, c) \<and>
    wyhash key s = Some (wyfinish a (from_le_bytes (take 8 (drop (length key - 16) key)))
      (from_le_bytes (take 8 (drop (length key - 8) key))) (word_of_nat (length key)))"
proof (cases "48 < length key")
  case True
  let ?T = "triple_of (length key)"
  note T = triple_of_bounds [OF True]
  obtain a b c where l: "loop48 key (length key) 0 (wyseed s, wyseed s, wyseed s) =
      Some (length key - ?T, ?T, a, b, c)"
    and ab: "absorbed ?T (wyseed s) key ?T (a XOR (b XOR c), b, c)"
    using loop48_absorbs [OF absorbed.start [of ?T "wyseed s" key], of "length key"] T
    by (simp, blast)
  obtain a' where l2: "loop16 key (length key - ?T) ?T (a XOR (b XOR c)) = Some a'"
    and "absorbed ?T (wyseed s) key (?T + ((length key - ?T - 1) div 16) * 16) (a', b, c)"
    using loop16_absorbs [OF ab order_refl, of "length key - ?T"] T by auto
  then have "absorbed ?T (wyseed s) key (process_of (length key)) (a', b, c)"
    using True by (simp add: process_of_def)
  moreover have "wyhash key s = Some (wyfinish a' (from_le_bytes (take 8 (drop (length key - 16) key)))
      (from_le_bytes (take 8 (drop (length key - 8) key))) (word_of_nat (length key)))"
    using True l l2 by (simp add: wyhash_def Let_def)
  ultimately show ?thesis by blast
next
  case False
  obtain a' where l2: "loop16 key (length key) 0 (wyseed s) = Some a'"
    and "absorbed 0 (wyseed s) key (0 + ((length key - 1) div 16) * 16) (a', wyseed s, wyseed s)"
    using loop16_absorbs [OF absorbed.start [of 0 "wyseed s" key], of "length key"] assms
    by (cases key) auto
  then have "absorbed 0 (wyseed s) key (process_of (length key)) (a', wyseed s, wyseed s)"
    using False assms by (simp add: process_of_def)
  moreover have "wyhash key s = Some (wyfinish a' (from_le_bytes (take 8 (drop (length key - 16) key)))
      (from_le_bytes (take 8 (drop (length key - 8) key))) (word_of_nat (length key)))"
    using False assms l2 by (simp add: wyhash_def Let_def)
  ultimately show ?thesis using False by auto
qed


subsection \<open>The stream's invariant\<close>

text \<open>
  \<open>block_inv key s0 r s\<close>: after \<open>r\<close> bytes of \<open>key\<close> have gone through the block buffer,
  every complete block among the first \<open>process_of (length key)\<close> bytes is absorbed and the
  buffer holds the rest of them. \<open>tail_inv key r s\<close>: the tail holds the last 16 bytes.
\<close>

definition block_inv :: "u8 list \<Rightarrow> u64 \<Rightarrow> nat \<Rightarrow> wy_hash_stream \<Rightarrow> bool" where
  "block_inv key s0 r s \<longleftrightarrow>
     expected s = length key \<and> triple_bytes s = triple_of (length key) \<and>
     process_bytes s = process_of (length key) \<and> length (block s) = 48 \<and>
     absorbed (triple_bytes s) s0 key (processed s) (ws_seed s, ws_see1 s, ws_see2 s) \<and>
     processed s + block_len s = min r (process_bytes s) \<and>
     take (block_len s) (block s) = take (block_len s) (drop (processed s) key) \<and>
     block_len s < (if processed s < triple_bytes s then 48 else 16)"

definition tail_inv :: "u8 list \<Rightarrow> nat \<Rightarrow> wy_hash_stream \<Rightarrow> bool" where
  "tail_inv key r s \<longleftrightarrow>
     length (tail s) = 16 \<and> tail_len s = min r 16 \<and>
     take (tail_len s) (tail s) = drop (r - 16) (take r key)"

definition stream_inv :: "u8 list \<Rightarrow> u64 \<Rightarrow> wy_hash_stream \<Rightarrow> bool" where
  "stream_inv key s0 s \<longleftrightarrow>
     received s \<le> length key \<and> block_inv key s0 (received s) s \<and> tail_inv key (received s) s"

lemma stream_inv_for_len: "stream_inv key (wyseed seed) (for_len seed (length key))"
  by (auto simp: stream_inv_def block_inv_def tail_inv_def for_len_def Let_def
      triple_of_def process_of_def intro: absorbed.start)

lemma received_for_len [simp]: "received (for_len seed len) = 0"
  by (simp add: for_len_def Let_def)

lemma process_block_absorbs:
  assumes "block_inv key s0 r s" and "target = (if processed s < triple_bytes s then 48 else 16)"
    and full: "processed s + target \<le> process_bytes s"
    and len: "length blk = 48" and eq: "take target blk = take target (drop (processed s) key)"
  shows "\<exists>s'. process_block (s\<lparr>block := blk, block_len := target\<rparr>) target = Some s' \<and>
    expected s' = expected s \<and> triple_bytes s' = triple_bytes s \<and>
    process_bytes s' = process_bytes s \<and> length (block s') = 48 \<and> block_len s' = 0 \<and>
    processed s' = processed s + target \<and> received s' = received s \<and>
    tail s' = tail s \<and> tail_len s' = tail_len s \<and>
    absorbed (triple_bytes s') s0 key (processed s') (ws_seed s', ws_see1 s', ws_see2 s')"
proof -
  have inv: "process_bytes s \<le> length key" "48 dvd triple_bytes s"
    and ab: "absorbed (triple_bytes s) s0 key (processed s) (ws_seed s, ws_see1 s, ws_see2 s)"
    using assms(1) by (auto simp: block_inv_def)
  show ?thesis
  proof (cases "processed s < triple_bytes s")
    case True
    with assms(2) have t: "target = 48" by simp
    have loc: "round48 blk 0 st = round48 key (processed s) st" for st
      by (rule round48_local) (use t len eq full inv(1) in auto)
    have "processed s + 48 \<le> length key" using t full inv(1) by simp
    from round48_total [OF this, of "(ws_seed s, ws_see1 s, ws_see2 s)"]
    obtain a b c where r: "round48 key (processed s) (ws_seed s, ws_see1 s, ws_see2 s) = Some (a, b, c)"
      by auto
    from absorbed.triple [OF ab True r] r loc True t len show ?thesis
      by (auto simp: process_block_def Let_def)
  next
    case False
    with assms(2) have t: "target = 16" by simp
    have loc: "round16 blk 0 st = round16 key (processed s) st" for st
      by (rule round16_local) (use t len eq full inv(1) in auto)
    have "processed s + 16 \<le> length key" using t full inv(1) by simp
    from round16_total [OF this, of "ws_seed s"]
    obtain a where r: "round16 key (processed s) (ws_seed s) = Some a" by auto
    from absorbed.single [OF ab _ r] r loc False t len show ?thesis
      by (auto simp: process_block_def Let_def)
  qed
qed


lemma update_turn_absorbs:
  assumes inv: "block_inv key s0 r s" and guard: "update_guard s bytes cursor"
    and sub: "drop cursor bytes = take (length bytes - cursor) (drop r key)"
  shows "\<exists>s' n. update_turn s bytes cursor = Some (s', cursor + n) \<and>
    0 < n \<and> cursor + n \<le> length bytes \<and> block_inv key s0 (r + n) s' \<and>
    received s' = received s \<and> tail s' = tail s \<and> tail_len s' = tail_len s"
proof -
  define target :: nat where "target = (if processed s < triple_bytes s then 48 else 16)"
  define n where "n = min (min (target - block_len s) (process_bytes s - processed s - block_len s))
    (length bytes - cursor)"
  define blk where "blk = take (block_len s) (block s) @ take n (drop cursor bytes) @
    drop (block_len s + n) (block s)"
  let ?s1 = "s\<lparr>block := blk, block_len := block_len s + n\<rparr>"
  have g: "cursor < length bytes" "processed s + block_len s < process_bytes s"
    using guard by (simp_all add: update_guard_def)
  have i: "length (block s) = 48" "block_len s < target" "target \<le> 48"
    "processed s + block_len s = r" "process_bytes s \<le> length key"
    "take (block_len s) (block s) = take (block_len s) (drop (processed s) key)"
    using inv g by (auto simp: block_inv_def target_def)
  have n: "0 < n" "cursor + n \<le> length bytes" "block_len s + n \<le> target"
    "processed s + block_len s + n \<le> process_bytes s"
    using g i(2) by (auto simp: n_def)
  have lchunk: "length (take n (drop cursor bytes)) = n" using n by simp
  have lblk: "length blk = 48" using n i by (simp add: blk_def)
  have chunk: "take n (drop cursor bytes) = take n (drop r key)"
    unfolding sub using n by (simp add: min_absorb1)
  have blk: "take (block_len s + n) blk = take (block_len s + n) (drop (processed s) key)"
  proof -
    have "take (block_len s + n) blk = take (block_len s) (block s) @ take n (drop cursor bytes)"
      using n i by (simp add: blk_def)
    also have "\<dots> = take (block_len s) (drop (processed s) key) @
        take n (drop (processed s + block_len s) key)"
      using i(4,6) chunk by simp
    finally show ?thesis by (simp add: take_take_drop)
  qed
  have turn: "update_turn s bytes cursor =
      do { s2 \<leftarrow> (if block_len s + n = target then process_block ?s1 target else Some ?s1);
           Some (s2, cursor + n) }"
  proof -
    have "usize_sub (process_bytes s) (processed s) = Some (process_bytes s - processed s)"
      and "usize_sub (process_bytes s - processed s) (block_len s) =
        Some (process_bytes s - processed s - block_len s)"
      and "usize_sub target (block_len s) = Some (target - block_len s)"
      and "slice_range bytes cursor (cursor + n) = Some (take n (drop cursor bytes))"
      and "copy_into (block s) (block_len s) (take n (drop cursor bytes)) = Some blk"
      using g i(1-3) n lchunk by (simp_all add: blk_def)
    then show ?thesis
      unfolding update_turn_def Let_def target_def [symmetric]
      by (simp only: Option.bind.simps n_def [symmetric]) simp
  qed
  show ?thesis
  proof (cases "block_len s + n = target")
    case True
    with process_block_absorbs [OF inv target_def _ lblk] blk n(4)
    obtain s' where "process_block ?s1 target = Some s'" and
      "expected s' = expected s \<and> triple_bytes s' = triple_bytes s \<and>
       process_bytes s' = process_bytes s \<and> length (block s') = 48 \<and> block_len s' = 0 \<and>
       processed s' = processed s + target \<and> received s' = received s \<and>
       tail s' = tail s \<and> tail_len s' = tail_len s \<and>
       absorbed (triple_bytes s') s0 key (processed s') (ws_seed s', ws_see1 s', ws_see2 s')"
      by auto
    moreover from this True have "block_inv key s0 (r + n) s'"
      using inv n(4) i(4) by (auto simp: block_inv_def)
    ultimately show ?thesis using turn True n by auto
  next
    case False
    with n(3) have "block_len s + n < target" by simp
    then have "block_inv key s0 (r + n) ?s1"
      using inv n(4) i(4) lblk blk by (auto simp: block_inv_def target_def)
    then show ?thesis using turn False n by auto
  qed
qed

lemma update_loop_absorbs:
  assumes "block_inv key s0 r s" and "drop cursor bytes = take (length bytes - cursor) (drop r key)"
    and "length bytes - cursor \<le> fuel" and "cursor \<le> length bytes"
  shows "\<exists>s'. update_loop fuel s bytes cursor = Some s' \<and>
    block_inv key s0 (r + (length bytes - cursor)) s' \<and>
    received s' = received s \<and> tail s' = tail s \<and> tail_len s' = tail_len s"
  using assms
proof (induction fuel arbitrary: s r cursor)
  case 0
  then show ?case by (simp add: update_guard_def)
next
  case (Suc fuel)
  show ?case
  proof (cases "update_guard s bytes cursor")
    case False
    then have "cursor = length bytes \<or> process_bytes s \<le> processed s + block_len s"
      using Suc.prems(4) by (auto simp: update_guard_def)
    then have "block_inv key s0 (r + (length bytes - cursor)) s"
      using Suc.prems(1) by (auto simp: block_inv_def)
    with False show ?thesis by simp
  next
    case True
    from update_turn_absorbs [OF Suc.prems(1) True Suc.prems(2)] obtain s' n where
      t: "update_turn s bytes cursor = Some (s', cursor + n)" "0 < n" "cursor + n \<le> length bytes"
        "block_inv key s0 (r + n) s'" "received s' = received s" "tail s' = tail s"
        "tail_len s' = tail_len s"
      by blast
    have "drop (cursor + n) bytes = drop n (drop cursor bytes)" by (simp add: add.commute)
    also have "\<dots> = take (length bytes - (cursor + n)) (drop (r + n) key)"
      unfolding Suc.prems(2) by (simp add: drop_take add.commute)
    finally have "drop (cursor + n) bytes = take (length bytes - (cursor + n)) (drop (r + n) key)" .
    moreover have "length bytes - (cursor + n) \<le> fuel" using t(2) Suc.prems(3) by linarith
    ultimately obtain s'' where "update_loop fuel s' bytes (cursor + n) = Some s''"
      and "block_inv key s0 (r + n + (length bytes - (cursor + n))) s''"
      and "received s'' = received s" and "tail s'' = tail s" and "tail_len s'' = tail_len s"
      using Suc.IH [OF t(4) _ _ t(3)] t(5-7) by metis
    moreover have "r + n + (length bytes - (cursor + n)) = r + (length bytes - cursor)"
      using t(3) by simp
    ultimately show ?thesis using True t(1) by simp
  qed
qed

lemma update_tail_keeps_last:
  assumes inv: "tail_inv key r s" and sub: "bytes = take (length bytes) (drop r key)"
    and "r + length bytes \<le> length key"
  shows "\<exists>t l. update_tail s bytes = Some (s\<lparr>tail := t, tail_len := l\<rparr>) \<and>
    tail_inv key (r + length bytes) (s\<lparr>tail := t, tail_len := l\<rparr>)"
proof -
  have i: "length (tail s) = 16" "tail_len s = min r 16"
    "take (tail_len s) (tail s) = drop (r - 16) (take r key)"
    using inv by (auto simp: tail_inv_def)
  have app: "take (r + length bytes) key = take r key @ bytes"
    using sub by (metis take_add)
  have lr: "length (take r key) = r" using assms(3) by simp
  show ?thesis
  proof (cases "16 \<le> length bytes")
    case True
    then show ?thesis
      using i lr by (auto simp: update_tail_def Let_def tail_inv_def app)
  next
    case False
    define keep where "keep = min (tail_len s) (16 - length bytes)"
    define kept where "kept = take keep (drop (tail_len s - keep) (tail s))"
    have k: "keep \<le> tail_len s" "keep + length bytes \<le> 16" "tail_len s \<le> 16"
      using False i by (auto simp: keep_def)
    have lk: "length kept = keep" using k i by (simp add: kept_def)
    have kept: "kept = drop (r - keep) (take r key)"
    proof -
      have "kept = drop (tail_len s - keep) (take (tail_len s) (tail s))"
        using k by (simp add: kept_def drop_take)
      also have "\<dots> = drop (r - keep) (take r key)"
        unfolding i(3) using i(2) k by (simp add: min_def split: if_splits)
      finally show ?thesis .
    qed
    define t where "t = kept @ bytes @ drop (keep + length bytes) (tail s)"
    have "slice_range (tail s) (tail_len s - keep) (tail_len s) = Some kept"
      and "copy_into (tail s) 0 kept = Some (kept @ drop keep (tail s))"
      and "copy_into (kept @ drop keep (tail s)) keep bytes = Some t"
      using k i(1) lk by (simp_all add: kept_def t_def add.commute)
    moreover have "kept @ drop keep (tail s) = tail s" if "\<not> 0 < keep" using that lk by simp
    ultimately have up: "update_tail s bytes = Some (s\<lparr>tail := t, tail_len := keep + length bytes\<rparr>)"
      unfolding update_tail_def Let_def i(1) keep_def [symmetric]
      using False by (cases "0 < keep") (simp_all only: Option.bind.simps if_True if_False, simp_all)
    have len: "keep + length bytes = min (r + length bytes) 16"
      using i(2) False by (auto simp: keep_def)
    have "take (keep + length bytes) t = kept @ bytes" using lk by (simp add: t_def)
    also have "\<dots> = drop (r + length bytes - 16) (take (r + length bytes) key)"
      unfolding kept app using len lr k i(2) by (simp add: keep_def min_def split: if_splits)
    finally have "tail_inv key (r + length bytes) (s\<lparr>tail := t, tail_len := keep + length bytes\<rparr>)"
      using len i k lk by (simp add: tail_inv_def t_def)
    with up show ?thesis by blast
  qed
qed


subsection \<open>Updates, chunk sequences and the final hash\<close>

lemma update_accepts:
  assumes inv: "stream_inv key s0 s" and fits: "received s + length bytes \<le> length key"
    and sub: "bytes = take (length bytes) (drop (received s) key)"
  shows "\<exists>s'. update s bytes = Some (True, s') \<and> stream_inv key s0 s' \<and>
    received s' = received s + length bytes"
proof -
  have i: "block_inv key s0 (received s) s" "tail_inv key (received s) s" "received s \<le> length key"
    "expected s = length key"
    using inv by (auto simp: stream_inv_def block_inv_def)
  from update_tail_keeps_last [OF i(2) sub fits] obtain t l where
    ut: "update_tail s bytes = Some (s\<lparr>tail := t, tail_len := l\<rparr>)" and
    ti: "tail_inv key (received s + length bytes) (s\<lparr>tail := t, tail_len := l\<rparr>)" by blast
  let ?s2 = "s\<lparr>tail := t, tail_len := l, received := received s + length bytes\<rparr>"
  have "block_inv key s0 (received s) ?s2" using i(1) by (auto simp: block_inv_def)
  from update_loop_absorbs [OF this, of 0 bytes "length bytes"] sub obtain s' where
    ul: "update_loop (length bytes) ?s2 bytes 0 = Some s'" and
    bi: "block_inv key s0 (received s + length bytes) s'" and
    f: "received s' = received s + length bytes" "tail s' = t" "tail_len s' = l" by auto
  have "tail_inv key (received s + length bytes) s'" using ti f by (auto simp: tail_inv_def)
  with bi f fits have "stream_inv key s0 s'" by (simp add: stream_inv_def)
  moreover have "update s bytes = Some (True, s')"
  proof -
    have "\<not> length key - received s < length bytes" using fits by linarith
    then show ?thesis using i(3,4) ut ul by (simp add: update_def Let_def)
  qed
  ultimately show ?thesis using f by blast
qed

lemma feed_accepts:
  assumes "stream_inv key s0 s" and "concat cs = take (length (concat cs)) (drop (received s) key)"
    and "received s + length (concat cs) \<le> length key"
  shows "\<exists>s'. feed s cs = Some (map (\<lambda>_. True) cs, s') \<and> stream_inv key s0 s' \<and>
    received s' = received s + length (concat cs)"
  using assms
proof (induction cs arbitrary: s)
  case (Cons c cs)
  let ?r = "received s"
  have key: "take (length c + length (concat cs)) (drop ?r key) = c @ concat cs"
    using Cons.prems(2) by simp
  have "take (length c) (take (length c + length (concat cs)) (drop ?r key)) = c"
    unfolding key by simp
  then have c: "c = take (length c) (drop ?r key)" by simp
  have "drop (length c) (take (length c + length (concat cs)) (drop ?r key)) = concat cs"
    unfolding key by simp
  then have cs: "concat cs = take (length (concat cs)) (drop (?r + length c) key)"
    by (simp only: drop_take drop_drop add_diff_cancel_left' add.commute)
  from update_accepts [OF Cons.prems(1) _ c] Cons.prems(3) obtain s1 where
    u: "update s c = Some (True, s1)" "stream_inv key s0 s1" "received s1 = ?r + length c" by auto
  have "received s1 + length (concat cs) \<le> length key" using u(3) Cons.prems(3) by simp
  with Cons.IH [OF u(2)] cs u(3) obtain s' where
    "feed s1 cs = Some (map (\<lambda>_. True) cs, s')" "stream_inv key s0 s'"
    "received s' = received s1 + length (concat cs)" by metis
  with u show ?case by simp
qed simp

lemma stream_complete:
  assumes "stream_inv key s0 s" and "received s = length key"
  shows "processed s = process_bytes s \<and> block_len s = 0"
proof -
  have i: "triple_bytes s = triple_of (length key)" "process_bytes s = process_of (length key)"
    "absorbed (triple_bytes s) s0 key (processed s) (ws_seed s, ws_see1 s, ws_see2 s)"
    "processed s + block_len s = process_bytes s"
    "block_len s < (if processed s < triple_bytes s then 48 else 16)"
    using assms by (auto simp: stream_inv_def block_inv_def min_absorb2)
  have d: "48 dvd triple_bytes s" using i(1) by simp
  show ?thesis
  proof (cases "processed s < triple_bytes s")
    case True
    then have "processed s + 48 \<le> process_bytes s"
      using absorbed_bounds [OF i(3) d] i(1,2) triple_le_process [of "length key"] by linarith
    with i(4,5) True show ?thesis by simp
  next
    case False
    then have "16 dvd (processed s - triple_bytes s)"
      using absorbed_aligned (2) [OF i(3) d] by auto
    moreover have "16 dvd (process_bytes s - triple_bytes s)"
      by (simp add: i(1,2) process_of_def)
    ultimately have "16 dvd ((process_bytes s - triple_bytes s) - (processed s - triple_bytes s))"
      by (rule dvd_diff_nat [rotated])
    moreover have "(process_bytes s - triple_bytes s) - (processed s - triple_bytes s) = block_len s"
      using i(4) False by linarith
    ultimately have "16 dvd block_len s" by simp
    with i(5) False have "block_len s = 0" by (metis nat_dvd_not_less not_gr_zero)
    with i(4) show ?thesis by simp
  qed
qed

lemma finish_complete:
  assumes inv: "stream_inv key (wyseed seed) s" and r: "received s = length key"
    and small: "length key < 2 ^ 64"
  shows "finish s = map_option Some (wyhash key seed) \<and> wyhash key seed \<noteq> None"
proof -
  let ?T = "triple_of (length key)" and ?P = "process_of (length key)"
  have c: "processed s = process_bytes s" "block_len s = 0"
    using stream_complete [OF inv r] by simp_all
  have i: "expected s = length key" "process_bytes s = ?P"
    "absorbed ?T (wyseed seed) key ?P (ws_seed s, ws_see1 s, ws_see2 s)"
    "length (tail s) = 16" "tail_len s = min (length key) 16"
    "take (tail_len s) (tail s) = drop (length key - 16) key"
    using inv r c by (auto simp: stream_inv_def block_inv_def tail_inv_def)
  show ?thesis
  proof (cases "length key \<le> 16")
    case True
    have tl: "take (length key) (tail s) = key" using i(5,6) True by simp
    have "short_lanes (tail s) (length key) = short_lanes key (length key)"
      using short_lanes_local [of "length key" "tail s"] True i(4) tl by simp
    moreover obtain a b where "short_lanes key (length key) = Some (a, b)"
      using short_lanes_total [of "length key" key] True by auto
    moreover have "ws_seed s = wyseed seed"
      using i(3) True by (auto elim: absorbed_0E)
    ultimately show ?thesis
      using True r c i(1) small by (simp add: finish_def wyhash_def Let_def)
  next
    case False
    then obtain a b c' where ab: "absorbed ?T (wyseed seed) key ?P (a, b, c')"
      and h: "wyhash key seed = Some (wyfinish a (from_le_bytes (take 8 (drop (length key - 16) key)))
        (from_le_bytes (take 8 (drop (length key - 8) key))) (word_of_nat (length key)))"
      using wyhash_absorbed [of key seed] by auto
    have "ws_seed s = a" using absorbed_deterministic [OF i(3) ab] by simp
    moreover have tl: "tail s = drop (length key - 16) key" using i(4-6) False by simp
    moreover have "drop 8 (drop (length key - 16) key) = drop (length key - 8) key"
    proof -
      have "8 + (length key - 16) = length key - 8" using False by linarith
      then show ?thesis by simp
    qed
    ultimately show ?thesis
      using False r c i(1,4) h small by (simp add: finish_def wyr8_def)
  qed
qed

lemma feed_hashes:
  assumes "length (concat chunks) < 2 ^ 64"
  shows "\<exists>s h. feed (for_len seed (length (concat chunks))) chunks = Some (map (\<lambda>_. True) chunks, s) \<and>
    wyhash (concat chunks) seed = Some h \<and> finish s = Some (Some h)"
proof -
  let ?key = "concat chunks"
  obtain s where "feed (for_len seed (length ?key)) chunks = Some (map (\<lambda>_. True) chunks, s)"
    and inv: "stream_inv ?key (wyseed seed) s" and r: "received s = length ?key"
    using feed_accepts [OF stream_inv_for_len [of ?key seed], of chunks] by auto
  with finish_complete [OF inv r assms] show ?thesis by auto
qed

subsection \<open>The contract the cache and the codegen rely on\<close>

text \<open>
  What a client of an incremental hash may assume: a stream started with the right length and
  fed any chunking of a key answers with the one-shot hash. A client proves from it that the
  hash identifies contents and not chunkings.
\<close>

locale incremental_hash =
  fixes start :: "'seed \<Rightarrow> nat \<Rightarrow> 's"
    and absorb :: "'s \<Rightarrow> 'b list list \<Rightarrow> (bool list \<times> 's) option"
    and result :: "'s \<Rightarrow> 'h option option"
    and whole :: "'b list \<Rightarrow> 'seed \<Rightarrow> 'h option"
    and capacity :: nat
  assumes absorb_result:
    "length (concat cs) < capacity \<Longrightarrow>
       \<exists>s h. absorb (start seed (length (concat cs))) cs = Some (map (\<lambda>_. True) cs, s) \<and>
         whole (concat cs) seed = Some h \<and> result s = Some (Some h)"
begin

lemma chunking_irrelevant:
  assumes "concat cs = concat ds" and "length (concat cs) < capacity"
  shows "\<exists>s t. absorb (start seed (length (concat cs))) cs = Some (map (\<lambda>_. True) cs, s) \<and>
    absorb (start seed (length (concat ds))) ds = Some (map (\<lambda>_. True) ds, t) \<and>
    result s = result t \<and> result s = Some (whole (concat cs) seed)"
  using absorb_result [of cs seed] absorb_result [of ds seed] assms by auto

end

interpretation wy: incremental_hash for_len feed finish wyhash "2 ^ 64"
  by unfold_locales (rule feed_hashes)

text \<open>
  C18. Whatever the chunk sizes, feeding a key chunk by chunk into a stream declared with the
  key's length accepts every chunk, never panics, and finishes with the one-shot \<open>wyhash\<close>
  of the key; two chunkings of the same key cannot be told apart (a key of a 64-bit machine
  is shorter than \<open>2 ^ 64\<close> bytes).
\<close>

theorem stream_hash_is_one_shot:
  assumes "concat cs = concat ds" and "length (concat cs) < 2 ^ 64"
  shows "\<exists>s t h. feed (for_len seed (length (concat cs))) cs = Some (map (\<lambda>_. True) cs, s) \<and>
    feed (for_len seed (length (concat ds))) ds = Some (map (\<lambda>_. True) ds, t) \<and>
    wyhash (concat cs) seed = Some h \<and> finish s = Some (Some h) \<and> finish t = Some (Some h)"
  using wy.chunking_irrelevant [OF assms, of seed] wy.absorb_result [OF assms(2), of seed] by auto

theorem stream_hash_is_one_shot_witness:
  "\<exists>s t. feed (for_len 2 3) [[97, 98], [], [99]] = Some ([True, True, True], s) \<and>
     feed (for_len 2 3) [[97, 98, 99]] = Some ([True], t) \<and>
     finish s = Some (Some 0x32dd92e4b2915153) \<and> finish t = Some (Some 0x32dd92e4b2915153)"
proof -
  have "wyhash [97, 98, 99] 2 = Some 0x32dd92e4b2915153"
    by code_simp
  then show ?thesis
    using stream_hash_is_one_shot [of "[[97, 98], [], [99]]" "[[97, 98, 99]]" 2]
    by (simp add: numeral_3_eq_3 del: feed.simps)
qed

text \<open>
  C32. A stream that has accepted at most its declared length refuses every chunk that would exceed
  the declared length, without changing its state, also when the declared length has arrived
  already; and it reports a hash exactly when the declared length has arrived (lengths of a
  64-bit machine).
\<close>

theorem stream_needs_declared_length:
  assumes "length (concat chunks) \<le> len" and "len < 2 ^ 64"
  shows "\<exists>s. feed (for_len seed len) chunks = Some (map (\<lambda>_. True) chunks, s) \<and>
    (\<forall>extra. len < length (concat chunks) + length extra \<longrightarrow> update s extra = Some (False, s)) \<and>
    (\<exists>r. finish s = Some r \<and> (r = None \<longleftrightarrow> length (concat chunks) < len))"
proof -
  let ?key = "concat chunks @ replicate (len - length (concat chunks)) 0"
  have len: "length ?key = len" using assms(1) by simp
  obtain s where f: "feed (for_len seed len) chunks = Some (map (\<lambda>_. True) chunks, s)"
    and inv: "stream_inv ?key (wyseed seed) s" and r: "received s = length (concat chunks)"
    using feed_accepts [OF stream_inv_for_len [of ?key seed], of chunks] assms(1)
    unfolding len by auto
  have e: "expected s = len"
    using inv len by (auto simp: stream_inv_def block_inv_def)
  have "\<exists>h. finish s = Some (Some h)" if "length (concat chunks) = len"
    using finish_complete [OF inv] r len assms(2) that by auto
  moreover have "finish s = Some None" if "length (concat chunks) < len"
    using that r e by (simp add: finish_def)
  moreover have "update s extra = Some (False, s)" if "len < length (concat chunks) + length extra" for extra
    using that r e assms(1) by (auto simp: update_def usize_sub_def)
  ultimately show ?thesis using f assms(1) by (metis le_neq_implies_less less_irrefl option.distinct(1))
qed

theorem stream_needs_declared_length_witness:
  "(\<exists>s. feed (for_len 0 4) [[97, 98, 99]] = Some ([True], s) \<and> finish s = Some None \<and> update s [1, 2] = Some (False, s)) \<and>
   (\<exists>s h. feed (for_len 0 3) [[97, 98, 99]] = Some ([True], s) \<and> finish s = Some (Some h) \<and> update s [1] = Some (False, s))"
  using stream_needs_declared_length [of "[[97, 98, 99]]" 4 0] stream_needs_declared_length [of "[[97, 98, 99]]" 3 0]
  by (auto simp del: feed.simps)

text \<open>
  C33. The one-shot hash never reads outside its key: it returns for every key and seed.
\<close>

theorem wyhash_total: "\<exists>h. wyhash key seed = Some h"
proof (cases "length key \<le> 16")
  case True
  with short_lanes_total [of "length key" key] show ?thesis
    by (auto simp: wyhash_def Let_def)
next
  case False
  with wyhash_absorbed [of key seed] show ?thesis by auto
qed

end
