(* ===== verification/Utf8.thy ===== *)
theory Utf8
  imports Prelude
begin

section \<open>UTF-8, as the Rust standard library decodes it\<close>

text \<open>
  The front end works on bytes but builds \<open>String\<close>s and reports \<open>char\<close>s. This theory
  models what it uses of \<open>std\<close>: \<open>char::from_u32\<close>, \<open>char::len_utf8\<close>, pushing a
  \<open>char\<close> onto a \<open>String\<close>, and \<open>str::from_utf8\<close> with its validation (the byte ranges of
  the Unicode standard's table of well-formed sequences: no overlong forms, no surrogates,
  nothing above U+10FFFF). The lemmas show that encoding and decoding are inverse to each
  other, so that the bytes of a valid string and its scalars determine each other.
\<close>

definition is_scalar :: "nat \<Rightarrow> bool" where
  "is_scalar c \<longleftrightarrow> c < 0xD800 \<or> (0xE000 \<le> c \<and> c \<le> 0x10FFFF)"

definition char_from_u32 :: "nat \<Rightarrow> scalar option" where
  "char_from_u32 c = (if is_scalar c then Some c else None)"

definition encode_utf8 :: "scalar \<Rightarrow> bytes" where
  "encode_utf8 c =
     (if c < 0x80 then [char_of c]
      else if c < 0x800 then [char_of (0xC0 + c div 64), char_of (0x80 + c mod 64)]
      else if c < 0x10000 then
        [char_of (0xE0 + c div 4096), char_of (0x80 + c div 64 mod 64), char_of (0x80 + c mod 64)]
      else
        [char_of (0xF0 + c div 262144), char_of (0x80 + c div 4096 mod 64),
         char_of (0x80 + c div 64 mod 64), char_of (0x80 + c mod 64)])"

definition len_utf8 :: "scalar \<Rightarrow> nat" where
  "len_utf8 c = (if c < 0x80 then 1 else if c < 0x800 then 2 else if c < 0x10000 then 3 else 4)"

definition encode_str :: "scalar list \<Rightarrow> bytes" where
  "encode_str cs = concat (map encode_utf8 cs)"

abbreviation val :: "byte \<Rightarrow> nat" where
  "val b \<equiv> of_char b"

definition is_cont :: "byte \<Rightarrow> bool" where
  "is_cont b \<longleftrightarrow> 0x80 \<le> val b \<and> val b \<le> 0xBF"

text \<open>The second byte of a three or four byte sequence, by the lead byte.\<close>

definition second_ok :: "nat \<Rightarrow> byte \<Rightarrow> bool" where
  "second_ok v b \<longleftrightarrow>
     (if v = 0xE0 then 0xA0 \<le> val b \<and> val b \<le> 0xBF
      else if v = 0xED then 0x80 \<le> val b \<and> val b \<le> 0x9F
      else if v = 0xF0 then 0x90 \<le> val b \<and> val b \<le> 0xBF
      else if v = 0xF4 then 0x80 \<le> val b \<and> val b \<le> 0x8F
      else is_cont b)"

definition decode_multi :: "nat \<Rightarrow> bytes \<Rightarrow> (scalar \<times> bytes) option" where
  "decode_multi v bs =
     (if 0xC2 \<le> v \<and> v \<le> 0xDF then
        (case bs of
           b1 # r \<Rightarrow> (if is_cont b1 then Some ((v - 0xC0) * 64 + (val b1 - 0x80), r) else None)
         | _ \<Rightarrow> None)
      else if 0xE0 \<le> v \<and> v \<le> 0xEF then
        (case bs of
           b1 # b2 # r \<Rightarrow>
             (if second_ok v b1 \<and> is_cont b2
              then Some ((v - 0xE0) * 4096 + (val b1 - 0x80) * 64 + (val b2 - 0x80), r) else None)
         | _ \<Rightarrow> None)
      else if 0xF0 \<le> v \<and> v \<le> 0xF4 then
        (case bs of
           b1 # b2 # b3 # r \<Rightarrow>
             (if second_ok v b1 \<and> is_cont b2 \<and> is_cont b3
              then Some ((v - 0xF0) * 262144 + (val b1 - 0x80) * 4096 + (val b2 - 0x80) * 64 +
                (val b3 - 0x80), r) else None)
         | _ \<Rightarrow> None)
      else None)"

text \<open>\<open>decode_first bs\<close>: the first scalar of \<open>bs\<close> and the rest, if \<open>bs\<close> starts well-formed.\<close>

definition decode_first :: "bytes \<Rightarrow> (scalar \<times> bytes) option" where
  "decode_first bs = (case bs of
     [] \<Rightarrow> None
   | b # r \<Rightarrow> (if val b < 0x80 then Some (val b, r) else decode_multi (val b) r))"

lemma decode_multi_shorter:
  "decode_multi v bs = Some (c, r) \<Longrightarrow> length r < length bs"
  by (auto simp: decode_multi_def split: if_splits list.splits)

lemma decode_first_shorter:
  "decode_first bs = Some (c, r) \<Longrightarrow> length r < length bs"
  by (auto simp: decode_first_def split: list.splits if_splits dest: decode_multi_shorter)

text \<open>\<open>str::from_utf8\<close>: the scalars of a wholly valid byte slice.\<close>

function from_utf8 :: "bytes \<Rightarrow> scalar list option" where
  "from_utf8 bs =
     (if bs = [] then Some []
      else (case decode_first bs of
              None \<Rightarrow> None
            | Some (c, r) \<Rightarrow> map_option (Cons c) (from_utf8 r)))"
  by pat_completeness auto
termination
  by (relation "measure length") (auto dest: decode_first_shorter)

declare from_utf8.simps [simp del]

lemma from_utf8_Nil [simp]: "from_utf8 [] = Some []"
  by (simp add: from_utf8.simps)

definition valid_utf8 :: "bytes \<Rightarrow> bool" where
  "valid_utf8 bs \<longleftrightarrow> from_utf8 bs \<noteq> None"

subsection \<open>Encoding and decoding are inverse\<close>

lemma val_char_of [simp]: "n < 256 \<Longrightarrow> val (char_of (n::nat)) = n"
  by simp

lemma length_encode_utf8 [simp]: "length (encode_utf8 c) = len_utf8 c"
  by (simp add: encode_utf8_def len_utf8_def)

lemma len_utf8_pos [simp]: "0 < len_utf8 c"
  by (simp add: len_utf8_def)

lemma encode_utf8_nonempty [simp]: "encode_utf8 c \<noteq> []"
  by (metis length_encode_utf8 len_utf8_pos length_greater_0_conv)

lemma split64: "(c::nat) = c div 64 * 64 + c mod 64"
  by simp

lemma split4096: "(c::nat) = c div 4096 * 4096 + c div 64 mod 64 * 64 + c mod 64"
proof -
  have "c div 64 = c div 4096 * 64 + c div 64 mod 64"
    using div_mult2_eq [of c 64 64] by simp
  then show ?thesis using split64 [of c] by linarith
qed

lemma split262144:
  "(c::nat) = c div 262144 * 262144 + c div 4096 mod 64 * 4096 + c div 64 mod 64 * 64 + c mod 64"
proof -
  have "c div 4096 = c div 262144 * 64 + c div 4096 mod 64"
    using div_mult2_eq [of c 4096 64] by simp
  then show ?thesis using split4096 [of c] by linarith
qed

lemma digits3:
  assumes "d < 64" "e < (64::nat)" and c: "c = a * 4096 + d * 64 + e"
  shows "c div 4096 = a" "c div 64 mod 64 = d" "c mod 64 = e"
proof -
  have c': "c = (a * 64 + d) * 64 + e" using c by simp
  have d64: "c div 64 = a * 64 + d" unfolding c' using assms(2) by simp
  show "c mod 64 = e" by (subst c') (simp only: mod_mult_self3 mod_less assms(2))
  show "c div 64 mod 64 = d" unfolding d64 using assms(1) by simp
  have "c div 4096 = c div 64 div 64" by (simp add: div_mult2_eq [symmetric])
  then show "c div 4096 = a" unfolding d64 using assms(1) by simp
qed

lemma digits4:
  assumes "d < 64" "e < 64" "f < (64::nat)" and c: "c = a * 262144 + d * 4096 + e * 64 + f"
  shows "c div 262144 = a" "c div 4096 mod 64 = d" "c div 64 mod 64 = e" "c mod 64 = f"
proof -
  have c': "c = (a * 64 + d) * 4096 + e * 64 + f" using c by simp
  note s = digits3 [OF assms(2,3) c']
  show "c div 64 mod 64 = e" "c mod 64 = f" by (fact s(2), fact s(3))
  show "c div 4096 mod 64 = d" unfolding s(1) using assms(1) by simp
  have "c div 262144 = c div 4096 div 64" by (simp add: div_mult2_eq [symmetric])
  then show "c div 262144 = a" unfolding s(1) using assms(1) by simp
qed

lemma decode_encode:
  assumes "is_scalar c"
  shows "decode_first (encode_utf8 c @ r) = Some (c, r)"
proof -
  consider "c < 0x80" | "0x80 \<le> c" "c < 0x800" | "0x800 \<le> c" "c < 0x10000" | "0x10000 \<le> c"
    by linarith
  then show ?thesis
  proof cases
    case 1
    then show ?thesis by (simp add: encode_utf8_def decode_first_def)
  next
    case 2
    define a d where "a = c div 64" and "d = c mod 64"
    have "c = a * 64 + d" "d < 64" by (simp_all add: a_def d_def)
    moreover from this 2 have "2 \<le> a" "a < 32" by linarith+
    moreover have "encode_utf8 c = [char_of (0xC0 + a), char_of (0x80 + d)]"
      using 2 by (simp add: encode_utf8_def a_def d_def)
    ultimately show ?thesis
      by (simp add: decode_first_def decode_multi_def is_cont_def)
  next
    case 3
    define a b d where "a = c div 4096" and "b = c div 64 mod 64" and "d = c mod 64"
    have c: "c = a * 4096 + b * 64 + d" "b < 64" "d < 64"
      using split4096 [of c] by (simp_all add: a_def b_def d_def)
    then have r: "a < 16" "a = 0 \<Longrightarrow> 32 \<le> b" "a = 13 \<Longrightarrow> b < 32"
      using 3 assms by (auto simp: is_scalar_def)
    have "encode_utf8 c = [char_of (0xE0 + a), char_of (0x80 + b), char_of (0x80 + d)]"
      using 3 by (simp add: encode_utf8_def a_def b_def d_def)
    then show ?thesis
      using c r by (auto simp: decode_first_def decode_multi_def is_cont_def second_ok_def)
  next
    case 4
    define a b d e where "a = c div 262144" and "b = c div 4096 mod 64" and "d = c div 64 mod 64"
      and "e = c mod 64"
    have c: "c = a * 262144 + b * 4096 + d * 64 + e" "b < 64" "d < 64" "e < 64"
      using split262144 [of c] by (simp_all add: a_def b_def d_def e_def)
    then have r: "a < 5" "a = 0 \<Longrightarrow> 16 \<le> b" "a = 4 \<Longrightarrow> b < 16"
      using 4 assms by (auto simp: is_scalar_def)
    have "encode_utf8 c =
        [char_of (0xF0 + a), char_of (0x80 + b), char_of (0x80 + d), char_of (0x80 + e)]"
      using 4 by (simp add: encode_utf8_def a_def b_def d_def e_def)
    then show ?thesis
      using c r by (auto simp: decode_first_def decode_multi_def is_cont_def second_ok_def)
  qed
qed

lemma decode_first_sound:
  assumes "decode_first bs = Some (c, r)"
  shows "is_scalar c \<and> bs = encode_utf8 c @ r"
proof -
  obtain b bs' where bs: "bs = b # bs'" using assms by (cases bs) (auto simp: decode_first_def)
  let ?v = "val b"
  consider "?v < 0x80" | "0xC2 \<le> ?v" "?v \<le> 0xDF" | "0xE0 \<le> ?v" "?v \<le> 0xEF" | "0xF0 \<le> ?v" "?v \<le> 0xF4"
    using assms bs by (auto simp: decode_first_def decode_multi_def split: if_splits)
  then show ?thesis
  proof cases
    case 1
    then show ?thesis using assms bs by (auto simp: decode_first_def encode_utf8_def is_scalar_def)
  next
    case 2
    then obtain b1 where b1: "bs' = b1 # r" "is_cont b1" "c = (?v - 0xC0) * 64 + (val b1 - 0x80)"
      using assms bs by (auto simp: decode_first_def decode_multi_def split: list.splits if_splits)
    define a d where "a = ?v - 0xC0" and "d = val b1 - 0x80"
    have v: "?v = 0xC0 + a" "val b1 = 0x80 + d" "d < 64" "2 \<le> a" "a < 32" "c = a * 64 + d"
      using 2 b1 by (auto simp: a_def d_def is_cont_def)
    then have "c div 64 = a" "c mod 64 = d" "0x80 \<le> c" "c < 0x800" by simp_all
    then have "encode_utf8 c = [char_of ?v, char_of (val b1)]"
      unfolding v(1,2) by (simp add: encode_utf8_def)
    then show ?thesis using bs b1 \<open>c < 0x800\<close> by (simp add: is_scalar_def)
  next
    case 3
    then obtain b1 b2 where b1: "bs' = b1 # b2 # r" "second_ok ?v b1" "is_cont b2"
      "c = (?v - 0xE0) * 4096 + (val b1 - 0x80) * 64 + (val b2 - 0x80)"
      using assms bs by (auto simp: decode_first_def decode_multi_def split: list.splits if_splits)
    define a d e where "a = ?v - 0xE0" and "d = val b1 - 0x80" and "e = val b2 - 0x80"
    have v: "?v = 0xE0 + a" "val b1 = 0x80 + d" "val b2 = 0x80 + e" "d < 64" "e < 64" "a < 16"
      "c = a * 4096 + d * 64 + e" "a = 0 \<longrightarrow> 32 \<le> d" "a = 13 \<longrightarrow> d < 32"
      using 3 b1 by (auto simp: a_def d_def e_def is_cont_def second_ok_def split: if_splits)
    have "c div 4096 = a" "c div 64 mod 64 = d" "c mod 64 = e" "0x800 \<le> c" "c < 0x10000"
      using digits3 [OF v(4,5,7)] v(4-8) by auto
    moreover from this have "encode_utf8 c = [char_of ?v, char_of (val b1), char_of (val b2)]"
      unfolding v(1,2,3) by (simp add: encode_utf8_def)
    moreover have "is_scalar c"
    proof -
      consider "a < 13" | "a = 13" | "14 \<le> a" by linarith
      then show ?thesis using v(4-9) by cases (auto simp: is_scalar_def)
    qed
    ultimately show ?thesis using bs b1 by simp
  next
    case 4
    then obtain b1 b2 b3 where b1: "bs' = b1 # b2 # b3 # r" "second_ok ?v b1" "is_cont b2" "is_cont b3"
      "c = (?v - 0xF0) * 262144 + (val b1 - 0x80) * 4096 + (val b2 - 0x80) * 64 + (val b3 - 0x80)"
      using assms bs by (auto simp: decode_first_def decode_multi_def split: list.splits if_splits)
    define a d e f where "a = ?v - 0xF0" and "d = val b1 - 0x80" and "e = val b2 - 0x80"
      and "f = val b3 - 0x80"
    have v: "?v = 0xF0 + a" "val b1 = 0x80 + d" "val b2 = 0x80 + e" "val b3 = 0x80 + f"
      "d < 64" "e < 64" "f < 64" "a < 5"
      "c = a * 262144 + d * 4096 + e * 64 + f" "a = 0 \<longrightarrow> 16 \<le> d" "a = 4 \<longrightarrow> d < 16"
      using 4 b1 by (auto simp: a_def d_def e_def f_def is_cont_def second_ok_def split: if_splits)
    note dg = digits4 [OF v(5,6,7,9)]
    have c: "0x10000 \<le> c" "c \<le> 0x10FFFF" using v(5-11) by auto
    have "encode_utf8 c = [char_of ?v, char_of (val b1), char_of (val b2), char_of (val b3)]"
      unfolding v(1-4) using dg c by (simp add: encode_utf8_def)
    moreover have "is_scalar c" using c by (simp add: is_scalar_def)
    ultimately show ?thesis unfolding bs b1(1) by simp
  qed
qed

lemma from_utf8_encode:
  "list_all is_scalar cs \<Longrightarrow> from_utf8 (encode_str cs) = Some cs"
proof (induction cs)
  case (Cons c cs)
  then have "from_utf8 (encode_utf8 c @ encode_str cs) = Some (c # cs)"
    by (subst from_utf8.simps) (simp add: decode_encode)
  then show ?case by (simp add: encode_str_def)
qed (simp add: encode_str_def)

lemma from_utf8_sound:
  "from_utf8 bs = Some cs \<Longrightarrow> list_all is_scalar cs \<and> bs = encode_str cs"
proof (induction bs arbitrary: cs rule: from_utf8.induct)
  case (1 bs)
  show ?case
  proof (cases "bs = []")
    case True
    with "1.prems" show ?thesis by (simp add: encode_str_def)
  next
    case False
    with "1.prems" obtain c r cs' where d: "decode_first bs = Some (c, r)"
      and r: "from_utf8 r = Some cs'" and cs: "cs = c # cs'"
      by (subst (asm) from_utf8.simps) (auto split: option.splits)
    from "1.IH" [OF False d refl r] decode_first_sound [OF d] cs show ?thesis
      by (simp add: encode_str_def)
  qed
qed

lemma decode_first_width:
  assumes "decode_first bs = Some (c, r)"
  shows "r = drop (len_utf8 c) bs" and "len_utf8 c \<le> length bs"
    and "take (len_utf8 c) bs = encode_utf8 c"
  using decode_first_sound [OF assms] by simp_all

lemma encode_str_Nil [simp]: "encode_str [] = []"
  and encode_str_Cons [simp]: "encode_str (c # cs) = encode_utf8 c @ encode_str cs"
  and encode_str_append [simp]: "encode_str (cs @ ds) = encode_str cs @ encode_str ds"
  by (simp_all add: encode_str_def)

end
