(* ===== verification/Spans.thy ===== *)
theory Spans
  imports Utf8
begin

section \<open>align\_span and align\_diag: positions and diagnostics\<close>

text \<open>
  The two cross-cutting crates every stage uses: byte spans and source files
  (\<open>crates/align_span/src/lib.rs\<close>) and the diagnostics accumulated over a compilation
  (\<open>crates/align_diag/src/lib.rs\<close>). The lemmas show that \<open>merge\<close> is the least span
  containing both arguments, that \<open>line_col\<close> counts lines and columns in scalars, that file
  ids stay valid as files are added.
\<close>

subsection \<open>Spans\<close>

record span =
  span_file :: nat
  span_lo :: nat
  span_hi :: nat

definition span_new :: "nat \<Rightarrow> nat \<Rightarrow> nat \<Rightarrow> span" where
  "span_new f l h = \<lparr>span_file = f, span_lo = l, span_hi = h\<rparr>"

text \<open>
  \<open>merge\<close> as a release build runs it. A build with debug assertions stops when the two files differ;
  the lemmas about \<open>merge\<close> take one file for both.
\<close>

definition merge :: "span \<Rightarrow> span \<Rightarrow> span" where
  "merge a b = \<lparr>span_file = span_file a, span_lo = min (span_lo a) (span_lo b),
     span_hi = max (span_hi a) (span_hi b)\<rparr>"

definition covers :: "span \<Rightarrow> span \<Rightarrow> bool" where
  "covers a b \<longleftrightarrow> span_file a = span_file b \<and> span_lo a \<le> span_lo b \<and> span_hi b \<le> span_hi a"

lemma span_new_simps [simp, span_simps]:
  "span_file (span_new f l h) = f" "span_lo (span_new f l h) = l" "span_hi (span_new f l h) = h"
  by (simp_all add: span_new_def)

lemma merge_simps [simp, span_simps]:
  "span_file (merge a b) = span_file a"
  "span_lo (merge a b) = min (span_lo a) (span_lo b)"
  "span_hi (merge a b) = max (span_hi a) (span_hi b)"
  by (simp_all add: merge_def)

lemma covers_refl [simp]: "covers a a"
  and covers_trans: "covers a b \<Longrightarrow> covers b c \<Longrightarrow> covers a c"
  and covers_antisym: "covers a b \<Longrightarrow> covers b a \<Longrightarrow> a = b"
  by (auto simp: covers_def intro: span.equality)

subsection \<open>Source files\<close>

record source_file =
  sf_id :: nat
  sf_name :: string
  sf_src :: bytes

text \<open>\<open>s.chars()\<close> of a \<open>&str\<close>, whose bytes are valid UTF-8 by construction.\<close>

definition chars :: "bytes \<Rightarrow> scalar list" where
  "chars bs = (case from_utf8 bs of Some cs \<Rightarrow> cs | None \<Rightarrow> [])"

fun line_col_loop :: "nat \<Rightarrow> scalar list \<Rightarrow> nat \<Rightarrow> nat \<Rightarrow> nat \<Rightarrow> nat \<times> nat" where
  "line_col_loop off [] byte_idx line col = (line, col)"
| "line_col_loop off (c # cs) byte_idx line col =
     (if off \<le> byte_idx then (line, col)
      else if c = 10 then line_col_loop off cs (byte_idx + len_utf8 c) (u32_cast (line + 1)) 1
      else line_col_loop off cs (byte_idx + len_utf8 c) line (u32_cast (col + 1)))"

definition line_col :: "source_file \<Rightarrow> nat \<Rightarrow> nat \<times> nat" where
  "line_col sf offset =
     line_col_loop (min offset (length (sf_src sf))) (chars (sf_src sf)) 0 1 1"

type_synonym source_map = "source_file list"

definition add_file :: "source_map \<Rightarrow> string \<Rightarrow> bytes \<Rightarrow> nat \<times> source_map" where
  "add_file m name src =
     (let fid = u32_cast (length m)
      in (fid, m @ [\<lparr>sf_id = fid, sf_name = name, sf_src = src\<rparr>]))"

text \<open>\<open>&self.files[id as usize]\<close>: \<open>None\<close> is the index panic.\<close>

definition get_file :: "source_map \<Rightarrow> nat \<Rightarrow> source_file option" where
  "get_file m fid = get_at m fid"

lemma chars_encode_str [simp]: "list_all is_scalar cs \<Longrightarrow> chars (encode_str cs) = cs"
  by (simp add: chars_def from_utf8_encode)

text \<open>What the loop computes on the scalars before the offset.\<close>

fun advance :: "nat \<times> nat \<Rightarrow> scalar list \<Rightarrow> nat \<times> nat" where
  "advance lc [] = lc"
| "advance (l, c) (x # xs) = (if x = 10 then advance (l + 1, 1) xs else advance (l, c + 1) xs)"

lemma advance_eq:
  "advance (l, c) xs =
     (l + count_list xs 10,
      if 10 \<in> set xs then 1 + length (takeWhile (\<lambda>x. x \<noteq> 10) (rev xs)) else c + length xs)"
proof (induction xs arbitrary: l c)
  case (Cons x xs)
  have "takeWhile (\<lambda>x. x \<noteq> 10) (rev xs @ [x]) = rev xs @ (if x = 10 then [] else [x])"
    if "10 \<notin> set xs"
    using that by (subst takeWhile_append2) auto
  moreover have "takeWhile (\<lambda>x. x \<noteq> 10) (rev xs @ [x]) = takeWhile (\<lambda>x. x \<noteq> 10) (rev xs)"
    if "10 \<in> set xs"
    using that by (intro takeWhile_append1 [where x = 10]) auto
  ultimately show ?case by (auto simp: Cons.IH)
qed simp

lemma encode_str_length_ge: "length cs \<le> length (encode_str cs)"
proof (induction cs)
  case (Cons c cs)
  with len_utf8_pos [of c] show ?case
    by (simp only: encode_str_Cons length_append length_encode_utf8 list.size)
qed simp

lemma line_col_loop_stop [simp]:
  "off \<le> b \<Longrightarrow> line_col_loop off cs b l c = (l, c)"
  by (cases cs) simp_all

lemma line_col_loop_advance:
  assumes "off = b + length (encode_str pre)" and "l + length pre < 2 ^ 32"
    and "c + length pre < 2 ^ 32" and "1 \<le> c"
  shows "line_col_loop off (pre @ post) b l c = advance (l, c) pre"
  using assms
proof (induction pre arbitrary: b l c)
  case (Cons x pre)
  have off: "off = (b + len_utf8 x) + length (encode_str pre)" using Cons.prems(1) by simp
  have "\<not> off \<le> b" using off len_utf8_pos [of x] by linarith
  moreover have "line_col_loop off (pre @ post) (b + len_utf8 x) (l + 1) 1 = advance (l + 1, 1) pre"
    using Cons.prems(2-4) by (intro Cons.IH off) simp_all
  moreover have "line_col_loop off (pre @ post) (b + len_utf8 x) l (c + 1) = advance (l, c + 1) pre"
    using Cons.prems(2-4) by (intro Cons.IH off) simp_all
  moreover have "u32_cast (l + 1) = l + 1" "u32_cast (c + 1) = c + 1"
    using Cons.prems(2,3) by (simp_all add: u32_cast_def)
  ultimately show ?case by (cases "x = 10") (simp_all only: append_Cons line_col_loop.simps
      advance.simps if_True if_False)
qed simp

subsection \<open>Diagnostics\<close>

datatype severity = Error | Warning

record diagnostic =
  severity_of :: severity
  message :: string
  diag_span :: "span option"

type_synonym diagnostics = "diagnostic list"

definition diagnostic_error :: "string \<Rightarrow> span \<Rightarrow> diagnostic" where
  "diagnostic_error msg sp = \<lparr>severity_of = Error, message = msg, diag_span = Some sp\<rparr>"

definition diagnostic_warning :: "string \<Rightarrow> span \<Rightarrow> diagnostic" where
  "diagnostic_warning msg sp = \<lparr>severity_of = Warning, message = msg, diag_span = Some sp\<rparr>"

definition diag_push :: "diagnostics \<Rightarrow> diagnostic \<Rightarrow> diagnostics" where
  "diag_push ds d = ds @ [d]"

definition diag_error :: "diagnostics \<Rightarrow> string \<Rightarrow> span \<Rightarrow> diagnostics" where
  "diag_error ds msg sp = diag_push ds (diagnostic_error msg sp)"

definition has_errors :: "diagnostics \<Rightarrow> bool" where
  "has_errors ds \<longleftrightarrow> list_ex (\<lambda>d. severity_of d = Error) ds"

definition error_count :: "diagnostics \<Rightarrow> nat" where
  "error_count ds = length (filter (\<lambda>d. severity_of d = Error) ds)"

definition diag_is_empty :: "diagnostics \<Rightarrow> bool" where
  "diag_is_empty ds \<longleftrightarrow> ds = []"

definition diag_len :: "diagnostics \<Rightarrow> nat" where
  "diag_len ds = length ds"

definition diag_truncate :: "diagnostics \<Rightarrow> nat \<Rightarrow> diagnostics" where
  "diag_truncate ds n = take n ds"

lemma error_count_simps [simp]:
  "error_count [] = 0"
  "error_count (ds @ es) = error_count ds + error_count es"
  "error_count (diag_error ds msg sp) = Suc (error_count ds)"
  by (simp_all add: error_count_def diag_error_def diag_push_def diagnostic_error_def)

lemma has_errors_error_count: "has_errors ds \<longleftrightarrow> 0 < error_count ds"
  by (induction ds) (auto simp: has_errors_def error_count_def)

lemma diag_error_eq: "diag_error ds msg sp = ds @ [diagnostic_error msg sp]"
  by (simp add: diag_error_def diag_push_def)

subsection \<open>Properties\<close>

text \<open>
  C35. \<open>merge\<close> gives the least span of the file that contains both arguments.
\<close>

theorem merge_least:
  assumes "span_file a = span_file b"
  shows "covers (merge a b) a \<and> covers (merge a b) b \<and>
    (\<forall>c. covers c a \<and> covers c b \<longrightarrow> covers c (merge a b))"
  using assms by (auto simp: covers_def)

theorem merge_least_witness:
  "covers (merge (span_new 0 3 5) (span_new 0 1 4)) (span_new 0 3 5) \<and>
   merge (span_new 0 3 5) (span_new 0 1 4) = span_new 0 1 5"
  using merge_least [of "span_new 0 3 5" "span_new 0 1 4"] by (simp add: merge_def span_new_def)

text \<open>
  C34. For an offset on a scalar boundary of a file shorter than \<open>2 ^ 32 - 1\<close> bytes, \<open>line_col\<close>
  is one plus the number of newlines before it, and one plus the number of scalars between
  the last of those newlines (or the start of the file) and the offset.
\<close>

theorem line_col_counts:
  assumes "list_all is_scalar (pre @ post)" and "sf_src sf = encode_str (pre @ post)"
    and "length (sf_src sf) < 2 ^ 32 - 1"
  shows "line_col sf (length (encode_str pre)) =
    (1 + count_list pre 10,
     1 + (if 10 \<in> set pre then length (takeWhile (\<lambda>x. x \<noteq> 10) (rev pre)) else length pre))"
proof -
  have "length pre \<le> length (sf_src sf)"
    using encode_str_length_ge [of pre] assms(2) by simp
  then have "line_col_loop (length (encode_str pre)) (pre @ post) 0 1 1 = advance (1, 1) pre"
    using assms(3) by (intro line_col_loop_advance) simp_all
  moreover have "chars (sf_src sf) = pre @ post"
    unfolding assms(2) by (rule chars_encode_str [OF assms(1)])
  ultimately show ?thesis
    using assms(2) by (simp add: line_col_def advance_eq)
qed

theorem line_col_counts_witness:
  "line_col \<lparr>sf_id = 0, sf_name = ''t'', sf_src = encode_str [0x3042, 10, 0x3044]\<rparr> 4 = (2, 1)"
proof -
  have "length (encode_str [0x3042, 10]) = 4" by (simp add: len_utf8_def)
  then show ?thesis
    using line_col_counts [of "[0x3042, 10]" "[0x3044]"
        "\<lparr>sf_id = 0, sf_name = ''t'', sf_src = encode_str [0x3042, 10, 0x3044]\<rparr>"]
    by (simp add: is_scalar_def len_utf8_def)
qed

text \<open>
  C36. Adding a file (fewer than \<open>2 ^ 32\<close> are held) returns an id under which \<open>get\<close> finds
  exactly that file, and every id handed out before still finds the file it found.
\<close>

theorem add_file_get:
  assumes "length m < 2 ^ 32" and "add_file m name src = (fid, m')"
  shows "get_file m' fid = Some \<lparr>sf_id = fid, sf_name = name, sf_src = src\<rparr> \<and>
    (\<forall>g sf. get_file m g = Some sf \<longrightarrow> get_file m' g = Some sf \<and> g \<noteq> fid)"
  using assms by (auto simp: add_file_def get_file_def get_at_def Let_def nth_append split: if_splits)

theorem add_file_get_witness:
  "get_file (snd (add_file [] ''a.align'' ''x'')) 0 =
     Some \<lparr>sf_id = 0, sf_name = ''a.align'', sf_src = ''x''\<rparr>"
proof -
  have "add_file [] ''a.align'' ''x'' =
      (0, [\<lparr>sf_id = 0, sf_name = ''a.align'', sf_src = ''x''\<rparr>])"
    by (simp add: add_file_def)
  with add_file_get [of "[]" "''a.align''" "''x''" 0] show ?thesis by simp
qed

end
