(* ===== verification/Numerals.thy ===== *)
theory Numerals
  imports Prelude
begin

section \<open>Numbers as text\<close>

text \<open>
  What the front end uses of the standard library to read and print numbers: ASCII classes of
  bytes, \<open>i128::from_str_radix\<close>, \<open>u32::from_str_radix\<close>, \<open>str::parse::<f64>\<close> (the nearest
  binary64 value, ties to even), and the decimal and two-digit hexadecimal formats of
  diagnostics.
\<close>

subsection \<open>ASCII classes\<close>

definition is_digit :: "byte \<Rightarrow> bool" where
  "is_digit c \<longleftrightarrow> 0x30 \<le> (of_char c :: nat) \<and> (of_char c :: nat) \<le> 0x39"

definition is_upper :: "byte \<Rightarrow> bool" where
  "is_upper c \<longleftrightarrow> 0x41 \<le> (of_char c :: nat) \<and> (of_char c :: nat) \<le> 0x5A"

definition is_lower :: "byte \<Rightarrow> bool" where
  "is_lower c \<longleftrightarrow> 0x61 \<le> (of_char c :: nat) \<and> (of_char c :: nat) \<le> 0x7A"

definition is_alpha :: "byte \<Rightarrow> bool" where
  "is_alpha c \<longleftrightarrow> is_upper c \<or> is_lower c"

definition is_alnum :: "byte \<Rightarrow> bool" where
  "is_alnum c \<longleftrightarrow> is_digit c \<or> is_alpha c"

definition is_hexdigit :: "byte \<Rightarrow> bool" where
  "is_hexdigit c \<longleftrightarrow> is_digit c \<or> (0x41 \<le> (of_char c :: nat) \<and> (of_char c :: nat) \<le> 0x46)
     \<or> (0x61 \<le> (of_char c :: nat) \<and> (of_char c :: nat) \<le> 0x66)"

definition is_graphic :: "byte \<Rightarrow> bool" where
  "is_graphic c \<longleftrightarrow> 0x21 \<le> (of_char c :: nat) \<and> (of_char c :: nat) \<le> 0x7E"

subsection \<open>Integers\<close>

text \<open>\<open>char::to_digit(radix)\<close> for radixes up to 36.\<close>

definition digit_value :: "nat \<Rightarrow> byte \<Rightarrow> nat option" where
  "digit_value radix c =
     (let v = (if is_digit c then Some (of_char c - 0x30)
               else if is_lower c then Some (of_char c - 0x61 + 10)
               else if is_upper c then Some (of_char c - 0x41 + 10) else None)
      in case v of None \<Rightarrow> None | Some d \<Rightarrow> if d < radix then Some d else None)"

fun digits_value :: "nat \<Rightarrow> nat \<Rightarrow> bytes \<Rightarrow> nat option" where
  "digits_value radix acc [] = Some acc"
| "digits_value radix acc (c # cs) =
     (case digit_value radix c of
        None \<Rightarrow> None
      | Some d \<Rightarrow> digits_value radix (acc * radix + d) cs)"

definition I128_MAX :: int where
  "I128_MAX = 2 ^ 127 - 1"

text \<open>\<open>i128::from_str_radix\<close> on unsigned text: empty text, a bad digit or a value above
  \<open>i128::MAX\<close> is the error.\<close>

definition i128_from_str_radix :: "bytes \<Rightarrow> nat \<Rightarrow> int option" where
  "i128_from_str_radix text radix =
     (if text = [] then None
      else case digits_value radix 0 text of
             None \<Rightarrow> None
           | Some v \<Rightarrow> if int v \<le> I128_MAX then Some (int v) else None)"

definition u32_from_str_radix :: "bytes \<Rightarrow> nat \<Rightarrow> nat option" where
  "u32_from_str_radix text radix =
     (if text = [] then None
      else case digits_value radix 0 text of
             None \<Rightarrow> None
           | Some v \<Rightarrow> if v < 2 ^ 32 then Some v else None)"

subsection \<open>Binary64\<close>

text \<open>
  A non-negative binary64 value: \<open>F64 m e\<close> is \<open>m * 2 ^ e\<close>, in the canonical form with
  \<open>2 ^ 52 \<le> m < 2 ^ 53\<close>, or \<open>m < 2 ^ 52\<close> at the smallest exponent \<open>-1074\<close>.
\<close>

datatype f64 = F64 nat int | F64_Inf

fun ilog2 :: "nat \<Rightarrow> nat" where
  "ilog2 n = (if n < 2 then 0 else Suc (ilog2 (n div 2)))"

declare ilog2.simps [simp del]

definition round_half_even :: "nat \<Rightarrow> nat \<Rightarrow> nat" where
  "round_half_even num den =
     (let q = num div den; r = num mod den
      in if 2 * r < den then q
         else if den < 2 * r then Suc q
         else if even q then q else Suc q)"

text \<open>\<open>n * 2 ^ k / d\<close> for a positive or negative \<open>k\<close>, as a fraction.\<close>

definition scale_ratio :: "nat \<Rightarrow> nat \<Rightarrow> int \<Rightarrow> nat \<times> nat" where
  "scale_ratio n d k = (if 0 \<le> k then (n * 2 ^ nat k, d) else (n, d * 2 ^ nat (- k)))"

definition floor_log2_ratio :: "nat \<Rightarrow> nat \<Rightarrow> int" where
  "floor_log2_ratio n d =
     (let k = int (ilog2 n) - int (ilog2 d); (n', d') = scale_ratio n d (- k)
      in if d' \<le> n' then k else k - 1)"

definition f64_of_ratio :: "nat \<Rightarrow> nat \<Rightarrow> f64" where
  "f64_of_ratio n d =
     (if n = 0 then F64 0 (-1074)
      else let e = max (-1074) (floor_log2_ratio n d - 52);
               (n', d') = scale_ratio n d (- e);
               m = round_half_even n' d';
               (m', e') = (if m = 2 ^ 53 then (2 ^ 52, e + 1) else (m, e))
           in if 971 < e' then F64_Inf else F64 m' e')"

text \<open>
  \<open>text.parse::<f64>()\<close> for text of digits, an optional fraction and an optional exponent
  (the only shapes the lexer builds); the error is \<open>None\<close>.
\<close>

definition parse_exponent :: "bytes \<Rightarrow> int option" where
  "parse_exponent rest =
     (case rest of
        [] \<Rightarrow> Some 0
      | c # r \<Rightarrow>
          if c = CHR ''e'' \<or> c = CHR ''E'' then
            (let neg = (case r of s # _ \<Rightarrow> s = CHR ''-'' | [] \<Rightarrow> False);
                 ds = (case r of s # r' \<Rightarrow> if s = CHR ''-'' \<or> s = CHR ''+'' then r' else r | [] \<Rightarrow> r)
             in if ds = [] then None
                else map_option (\<lambda>v. if neg then - int v else int v) (digits_value 10 0 ds))
          else None)"

definition parse_f64 :: "bytes \<Rightarrow> f64 option" where
  "parse_f64 text =
     (let ip = takeWhile is_digit text; r1 = dropWhile is_digit text;
          has_dot = (case r1 of c # _ \<Rightarrow> c = CHR ''.'' | [] \<Rightarrow> False);
          fp = (if has_dot then takeWhile is_digit (tl r1) else []);
          r2 = (if has_dot then dropWhile is_digit (tl r1) else r1)
      in if ip @ fp = [] then None
         else case (digits_value 10 0 (ip @ fp), parse_exponent r2) of
                (Some m, Some x) \<Rightarrow>
                  (let x' = x - int (length fp)
                   in Some (if 0 \<le> x' then f64_of_ratio (m * 10 ^ nat x') 1
                            else f64_of_ratio m (10 ^ nat (- x'))))
              | _ \<Rightarrow> None)"

subsection \<open>Printing\<close>

fun show_nat :: "nat \<Rightarrow> string" where
  "show_nat n =
     (if n < 10 then [char_of (0x30 + n)] else show_nat (n div 10) @ [char_of (0x30 + n mod 10)])"

declare show_nat.simps [simp del]

definition show_int :: "int \<Rightarrow> string" where
  "show_int i = (if i < 0 then ''-'' @ show_nat (nat (- i)) else show_nat (nat i))"

definition hex_char :: "nat \<Rightarrow> char" where
  "hex_char d = (if d < 10 then char_of (0x30 + d) else char_of (0x61 + (d - 10)))"

definition show_byte_hex :: "byte \<Rightarrow> string" where
  "show_byte_hex c = [hex_char (of_char c div 16), hex_char (of_char c mod 16)]"

subsection \<open>Reading back what was printed\<close>

lemma digit_value_digit:
  assumes "d < 10" "d < radix"
  shows "digit_value radix (char_of (0x30 + d)) = Some d"
  using assms by (simp add: digit_value_def is_digit_def)

lemma digits_value_append:
  "digits_value r acc (xs @ ys) =
     (case digits_value r acc xs of None \<Rightarrow> None | Some v \<Rightarrow> digits_value r v ys)"
  by (induction r acc xs rule: digits_value.induct) (simp_all split: option.splits)

lemma digits_value_show_nat:
  "digits_value 10 0 (show_nat n) = Some n"
proof (induction n rule: show_nat.induct)
  case (1 n)
  show ?case
  proof (cases "n < 10")
    case True
    then show ?thesis by (simp add: show_nat.simps digit_value_digit)
  next
    case False
    then show ?thesis
      using "1.IH"
      by (simp add: show_nat.simps [of n] digits_value_append digit_value_digit)
  qed
qed

lemma show_nat_nonempty [simp]: "show_nat n \<noteq> []"
  by (subst show_nat.simps) simp

lemma show_nat_digits: "list_all is_digit (show_nat n)"
proof (induction n rule: show_nat.induct)
  case (1 n)
  have "is_digit (char_of (0x30 + n mod 10))" by (simp add: is_digit_def)
  with "1.IH" show ?case
    by (subst show_nat.simps) (auto simp: is_digit_def [of "char_of _"])
qed

lemma i128_show_nat:
  "int n \<le> I128_MAX \<Longrightarrow> i128_from_str_radix (show_nat n) 10 = Some (int n)"
  by (simp add: i128_from_str_radix_def digits_value_show_nat)

end
