(* ===== verification/Tokens.thy ===== *)
theory Tokens
  imports Spans Numerals
begin

section \<open>align\_lexer: tokens\<close>

text \<open>
  The token type of \<open>crates/align_lexer/src/lib.rs\<close>, one constructor per variant of
  \<open>TokKind\<close>, the predicate that decides implicit statement terminators, and the keyword
  table of \<open>lex_ident\<close> with the parser's inverse of it.
\<close>

datatype tok_kind =
    Tk_Int int | Tk_Float f64 | Tk_Char nat | Tk_Str bytes | Tk_Ident bytes
  | Tk_Fn | Tk_Return | Tk_Mut | Tk_Pub | Tk_Module | Tk_Import | Tk_If | Tk_Else
  | Tk_True | Tk_False | Tk_Arena | Tk_FloatScope | Tk_TaskGroup | Tk_Match | Tk_Loop
  | Tk_Break | Tk_Template | Tk_Unsafe | Tk_Extern | Tk_As
  | Tk_ColonEq | Tk_Eq | Tk_Arrow | Tk_FatArrow | Tk_LParen | Tk_RParen | Tk_LBrace
  | Tk_RBrace | Tk_LBracket | Tk_RBracket | Tk_Comma | Tk_Colon | Tk_Dot | Tk_DotDot
  | Tk_DotDotEq | Tk_Plus | Tk_Minus | Tk_Star | Tk_Slash | Tk_Percent | Tk_EqEq | Tk_NotEq
  | Tk_Lt | Tk_Le | Tk_Gt | Tk_Ge | Tk_AndAnd | Tk_OrOr | Tk_Amp | Tk_Pipe | Tk_Caret
  | Tk_Tilde | Tk_Bang | Tk_Question | Tk_Semicolon | Tk_End | Tk_Eof

record token =
  tk_kind :: tok_kind
  tk_span :: span
  tk_radix :: "nat option"

definition is_int_kind :: "tok_kind \<Rightarrow> bool" where
  "is_int_kind k \<longleftrightarrow> (case k of Tk_Int _ \<Rightarrow> True | _ \<Rightarrow> False)"

definition is_literal_kind :: "tok_kind \<Rightarrow> bool" where
  "is_literal_kind k \<longleftrightarrow>
     (case k of Tk_Int _ \<Rightarrow> True | Tk_Float _ \<Rightarrow> True | Tk_Char _ \<Rightarrow> True | Tk_Str _ \<Rightarrow> True
      | Tk_Ident _ \<Rightarrow> True | _ \<Rightarrow> False)"

text \<open>Whether the token, at the end of a line, can terminate a statement.\<close>

definition can_end_stmt :: "tok_kind \<Rightarrow> bool" where
  "can_end_stmt k \<longleftrightarrow> is_literal_kind k \<or>
     k \<in> set [Tk_Return, Tk_True, Tk_False, Tk_RParen, Tk_RBrace, Tk_RBracket, Tk_Question,
              Tk_Break]"

text \<open>The keywords \<open>lex_ident\<close> recognises.\<close>

definition keyword_table :: "(bytes \<times> tok_kind) list" where
  "keyword_table =
     [(''fn'', Tk_Fn), (''return'', Tk_Return), (''mut'', Tk_Mut), (''pub'', Tk_Pub),
      (''module'', Tk_Module), (''import'', Tk_Import), (''if'', Tk_If), (''else'', Tk_Else),
      (''true'', Tk_True), (''false'', Tk_False), (''arena'', Tk_Arena),
      (''float'', Tk_FloatScope), (''task_group'', Tk_TaskGroup), (''match'', Tk_Match),
      (''loop'', Tk_Loop), (''break'', Tk_Break), (''template'', Tk_Template),
      (''unsafe'', Tk_Unsafe), (''extern'', Tk_Extern), (''as'', Tk_As)]"

definition keyword_kind :: "bytes \<Rightarrow> tok_kind" where
  "keyword_kind text =
     (case map_of keyword_table text of Some k \<Rightarrow> k | None \<Rightarrow> Tk_Ident text)"

lemma is_int_kind_simps [simp]:
  "is_int_kind (Tk_Int i)" "\<not> is_int_kind (Tk_Float f)" "\<not> is_int_kind (Tk_Char c)"
  "\<not> is_int_kind (Tk_Str s)" "\<not> is_int_kind (Tk_Ident s)" "\<not> is_int_kind Tk_End"
  "\<not> is_int_kind Tk_Eof"
  by (simp_all add: is_int_kind_def)

lemma keyword_kind_not_int [simp]: "\<not> is_int_kind (keyword_kind s)"
  by (auto simp: keyword_kind_def keyword_table_def is_int_kind_def split: option.splits
      if_splits)

lemma keyword_kind_not_synthetic [simp]:
  "keyword_kind s \<noteq> Tk_End" "keyword_kind s \<noteq> Tk_Eof"
  by (auto simp: keyword_kind_def keyword_table_def split: option.splits if_splits)

lemma not_can_end_stmt [simp]: "\<not> can_end_stmt Tk_End" "\<not> can_end_stmt Tk_Eof"
  by (simp_all add: can_end_stmt_def is_literal_kind_def)

end
