(* ===== verification/Lexer.thy ===== *)
theory Lexer
  imports Tokens
begin

section \<open>align\_lexer: the lexer\<close>

text \<open>
  \<open>tokenize\<close> of \<open>crates/align_lexer/src/lib.rs\<close>, function by function. The lexer's state is
  a record; each method takes the state and the diagnostics and returns both. \<open>None\<close> of the
  methods that unwrap a value is the panic of that \<open>unwrap\<close>. Every loop is a total function:
  its measure is the number of bytes left.
\<close>

unbundle bit_operations_syntax

record lexer =
  lx_file :: nat
  lx_src :: bytes
  lx_pos :: nat
  lx_tokens :: "token list"

definition lx_span :: "lexer \<Rightarrow> nat \<Rightarrow> nat \<Rightarrow> span" where
  "lx_span lx lo hi = span_new (lx_file lx) (u32_cast lo) (u32_cast hi)"

definition lx_peek :: "lexer \<Rightarrow> byte option" where
  "lx_peek lx = get_at (lx_src lx) (lx_pos lx)"

text \<open>\<open>self.src.get(self.pos + k)\<close> and \<open>self.pos += k\<close>.\<close>

definition lx_ahead :: "lexer \<Rightarrow> nat \<Rightarrow> byte option" where
  "lx_ahead lx k = get_at (lx_src lx) (lx_pos lx + k)"

definition lx_bump :: "lexer \<Rightarrow> nat \<Rightarrow> lexer" where
  "lx_bump lx k = lx\<lparr>lx_pos := lx_pos lx + k\<rparr>"

text \<open>\<open>&self.src[i..self.pos]\<close> (the callers start at a position already passed).\<close>

definition lx_slice :: "lexer \<Rightarrow> nat \<Rightarrow> bytes" where
  "lx_slice lx i = take (lx_pos lx - i) (drop i (lx_src lx))"

subsection \<open>Scanning while a predicate holds\<close>

function eat_while :: "(byte \<Rightarrow> bool) \<Rightarrow> bytes \<Rightarrow> nat \<Rightarrow> nat" where
  "eat_while P s p = (if p < length s \<and> P (s ! p) then eat_while P s (Suc p) else p)"
  by pat_completeness auto
termination by (relation "measure (\<lambda>(P, s, p). length s - p)") auto

declare eat_while.simps [simp del]

definition lx_eat :: "(byte \<Rightarrow> bool) \<Rightarrow> lexer \<Rightarrow> lexer" where
  "lx_eat P lx = lx\<lparr>lx_pos := eat_while P (lx_src lx) (lx_pos lx)\<rparr>"

definition is_newline :: "byte \<Rightarrow> bool" where
  "is_newline c \<longleftrightarrow> c = CHR 0x0A"

definition is_inline_ws :: "byte \<Rightarrow> bool" where
  "is_inline_ws c \<longleftrightarrow> c = CHR '' '' \<or> c = CHR 0x09 \<or> c = CHR 0x0D"

definition is_ident_start :: "byte \<Rightarrow> bool" where
  "is_ident_start c \<longleftrightarrow> c = CHR ''_'' \<or> is_alpha c"

definition is_ident_continue :: "byte \<Rightarrow> bool" where
  "is_ident_continue c \<longleftrightarrow> c = CHR ''_'' \<or> is_alnum c"

definition is_digit_or_sep :: "byte \<Rightarrow> bool" where
  "is_digit_or_sep c \<longleftrightarrow> is_digit c \<or> c = CHR ''_''"

definition eat_digits :: "lexer \<Rightarrow> lexer" where
  "eat_digits lx = lx_eat is_digit_or_sep lx"

lemma eat_while_ge: "p \<le> eat_while P s p"
proof (induction P s p rule: eat_while.induct)
  case (1 P s p)
  then show ?case by (subst eat_while.simps) auto
qed

lemma eat_while_le: "p \<le> length s \<Longrightarrow> eat_while P s p \<le> length s"
proof (induction P s p rule: eat_while.induct)
  case (1 P s p)
  then show ?case by (subst eat_while.simps) auto
qed

lemma eat_while_gt:
  assumes "p < length s" "P (s ! p)" shows "p < eat_while P s p"
  using assms eat_while_ge [of "Suc p" P s] by (subst eat_while.simps) simp

text \<open>Whitespace and comments, without the newline.\<close>

function skip_ws :: "bytes \<Rightarrow> nat \<Rightarrow> nat" where
  "skip_ws s p =
     (if p < length s \<and> is_inline_ws (s ! p) then skip_ws s (Suc p)
      else if p < length s \<and> s ! p = CHR ''/'' \<and> get_at s (p + 1) = Some CHR ''/''
      then skip_ws s (eat_while (\<lambda>c. \<not> is_newline c) s p)
      else p)"
  by pat_completeness auto
termination
proof (relation "measure (\<lambda>(s, p). length s - p)", goal_cases)
  case (3 s p)
  then have "p < eat_while (\<lambda>c. \<not> is_newline c) s p"
    by (intro eat_while_gt) (auto simp: is_newline_def)
  with 3 show ?case by auto
qed auto

declare skip_ws.simps [simp del]

definition skip_inline_ws_and_comments :: "lexer \<Rightarrow> lexer" where
  "skip_inline_ws_and_comments lx = lx\<lparr>lx_pos := skip_ws (lx_src lx) (lx_pos lx)\<rparr>"

subsection \<open>Implicit statement terminators\<close>

function continues_from :: "bytes \<Rightarrow> nat \<Rightarrow> bool" where
  "continues_from s i =
     (if \<not> i < length s then False
      else if is_inline_ws (s ! i) \<or> is_newline (s ! i) then continues_from s (Suc i)
      else if s ! i = CHR ''/'' \<and> get_at s (i + 1) = Some CHR ''/''
      then continues_from s (eat_while (\<lambda>c. \<not> is_newline c) s (i + 2))
      else if s ! i \<in> set ''.+*/%'' then True
      else if s ! i \<in> set ''<>=&|^'' then True
      else if s ! i = CHR ''!'' then get_at s (i + 1) = Some CHR ''=''
      else if s ! i = CHR ''-'' then get_at s (i + 1) \<noteq> Some CHR ''>''
      else False)"
  by pat_completeness auto
termination
proof (relation "measure (\<lambda>(s, p). length s - p)", goal_cases)
  case (3 s i)
  have "i + 2 \<le> eat_while (\<lambda>c. \<not> is_newline c) s (i + 2)" by (rule eat_while_ge)
  with 3 show ?case by auto
qed auto

declare continues_from.simps [simp del]

definition next_significant_continues_line :: "lexer \<Rightarrow> bool" where
  "next_significant_continues_line lx = continues_from (lx_src lx) (lx_pos lx)"

definition maybe_insert_end :: "lexer \<Rightarrow> lexer" where
  "maybe_insert_end lx =
     (let prev_ends = (if lx_tokens lx = [] then False
                       else can_end_stmt (tk_kind (last (lx_tokens lx))))
      in if \<not> prev_ends then lx
         else if next_significant_continues_line lx then lx
         else lx\<lparr>lx_tokens := lx_tokens lx @
                [\<lparr>tk_kind = Tk_End, tk_span = lx_span lx (lx_pos lx) (lx_pos lx),
                  tk_radix = None\<rparr>]\<rparr>)"

text \<open>The radix an integer token carries, read back from its first two source bytes.\<close>

definition radix_at :: "bytes \<Rightarrow> nat \<Rightarrow> nat" where
  "radix_at s start =
     (case slice_range s start (start + 2) of
        None \<Rightarrow> 10
      | Some two \<Rightarrow>
          if two = ''0x'' \<or> two = ''0X'' then 16
          else if two = ''0o'' \<or> two = ''0O'' then 8
          else if two = ''0b'' \<or> two = ''0B'' then 2 else 10)"

definition lx_push :: "lexer \<Rightarrow> tok_kind \<Rightarrow> nat \<Rightarrow> lexer" where
  "lx_push lx kind start =
     lx\<lparr>lx_tokens := lx_tokens lx @
        [\<lparr>tk_kind = kind, tk_span = lx_span lx start (lx_pos lx),
          tk_radix = (if is_int_kind kind then Some (radix_at (lx_src lx) start) else None)\<rparr>]\<rparr>"

definition lx_error :: "lexer \<Rightarrow> string \<Rightarrow> nat \<Rightarrow> diagnostics \<Rightarrow> diagnostics" where
  "lx_error lx msg lo diags = diag_error diags msg (lx_span lx lo (lx_pos lx))"

subsection \<open>Numbers\<close>

text \<open>\<open>b[i - 1]\<close>, \<open>b[i - 2]\<close> and the two slices of \<open>split_num_suffix\<close>: \<open>i\<close> is the start of the
  trailing digits.\<close>

definition split_num_suffix :: "bytes \<Rightarrow> (bytes \<times> bytes) option" where
  "split_num_suffix text =
     (let i = length text - length (takeWhile is_digit (rev text))
      in if i < length text \<and> 2 \<le> i
            \<and> (text ! (i - 1) = CHR ''i'' \<or> text ! (i - 1) = CHR ''u'' \<or> text ! (i - 1) = CHR ''f'')
            \<and> is_alnum (text ! (i - 2))
         then Some (take (i - 1) text, drop (i - 1) text) else None)"

definition suffix_message :: "bytes \<Rightarrow> bytes \<Rightarrow> bytes \<Rightarrow> string" where
  "suffix_message suffix prefix digits =
     ''numeric literal suffixes are not supported (`'' @ suffix @
     ''`); convert explicitly, e.g. `'' @ prefix @ digits @ '' as '' @ suffix @ ''`''"

definition radix_prefix :: "byte option \<Rightarrow> (nat \<times> string) option" where
  "radix_prefix c =
     (if c = Some CHR ''x'' \<or> c = Some CHR ''X'' then Some (16, ''hex'')
      else if c = Some CHR ''o'' \<or> c = Some CHR ''O'' then Some (8, ''octal'')
      else if c = Some CHR ''b'' \<or> c = Some CHR ''B'' then Some (2, ''binary'') else None)"

text \<open>\<open>std::str::from_utf8(bytes).unwrap()\<close>.\<close>

definition utf8_unwrap :: "bytes \<Rightarrow> bytes option" where
  "utf8_unwrap bs = (case from_utf8 bs of None \<Rightarrow> None | Some _ \<Rightarrow> Some bs)"

text \<open>\<open>b as char\<close> pushed on a \<open>String\<close>, for every byte of a slice.\<close>

definition bytes_as_chars :: "bytes \<Rightarrow> bytes" where
  "bytes_as_chars bs = encode_str (map of_char bs)"

definition lex_radix_number ::
  "lexer \<Rightarrow> nat \<Rightarrow> nat \<Rightarrow> string \<Rightarrow> diagnostics \<Rightarrow> (lexer \<times> diagnostics) option" where
  "lex_radix_number lx0 start radix name diags =
     (let lx = lx_eat is_ident_continue (lx_bump lx0 2);
          text = bytes_as_chars (filter (\<lambda>b. b \<noteq> CHR ''_'') (lx_slice lx (lx_pos lx0 + 2)))
      in if text = [] then
           Some (lx, lx_error lx (name @ '' literal has no digits'') start diags)
         else case i128_from_str_radix text radix of
                Some v \<Rightarrow> Some (lx_push lx (Tk_Int v) start, diags)
              | None \<Rightarrow>
                  (let prefix = bytes_as_chars (take 2 (drop start (lx_src lx)));
                       invalid = map_option (\<lambda>t. (lx, lx_error lx
                          (''invalid '' @ name @ '' integer literal: '' @ [CHR 0x27] @ t @ [CHR 0x27])
                          start diags)) (utf8_unwrap (lx_slice lx start))
                   in case split_num_suffix text of
                        None \<Rightarrow> invalid
                      | Some (digits, suffix) \<Rightarrow>
                          if i128_from_str_radix digits radix \<noteq> None then
                            Some (lx, lx_error lx (suffix_message suffix prefix digits) start diags)
                          else invalid))"

text \<open>The decimal scan: digits, an optional fraction, an optional exponent.\<close>

definition scan_fraction :: "lexer \<Rightarrow> lexer \<times> bool" where
  "scan_fraction lx =
     (if lx_peek lx = Some CHR ''.'' \<and>
         (case lx_ahead lx 1 of None \<Rightarrow> False | Some c \<Rightarrow> is_digit c)
      then (eat_digits (lx_bump lx 1), True) else (lx, False))"

definition scan_exponent :: "lexer \<Rightarrow> lexer \<times> bool" where
  "scan_exponent lx =
     (if lx_peek lx = Some CHR ''e'' \<or> lx_peek lx = Some CHR ''E'' then
        (let lx1 = lx_bump lx 1;
             lx2 = (if lx_peek lx1 = Some CHR ''+'' \<or> lx_peek lx1 = Some CHR ''-''
                    then lx_bump lx1 1 else lx1)
         in (eat_digits lx2, True))
      else (lx, False))"

definition quoted :: "bytes \<Rightarrow> bytes" where
  "quoted t = [CHR 0x27] @ t @ [CHR 0x27]"

definition push_number ::
  "lexer \<Rightarrow> nat \<Rightarrow> bool \<Rightarrow> bytes \<Rightarrow> diagnostics \<Rightarrow> lexer \<times> diagnostics" where
  "push_number lx start is_float text diags =
     (if is_float then
        (case parse_f64 text of
           None \<Rightarrow> (lx, lx_error lx (''invalid float literal: '' @ quoted text) start diags)
         | Some v \<Rightarrow>
             if v = F64_Inf then
               (lx, lx_error lx (''float literal out of range (overflows to infinity): '' @ quoted text)
                      start diags)
             else (lx_push lx (Tk_Float v) start, diags))
      else
        (case i128_from_str_radix text 10 of
           Some v \<Rightarrow> (lx_push lx (Tk_Int v) start, diags)
         | None \<Rightarrow>
             (lx, lx_error lx (''integer literal out of range: '' @ quoted text) start diags)))"

definition number_suffix ::
  "lexer \<Rightarrow> nat \<Rightarrow> bytes \<Rightarrow> diagnostics \<Rightarrow> (lexer \<times> diagnostics) option" where
  "number_suffix lx start text diags =
     (if (case lx_peek lx of None \<Rightarrow> False | Some c \<Rightarrow> is_alpha c) then
        (let lx' = lx_eat is_ident_continue lx
         in map_option (\<lambda>suffix. (lx', lx_error lx' (suffix_message suffix [] text) start diags))
              (utf8_unwrap (lx_slice lx' (lx_pos lx))))
      else Some (lx, diags))"

definition lex_number :: "lexer \<Rightarrow> nat \<Rightarrow> diagnostics \<Rightarrow> (lexer \<times> diagnostics) option" where
  "lex_number lx start diags =
     (case (if lx_peek lx = Some CHR ''0'' then radix_prefix (lx_ahead lx 1) else None) of
        Some (radix, name) \<Rightarrow> lex_radix_number lx start radix name diags
      | None \<Rightarrow>
          (let (lx1, frac) = scan_fraction (eat_digits lx);
               (lx2, ex) = scan_exponent lx1
           in case utf8_unwrap (lx_slice lx2 start) of
                None \<Rightarrow> None
              | Some raw \<Rightarrow>
                  (let text = filter (\<lambda>c. c \<noteq> CHR ''_'') raw;
                       (lx3, diags3) = push_number lx2 start (frac \<or> ex) text diags
                   in number_suffix lx3 start text diags3)))"

subsection \<open>Escapes\<close>

definition display_escape_byte :: "byte \<Rightarrow> string" where
  "display_escape_byte b =
     (if is_graphic b \<or> b = CHR '' '' then [b] else ''byte 0x'' @ show_byte_hex b)"

text \<open>The simple escapes of the lexer.\<close>

definition simple_escape :: "byte \<Rightarrow> scalar option" where
  "simple_escape e =
     (if e = CHR ''n'' then Some 0x0A else if e = CHR ''t'' then Some 0x09
      else if e = CHR ''r'' then Some 0x0D else if e = CHR ''0'' then Some 0
      else if e = CHR 0x5C then Some 0x5C else if e = CHR 0x22 then Some 0x22
      else if e = CHR 0x27 then Some 0x27 else None)"

definition unicode_message :: "string \<Rightarrow> string \<Rightarrow> string" where
  "unicode_message literal tail = ''invalid '' @ literal @ '' unicode escape: '' @ tail"

definition close_brace :: "lexer \<Rightarrow> lexer" where
  "close_brace lx = (if lx_peek lx = Some CHR ''}'' then lx_bump lx 1 else lx)"

text \<open>
  \<open>esc_start\<close> points at the byte after the backslash; both callers have consumed one, so
  \<open>esc_start - 1\<close> does not underflow.
\<close>

definition lex_unicode_escape ::
  "lexer \<Rightarrow> string \<Rightarrow> nat \<Rightarrow> diagnostics \<Rightarrow> scalar option \<times> lexer \<times> diagnostics" where
  "lex_unicode_escape lx literal esc_start diags =
     (if lx_peek lx \<noteq> Some CHR ''{'' then
        (None, lx, lx_error lx (unicode_message literal
            (''expected '' @ quoted ''{'' @ '' after '' @ quoted ([CHR 0x5C] @ ''u'')))
            (esc_start - 1) diags)
      else
        (let lx1 = lx_bump lx 1; lx2 = lx_eat is_hexdigit lx1;
             digit_count = lx_pos lx2 - lx_pos lx1
         in if digit_count = 0 then
              (None, close_brace lx2, lx_error lx2 (unicode_message literal ''expected 1-6 hex digits'')
                 (esc_start - 1) diags)
            else if 6 < digit_count then
              (None, close_brace lx2, lx_error lx2
                 (unicode_message literal ''expected at most 6 hex digits'') (esc_start - 1) diags)
            else if lx_peek lx2 \<noteq> Some CHR ''}'' then
              (None, lx2, lx_error lx2 (unicode_message literal (''expected '' @ quoted ''}''))
                 (esc_start - 1) diags)
            else
              (let lx3 = lx_bump lx2 1;
                   digits = lx_slice lx2 (lx_pos lx1);
                   value = (case u32_from_str_radix digits 16 of Some v \<Rightarrow> v | None \<Rightarrow> 0x110000)
               in case char_from_u32 value of
                    Some ch \<Rightarrow> (Some ch, lx3, diags)
                  | None \<Rightarrow>
                      (None, lx3, lx_error lx3
                         (unicode_message literal ''not a Unicode scalar value'')
                         (esc_start - 1) diags))))"

definition lex_escape ::
  "lexer \<Rightarrow> string \<Rightarrow> diagnostics \<Rightarrow> scalar option \<times> lexer \<times> diagnostics" where
  "lex_escape lx literal diags =
     (case lx_peek lx of
        None \<Rightarrow> (None, lx, diags)
      | Some e \<Rightarrow>
          (let lx1 = lx_bump lx 1
           in case simple_escape e of
                Some ch \<Rightarrow> (Some ch, lx1, diags)
              | None \<Rightarrow>
                  if e = CHR ''u'' then lex_unicode_escape lx1 literal (lx_pos lx) diags
                  else (None, lx1, lx_error lx1
                          (''unknown '' @ literal @ '' escape: '' @
                             quoted ([CHR 0x5C] @ display_escape_byte e))
                          (lx_pos lx - 1) diags)))"

subsection \<open>One scalar of the source\<close>

text \<open>The sequence length a first byte announces.\<close>

definition char_len :: "byte \<Rightarrow> nat" where
  "char_len c =
     (if val c AND 0x80 = 0 then 1
      else if val c AND 0xE0 = 0xC0 then 2
      else if val c AND 0xF0 = 0xE0 then 3
      else if val c AND 0xF8 = 0xF0 then 4 else 1)"

text \<open>\<open>std::str::from_utf8(&self.src[self.pos..self.pos + max_len])\<close> and its first scalar.\<close>

definition scalar_at :: "bytes \<Rightarrow> nat \<Rightarrow> scalar option" where
  "scalar_at s p =
     (let max_len = min (char_len (s ! p)) (length s - p)
      in case from_utf8 (take max_len (drop p s)) of
           None \<Rightarrow> None
         | Some cs \<Rightarrow> Some (case cs of c # _ \<Rightarrow> c | [] \<Rightarrow> 0xFFFD))"

text \<open>The scalar and the number of bytes the string and character literals advance by.\<close>

definition literal_scalar :: "lexer \<Rightarrow> scalar \<times> nat" where
  "literal_scalar lx =
     (case scalar_at (lx_src lx) (lx_pos lx) of
        Some c \<Rightarrow> (c, len_utf8 c)
      | None \<Rightarrow> (0xFFFD, 1))"

definition at_line_end :: "lexer \<Rightarrow> bool" where
  "at_line_end lx \<longleftrightarrow> lx_peek lx = None \<or> lx_peek lx = Some CHR 0x0A \<or> lx_peek lx = Some CHR 0x0D"

subsection \<open>Frame facts\<close>

declare One_nat_def [simp del]

text \<open>What every operation keeps: the file, the source, and a position that only moves
  forward and never past the end.\<close>

definition lx_frame :: "lexer \<Rightarrow> lexer \<Rightarrow> bool" where
  "lx_frame lx lx' \<longleftrightarrow> lx_file lx' = lx_file lx \<and> lx_src lx' = lx_src lx \<and>
     lx_pos lx \<le> lx_pos lx' \<and>
     (lx_pos lx \<le> length (lx_src lx) \<longrightarrow> lx_pos lx' \<le> length (lx_src lx))"

lemma lx_bump_simps [simp]:
  "lx_file (lx_bump lx k) = lx_file lx" "lx_src (lx_bump lx k) = lx_src lx"
  "lx_pos (lx_bump lx k) = lx_pos lx + k" "lx_tokens (lx_bump lx k) = lx_tokens lx"
  by (simp_all add: lx_bump_def)

lemma lx_eat_simps [simp]:
  "lx_file (lx_eat P lx) = lx_file lx" "lx_src (lx_eat P lx) = lx_src lx"
  "lx_pos (lx_eat P lx) = eat_while P (lx_src lx) (lx_pos lx)"
  "lx_tokens (lx_eat P lx) = lx_tokens lx"
  by (simp_all add: lx_eat_def)

lemma lx_push_simps [simp]:
  "lx_file (lx_push lx k st) = lx_file lx" "lx_src (lx_push lx k st) = lx_src lx"
  "lx_pos (lx_push lx k st) = lx_pos lx"
  by (simp_all add: lx_push_def)

lemma skip_inline_simps [simp]:
  "lx_file (skip_inline_ws_and_comments lx) = lx_file lx"
  "lx_src (skip_inline_ws_and_comments lx) = lx_src lx"
  "lx_tokens (skip_inline_ws_and_comments lx) = lx_tokens lx"
  "lx_pos (skip_inline_ws_and_comments lx) = skip_ws (lx_src lx) (lx_pos lx)"
  by (simp_all add: skip_inline_ws_and_comments_def)

lemma maybe_insert_end_simps [simp]:
  "lx_file (maybe_insert_end lx) = lx_file lx"
  "lx_src (maybe_insert_end lx) = lx_src lx"
  "lx_pos (maybe_insert_end lx) = lx_pos lx"
  by (simp_all add: maybe_insert_end_def Let_def)

lemma lx_frame_refl [simp, intro]: "lx_frame lx lx"
  and lx_frame_trans: "lx_frame a b \<Longrightarrow> lx_frame b c \<Longrightarrow> lx_frame a c"
  by (auto simp: lx_frame_def)

lemma lx_frame_eat [intro]: "lx_frame lx (lx_eat P lx)"
  by (simp add: lx_frame_def eat_while_ge eat_while_le)

lemma lx_frame_eat_digits [intro]: "lx_frame lx (eat_digits lx)"
  unfolding eat_digits_def by blast

lemma lx_frame_bump [intro]: "lx_pos lx + k \<le> length (lx_src lx) \<Longrightarrow> lx_frame lx (lx_bump lx k)"
  by (simp add: lx_frame_def)

lemma lx_frame_push [intro]: "lx_frame lx lx' \<Longrightarrow> lx_frame lx (lx_push lx' k st)"
  by (simp add: lx_frame_def)

lemma lx_peek_Some: "lx_peek lx = Some c \<longleftrightarrow> lx_pos lx < length (lx_src lx) \<and> lx_src lx ! lx_pos lx = c"
  by (simp add: lx_peek_def get_at_Some_iff)

lemma lx_peek_None: "lx_peek lx = None \<longleftrightarrow> length (lx_src lx) \<le> lx_pos lx"
  by (simp add: lx_peek_def)

lemma lx_frame_bump_peek [intro]: "lx_peek lx = Some c \<Longrightarrow> lx_frame lx (lx_bump lx 1)"
  by (intro lx_frame_bump) (simp add: lx_peek_Some)

lemma lx_frame_close_brace [intro]: "lx_frame lx (close_brace lx)"
  by (auto simp: close_brace_def)

lemma skip_ws_ge: "p \<le> skip_ws s p"
proof (induction s p rule: skip_ws.induct)
  case (1 s p)
  have "p \<le> eat_while (\<lambda>c. \<not> is_newline c) s p" by (rule eat_while_ge)
  with 1 show ?case by (subst skip_ws.simps) auto
qed

lemma skip_ws_le: "p \<le> length s \<Longrightarrow> skip_ws s p \<le> length s"
proof (induction s p rule: skip_ws.induct)
  case (1 s p)
  with eat_while_le [of p s "\<lambda>c. \<not> is_newline c"] show ?case by (subst skip_ws.simps) auto
qed

lemma lx_frame_skip [intro]: "lx_frame lx (skip_inline_ws_and_comments lx)"
  by (simp add: lx_frame_def skip_ws_ge skip_ws_le)

lemma lex_unicode_escape_frame:
  "lex_unicode_escape lx lit st ds = (c, lx', ds') \<Longrightarrow>
     lx_frame lx lx' \<and> lx_tokens lx' = lx_tokens lx"
proof -
  assume eq: "lex_unicode_escape lx lit st ds = (c, lx', ds')"
  let ?lx1 = "lx_bump lx 1"
  let ?lx2 = "lx_eat is_hexdigit ?lx1"
  show ?thesis
  proof (cases "lx_peek lx = Some CHR ''{''")
    case False
    with eq show ?thesis by (simp add: lex_unicode_escape_def)
  next
    case True
    then have fr: "lx_frame lx ?lx2" by (blast intro: lx_frame_trans)
    have fr3: "lx_frame lx (lx_bump ?lx2 1)" if "lx_peek ?lx2 = Some CHR ''}''"
      using fr lx_frame_bump_peek [OF that] by (rule lx_frame_trans)
    have cl: "lx_frame lx (close_brace ?lx2)" using fr by (blast intro: lx_frame_trans)
    have "lx' \<in> {?lx2, close_brace ?lx2} \<or>
        (lx' = lx_bump ?lx2 1 \<and> lx_peek ?lx2 = Some CHR ''}'')"
      using eq True by (auto simp: lex_unicode_escape_def Let_def split: if_splits option.splits)
    with fr fr3 cl show ?thesis by (auto simp: close_brace_def)
  qed
qed

lemma lex_escape_frame:
  assumes "lex_escape lx lit ds = (c, lx', ds')" and "lx_peek lx \<noteq> None"
  shows "lx_frame (lx_bump lx 1) lx' \<and> lx_tokens lx' = lx_tokens lx"
proof -
  obtain e where e: "lx_peek lx = Some e" using assms(2) by blast
  have "lex_unicode_escape (lx_bump lx 1) lit (lx_pos lx) ds = (c, lx', ds') \<or> lx' = lx_bump lx 1"
    using assms(1) e by (auto simp: lex_escape_def Let_def split: if_splits option.splits)
  then show ?thesis
    using lex_unicode_escape_frame [of "lx_bump lx 1" lit "lx_pos lx" ds c lx' ds'] by auto
qed

lemma literal_scalar_pos: "literal_scalar lx = (c, n) \<Longrightarrow> 0 < n"
  by (auto simp: literal_scalar_def split: option.splits)

subsection \<open>String and character literals, names and symbols\<close>

function lex_string_loop ::
  "nat \<Rightarrow> lexer \<Rightarrow> bytes \<Rightarrow> diagnostics \<Rightarrow> lexer \<times> bytes \<times> diagnostics" where
  "lex_string_loop start lx s diags =
     (if at_line_end lx then
        (lx, s, lx_error lx ''unterminated string literal'' start diags)
      else if lx_peek lx = Some CHR 0x22 then (lx_bump lx 1, s, diags)
      else if lx_peek lx = Some CHR 0x5C then
        (let lx1 = lx_bump lx 1
         in if at_line_end lx1 then
              (lx1, s, lx_error lx1 ''unterminated string literal'' start diags)
            else
              (case lex_escape lx1 ''string'' diags of
                 (c, lx2, diags2) \<Rightarrow>
                   lex_string_loop start lx2
                     (case c of Some ch \<Rightarrow> s @ encode_utf8 ch | None \<Rightarrow> s) diags2))
      else
        (case literal_scalar lx of
           (c, n) \<Rightarrow> lex_string_loop start (lx_bump lx n) (s @ encode_utf8 c) diags))"
  by pat_completeness auto
termination
proof (relation "measure (\<lambda>(start, lx, s, ds). length (lx_src lx) - lx_pos lx)", goal_cases)
  case (2 start lx s ds x1 c q lx2 ds2)
  have "lx_frame (lx_bump x1 1) lx2" "lx_pos lx < length (lx_src lx)"
    using lex_escape_frame [of x1 "''string''" ds c lx2 ds2] 2
    by (auto simp: at_line_end_def lx_peek_Some)
  with 2 show ?case by (auto simp: lx_frame_def)
next
  case (3 start lx s ds c n)
  then have "lx_pos lx < length (lx_src lx)" by (auto simp: at_line_end_def lx_peek_None)
  with 3 literal_scalar_pos [of lx c n] show ?case by auto
qed simp

declare lex_string_loop.simps [simp del]

definition lex_string :: "lexer \<Rightarrow> nat \<Rightarrow> diagnostics \<Rightarrow> lexer \<times> diagnostics" where
  "lex_string lx start diags =
     (case lex_string_loop start (lx_bump lx 1) [] diags of
        (lx', s, diags') \<Rightarrow> (lx_push lx' (Tk_Str s) start, diags'))"

text \<open>The scalar of a character literal; \<open>None\<close> is the early return of an unterminated one.\<close>

definition lex_char_body ::
  "lexer \<Rightarrow> nat \<Rightarrow> diagnostics \<Rightarrow> scalar option \<times> lexer \<times> diagnostics" where
  "lex_char_body lx start diags =
     (if lx_peek lx = Some CHR 0x5C then
        (let lx1 = lx_bump lx 1
         in if at_line_end lx1 then
              (None, lx1, lx_error lx1 ''unterminated character literal'' start diags)
            else (case lex_escape lx1 ''character'' diags of
                    (c, lx2, diags2) \<Rightarrow>
                      (Some (case c of Some ch \<Rightarrow> ch | None \<Rightarrow> 0xFFFD), lx2, diags2)))
      else if at_line_end lx then
        (None, lx, lx_error lx ''unterminated character literal'' start diags)
      else (case literal_scalar lx of (c, n) \<Rightarrow> (Some c, lx_bump lx n, diags)))"

definition lex_char :: "lexer \<Rightarrow> nat \<Rightarrow> diagnostics \<Rightarrow> lexer \<times> diagnostics" where
  "lex_char lx start diags =
     (case lex_char_body (lx_bump lx 1) start diags of
        (None, lx1, diags1) \<Rightarrow> (lx1, diags1)
      | (Some ch, lx1, diags1) \<Rightarrow>
          (if lx_peek lx1 = Some CHR 0x27 then
             (lx_push (lx_bump lx1 1) (Tk_Char ch) start, diags1)
           else if at_line_end lx1 then
             (lx_push lx1 (Tk_Char ch) start,
              lx_error lx1 ''unterminated character literal'' start diags1)
           else
             (lx_push lx1 (Tk_Char ch) start,
              lx_error lx1 ''character literal must contain exactly one character'' start diags1)))"

definition lex_ident :: "lexer \<Rightarrow> nat \<Rightarrow> lexer option" where
  "lex_ident lx start =
     (let lx' = lx_eat is_ident_continue lx
      in case utf8_unwrap (lx_slice lx' start) of
           None \<Rightarrow> None
         | Some text \<Rightarrow> Some (lx_push lx' (keyword_kind text) start))"

text \<open>The table of \<open>lex_symbol\<close>: the longest operator first.\<close>

definition symbol_kind :: "byte \<Rightarrow> byte option \<Rightarrow> byte option \<Rightarrow> (tok_kind \<times> nat) option" where
  "symbol_kind c two three =
     (if c = CHR '':'' \<and> two = Some CHR ''='' then Some (Tk_ColonEq, 2)
      else if c = CHR ''-'' \<and> two = Some CHR ''>'' then Some (Tk_Arrow, 2)
      else if c = CHR ''='' \<and> two = Some CHR ''='' then Some (Tk_EqEq, 2)
      else if c = CHR ''='' \<and> two = Some CHR ''>'' then Some (Tk_FatArrow, 2)
      else if c = CHR ''!'' \<and> two = Some CHR ''='' then Some (Tk_NotEq, 2)
      else if c = CHR ''<'' \<and> two = Some CHR ''='' then Some (Tk_Le, 2)
      else if c = CHR ''>'' \<and> two = Some CHR ''='' then Some (Tk_Ge, 2)
      else if c = CHR ''&'' \<and> two = Some CHR ''&'' then Some (Tk_AndAnd, 2)
      else if c = CHR ''|'' \<and> two = Some CHR ''|'' then Some (Tk_OrOr, 2)
      else if c = CHR ''&'' then Some (Tk_Amp, 1)
      else if c = CHR ''|'' then Some (Tk_Pipe, 1)
      else if c = CHR ''^'' then Some (Tk_Caret, 1)
      else if c = CHR ''~'' then Some (Tk_Tilde, 1)
      else if c = CHR ''='' then Some (Tk_Eq, 1)
      else if c = CHR ''<'' then Some (Tk_Lt, 1)
      else if c = CHR ''>'' then Some (Tk_Gt, 1)
      else if c = CHR ''!'' then Some (Tk_Bang, 1)
      else if c = CHR ''('' then Some (Tk_LParen, 1)
      else if c = CHR '')'' then Some (Tk_RParen, 1)
      else if c = CHR ''{'' then Some (Tk_LBrace, 1)
      else if c = CHR ''}'' then Some (Tk_RBrace, 1)
      else if c = CHR ''['' then Some (Tk_LBracket, 1)
      else if c = CHR '']'' then Some (Tk_RBracket, 1)
      else if c = CHR '','' then Some (Tk_Comma, 1)
      else if c = CHR '':'' then Some (Tk_Colon, 1)
      else if c = CHR ''.'' \<and> two = Some CHR ''.'' then
        (if three = Some CHR ''='' then Some (Tk_DotDotEq, 3) else Some (Tk_DotDot, 2))
      else if c = CHR ''.'' then Some (Tk_Dot, 1)
      else if c = CHR ''+'' then Some (Tk_Plus, 1)
      else if c = CHR ''-'' then Some (Tk_Minus, 1)
      else if c = CHR ''*'' then Some (Tk_Star, 1)
      else if c = CHR ''/'' then Some (Tk_Slash, 1)
      else if c = CHR ''%'' then Some (Tk_Percent, 1)
      else if c = CHR ''?'' then Some (Tk_Question, 1)
      else if c = CHR '';'' then Some (Tk_Semicolon, 1)
      else None)"

definition lex_symbol :: "lexer \<Rightarrow> nat \<Rightarrow> diagnostics \<Rightarrow> (lexer \<times> diagnostics) option" where
  "lex_symbol lx start diags =
     (case lx_peek lx of
        None \<Rightarrow> None
      | Some c \<Rightarrow>
          (case symbol_kind c (lx_ahead lx 1) (lx_ahead lx 2) of
             Some (kind, len) \<Rightarrow> Some (lx_push (lx_bump lx len) kind start, diags)
           | None \<Rightarrow>
               (let (display, adv) = (case scalar_at (lx_src lx) (lx_pos lx) of
                       Some ch \<Rightarrow> (encode_utf8 ch, len_utf8 ch)
                     | None \<Rightarrow> (''byte 0x'' @ show_byte_hex c, 1));
                    lx' = lx_bump lx adv
                in Some (lx', lx_error lx' (''unexpected character: '' @ quoted display)
                           start diags))))"

definition lex_token :: "lexer \<Rightarrow> diagnostics \<Rightarrow> (lexer \<times> diagnostics) option" where
  "lex_token lx diags =
     (let start = lx_pos lx
      in case lx_peek lx of
           None \<Rightarrow> None
         | Some c \<Rightarrow>
             if is_digit c then lex_number lx start diags
             else if c = CHR 0x27 then Some (lex_char lx start diags)
             else if c = CHR 0x22 then Some (lex_string lx start diags)
             else if is_ident_start c then map_option (\<lambda>lx'. (lx', diags)) (lex_ident lx start)
             else lex_symbol lx start diags)"

subsection \<open>What one token consumes\<close>

text \<open>ASCII stretches of the source, where every \<open>from_utf8(..).unwrap()\<close> succeeds.\<close>

definition ascii_between :: "bytes \<Rightarrow> nat \<Rightarrow> nat \<Rightarrow> bool" where
  "ascii_between s i j \<longleftrightarrow> (\<forall>k. i \<le> k \<and> k < j \<longrightarrow> val (s ! k) < 128)"

lemma from_utf8_ascii:
  "list_all (\<lambda>c. val c < 128) bs \<Longrightarrow> from_utf8 bs = Some (map of_char bs)"
proof (induction bs)
  case (Cons b bs)
  then show ?case by (subst from_utf8.simps) (simp add: decode_first_def)
qed simp

lemma utf8_unwrap_ascii:
  assumes "ascii_between (lx_src lx) i (lx_pos lx)" and "lx_pos lx \<le> length (lx_src lx)"
  shows "utf8_unwrap (lx_slice lx i) = Some (lx_slice lx i)"
proof -
  have "list_all (\<lambda>c. val c < 128) (lx_slice lx i)"
    using assms by (auto simp: list_all_length lx_slice_def ascii_between_def)
  then show ?thesis by (simp add: utf8_unwrap_def from_utf8_ascii)
qed

lemma eat_while_all:
  "p \<le> k \<Longrightarrow> k < eat_while P s p \<Longrightarrow> P (s ! k)"
proof (induction P s p rule: eat_while.induct)
  case (1 P s p)
  show ?case
  proof (cases "p < length s \<and> P (s ! p)")
    case True
    then have "eat_while P s p = eat_while P s (Suc p)" by (subst eat_while.simps) simp
    with 1 True show ?thesis by (cases "k = p") auto
  next
    case False
    then have "eat_while P s p = p" by (subst eat_while.simps) auto
    with 1 show ?thesis by simp
  qed
qed

lemma eat_while_stop:
  "eat_while P s p < length s \<Longrightarrow> \<not> P (s ! eat_while P s p)"
proof (induction P s p rule: eat_while.induct)
  case (1 P s p)
  show ?case
  proof (cases "p < length s \<and> P (s ! p)")
    case True
    then have "eat_while P s p = eat_while P s (Suc p)" by (subst eat_while.simps) simp
    with 1 True show ?thesis by simp
  next
    case False
    then have "eat_while P s p = p" by (subst eat_while.simps) auto
    with 1 False show ?thesis by simp
  qed
qed

lemma ascii_between_refl [simp]: "ascii_between s i i"
  by (simp add: ascii_between_def)

lemma ascii_between_trans:
  "ascii_between s i j \<Longrightarrow> ascii_between s j k \<Longrightarrow> ascii_between s i k"
  by (meson ascii_between_def not_le)

lemma ascii_between_step:
  "ascii_between s i j \<Longrightarrow> val (s ! j) < 128 \<Longrightarrow> ascii_between s i (Suc j)"
  by (auto simp: ascii_between_def less_Suc_eq)

lemma ascii_classes:
  "is_digit c \<Longrightarrow> val c < 128" "is_alpha c \<Longrightarrow> val c < 128" "is_ident_continue c \<Longrightarrow> val c < 128"
  "is_ident_start c \<Longrightarrow> val c < 128" "is_digit_or_sep c \<Longrightarrow> val c < 128"
  by (auto simp: is_digit_def is_alpha_def is_upper_def is_lower_def is_ident_continue_def
      is_alnum_def is_ident_start_def is_digit_or_sep_def)

lemma ascii_between_eat:
  assumes "ascii_between s i p" and "\<And>c. P c \<Longrightarrow> val c < 128"
  shows "ascii_between s i (eat_while P s p)"
proof -
  have "ascii_between s p (eat_while P s p)"
    using eat_while_all [of p _ P s] assms(2) by (auto simp: ascii_between_def)
  with assms(1) show ?thesis by (rule ascii_between_trans)
qed

lemma scalar_at_bound:
  assumes "scalar_at s p = Some c" and "p < length s"
  shows "p + len_utf8 c \<le> length s"
proof -
  let ?bs = "take (min (char_len (s ! p)) (length s - p)) (drop p s)"
  have ne: "?bs \<noteq> []" using assms(2) by (auto simp: char_len_def)
  obtain cs where cs: "from_utf8 ?bs = Some cs" "c = (case cs of c # _ \<Rightarrow> c | [] \<Rightarrow> 0xFFFD)"
    using assms(1) by (auto simp: scalar_at_def Let_def split: option.splits)
  from from_utf8_sound [OF cs(1)] have enc: "?bs = encode_str cs" by simp
  with ne obtain c' cs' where "cs = c' # cs'" by (cases cs) auto
  with cs(2) enc have "len_utf8 c \<le> length ?bs" by simp
  also have "\<dots> \<le> length s - p" by simp
  finally show ?thesis using assms(2) by linarith
qed

lemma literal_scalar_bound:
  "literal_scalar lx = (c, n) \<Longrightarrow> lx_pos lx < length (lx_src lx) \<Longrightarrow>
     lx_pos lx + n \<le> length (lx_src lx)"
  using scalar_at_bound [of "lx_src lx" "lx_pos lx"]
  by (auto simp: literal_scalar_def split: option.splits)

text \<open>
  One call of \<open>lex_token\<close>: the position moves forward, errors are only appended, and the
  bytes consumed become one token or are covered by an error. Without an error the token
  spans exactly what was consumed.
\<close>

definition lexed :: "nat \<Rightarrow> lexer \<Rightarrow> diagnostics \<Rightarrow> lexer \<Rightarrow> diagnostics \<Rightarrow> bool" where
  "lexed start lx ds lx' ds' \<longleftrightarrow> lx_frame lx lx' \<and> start < lx_pos lx' \<and>
     (\<exists>es. ds' = ds @ es \<and> (\<forall>e\<in>set es. severity_of e = Error) \<and>
        (lx_tokens lx' = lx_tokens lx \<and> es \<noteq> [] \<or>
         (\<exists>t hi. lx_tokens lx' = lx_tokens lx @ [t] \<and> start < hi \<and> hi \<le> lx_pos lx' \<and>
            tk_kind t \<noteq> Tk_End \<and> tk_kind t \<noteq> Tk_Eof \<and> tk_span t = lx_span lx start hi \<and>
            (es = [] \<longrightarrow> hi = lx_pos lx'))))"

definition errs_only :: "diagnostics \<Rightarrow> diagnostics \<Rightarrow> bool" where
  "errs_only ds ds' \<longleftrightarrow> (\<exists>es. ds' = ds @ es \<and> (\<forall>e\<in>set es. severity_of e = Error))"

lemma errs_only_refl [simp, intro]: "errs_only ds ds"
  and errs_only_error [intro]: "errs_only ds ds' \<Longrightarrow> errs_only ds (lx_error lx m lo ds')"
  and errs_only_trans: "errs_only a b \<Longrightarrow> errs_only b c \<Longrightarrow> errs_only a c"
  by (auto simp: errs_only_def lx_error_def diag_error_eq diagnostic_error_def)

lemma lexedI_error:
  assumes "lx_frame lx lx'" "start < lx_pos lx'" "lx_tokens lx' = lx_tokens lx" "errs_only ds ds1"
  shows "lexed start lx ds lx' (lx_error lx'' m lo ds1)"
  using assms by (auto simp: lexed_def errs_only_def lx_error_def diag_error_eq diagnostic_error_def)

lemma lexedI_push:
  assumes "lx_frame lx lx'" "start < lx_pos lx'" "lx_tokens lx' = lx_tokens lx" "errs_only ds ds1"
    "k \<noteq> Tk_End" "k \<noteq> Tk_Eof"
  shows "lexed start lx ds (lx_push lx' k start) ds1"
proof -
  have "lx_span lx' a b = lx_span lx a b" for a b
    using assms(1) by (simp add: lx_frame_def lx_span_def)
  then show ?thesis
    using assms by (auto simp: lexed_def errs_only_def lx_push_def lx_frame_def)
qed

lemma lexed_extend_error:
  assumes "lexed start lx ds lx1 ds1" "lx_frame lx1 lx2" "lx_tokens lx2 = lx_tokens lx1"
  shows "lexed start lx ds lx2 (lx_error lx2 m lo ds1)"
proof -
  have "lx_frame lx lx2" using assms lx_frame_trans by (auto simp: lexed_def)
  moreover have le: "start < lx_pos lx2" "lx_pos lx1 \<le> lx_pos lx2"
    using assms(1,2) by (auto simp: lexed_def lx_frame_def)
  moreover obtain es where es: "ds1 = ds @ es" "\<forall>e\<in>set es. severity_of e = Error"
    "lx_tokens lx1 = lx_tokens lx \<or>
       (\<exists>t hi. lx_tokens lx1 = lx_tokens lx @ [t] \<and> start < hi \<and> hi \<le> lx_pos lx1 \<and>
          tk_kind t \<noteq> Tk_End \<and> tk_kind t \<noteq> Tk_Eof \<and> tk_span t = lx_span lx start hi)"
    using assms(1) unfolding lexed_def by blast
  ultimately show ?thesis
    unfolding lexed_def lx_error_def diag_error_eq
    by (intro conjI exI [of _ "es @ [diagnostic_error m (lx_span lx2 lo (lx_pos lx2))]"])
      (use assms(3) in \<open>auto simp: diagnostic_error_def intro: order_trans\<close>)
qed

lemma lex_unicode_escape_errs:
  "lex_unicode_escape lx lit st ds = (c, lx', ds') \<Longrightarrow> errs_only ds ds'"
  by (auto simp: lex_unicode_escape_def Let_def split: if_splits option.splits)

lemma lex_escape_errs:
  "lex_escape lx lit ds = (c, lx', ds') \<Longrightarrow> errs_only ds ds'"
  by (auto simp: lex_escape_def Let_def dest: lex_unicode_escape_errs
      split: if_splits option.splits)

lemma lex_escape_frame_peeked:
  assumes "lx_peek lx = Some b" "\<not> at_line_end (lx_bump lx 1)"
    and "lex_escape (lx_bump lx 1) lit ds = (c, lx2, ds2)"
  shows "lx_frame lx lx2 \<and> lx_tokens lx2 = lx_tokens lx \<and> errs_only ds ds2
    \<and> lx_pos lx + 2 \<le> lx_pos lx2"
proof -
  obtain e where e: "lx_peek (lx_bump lx 1) = Some e" using assms(2) by (auto simp: at_line_end_def)
  then have "lx_frame (lx_bump (lx_bump lx 1) 1) lx2 \<and> lx_tokens lx2 = lx_tokens lx"
    using lex_escape_frame [OF assms(3)] by simp
  moreover have "lx_frame lx (lx_bump (lx_bump lx 1) 1)"
    using lx_frame_bump_peek [OF assms(1)] lx_frame_bump_peek [OF e] by (rule lx_frame_trans)
  ultimately show ?thesis
    using lex_escape_errs [OF assms(3)] lx_frame_trans by (auto simp: lx_frame_def)
qed

lemma lex_string_loop_frame:
  "lex_string_loop start lx s ds = (lx', s', ds') \<Longrightarrow>
     lx_frame lx lx' \<and> lx_tokens lx' = lx_tokens lx \<and> errs_only ds ds'"
proof (induction start lx s ds rule: lex_string_loop.induct)
  case (1 start lx s ds)
  note eq = "1.prems" [unfolded lex_string_loop.simps [of start lx s ds]]
  consider (stop) "at_line_end lx \<or> lx_peek lx = Some CHR 0x22"
    | (cut) "\<not> at_line_end lx" "lx_peek lx = Some CHR 0x5C" "at_line_end (lx_bump lx 1)"
    | (esc) "\<not> at_line_end lx" "lx_peek lx = Some CHR 0x5C" "\<not> at_line_end (lx_bump lx 1)"
    | (plain) "\<not> at_line_end lx" "lx_peek lx \<noteq> Some CHR 0x22" "lx_peek lx \<noteq> Some CHR 0x5C"
    by blast
  then show ?case
  proof cases
    case stop
    with eq show ?thesis by (auto split: if_splits)
  next
    case cut
    with eq show ?thesis by (auto simp: Let_def)
  next
    case esc
    obtain c lx2 ds2 where e: "lex_escape (lx_bump lx 1) ''string'' ds = (c, lx2, ds2)"
      by (metis prod_cases3)
    note fr = lex_escape_frame_peeked [OF esc(2,3) e]
    from "1.IH"(1) [OF esc(1) _ esc(2) refl esc(3) e [symmetric] refl] eq esc e fr
    show ?thesis by (auto intro: lx_frame_trans errs_only_trans)
  next
    case plain
    obtain c n where l: "literal_scalar lx = (c, n)" by force
    have "lx_pos lx < length (lx_src lx)"
      using plain by (auto simp: at_line_end_def lx_peek_None)
    then have "lx_frame lx (lx_bump lx n)"
      using literal_scalar_bound [OF l] by blast
    with "1.IH"(2) [OF plain l [symmetric]] eq plain l
    show ?thesis by (auto intro: lx_frame_trans)
  qed
qed

lemma lex_string_lexed:
  assumes "lx_peek lx = Some c" "start = lx_pos lx"
  shows "case lex_string lx start ds of (lx', ds') \<Rightarrow> lexed start lx ds lx' ds'"
proof -
  obtain lx1 s ds1 where e: "lex_string_loop start (lx_bump lx 1) [] ds = (lx1, s, ds1)"
    by (metis prod_cases3)
  from lex_string_loop_frame [OF e] assms
  have "lx_frame lx lx1" "start < lx_pos lx1" "lx_tokens lx1 = lx_tokens lx" "errs_only ds ds1"
    using lx_frame_trans [OF lx_frame_bump_peek [OF assms(1)]] by (auto simp: lx_frame_def)
  then show ?thesis by (simp add: lex_string_def e lexedI_push)
qed

lemma lex_char_body_frame:
  assumes "lex_char_body lx start ds = (c, lx', ds')"
  shows "lx_frame lx lx' \<and> lx_tokens lx' = lx_tokens lx \<and> errs_only ds ds' \<and>
    (c = None \<longrightarrow> (\<exists>l. ds' = lx_error l ''unterminated character literal'' start ds))"
proof (cases "lx_peek lx = Some CHR 0x5C \<and> \<not> at_line_end (lx_bump lx 1)")
  case True
  then show ?thesis
    using assms lex_escape_frame_peeked [of lx "CHR 0x5C" "''character''" ds]
    by (auto simp: lex_char_body_def split: prod.splits)
next
  case False
  note esc = this
  show ?thesis
  proof (cases "lx_peek lx = Some CHR 0x5C \<or> at_line_end lx")
    case True
    with esc assms show ?thesis by (auto simp: lex_char_body_def Let_def split: if_splits)
  next
    case False
    then have "lx_pos lx < length (lx_src lx)" by (auto simp: at_line_end_def lx_peek_None)
    with False assms literal_scalar_bound [of lx] show ?thesis
      by (auto simp: lex_char_body_def split: prod.splits)
  qed
qed

lemma lex_char_lexed:
  assumes "lx_peek lx = Some b" "start = lx_pos lx"
  shows "case lex_char lx start ds of (lx', ds') \<Rightarrow> lexed start lx ds lx' ds'"
proof -
  obtain c lx1 ds1 where e: "lex_char_body (lx_bump lx 1) start ds = (c, lx1, ds1)"
    by (metis prod_cases3)
  note fr = lex_char_body_frame [OF e]
  have f1: "lx_frame lx lx1" "start < lx_pos lx1" "lx_tokens lx1 = lx_tokens lx"
    using fr lx_frame_trans [OF lx_frame_bump_peek [OF assms(1)]] assms(2)
    by (auto simp: lx_frame_def)
  have f2: "lx_frame lx (lx_bump lx1 1)" if "lx_peek lx1 = Some q" for q
    using f1(1) lx_frame_bump_peek [OF that] by (rule lx_frame_trans)
  show ?thesis
  proof (cases c)
    case None
    with fr f1 e show ?thesis by (auto simp: lex_char_def intro!: lexedI_error)
  next
    case (Some ch)
    with fr f1 f2 e show ?thesis
      by (auto simp: lex_char_def intro!: lexedI_push)
  qed
qed

lemma lex_ident_lexed:
  assumes "lx_peek lx = Some c" "is_ident_start c"
  shows "\<exists>lx'. lex_ident lx (lx_pos lx) = Some lx' \<and> lexed (lx_pos lx) lx ds lx' ds"
proof -
  let ?lx' = "lx_eat is_ident_continue lx"
  have "is_ident_continue c"
    using assms(2) by (auto simp: is_ident_start_def is_ident_continue_def is_alnum_def)
  then have gt: "lx_pos lx < lx_pos ?lx'"
    using assms(1) by (simp add: lx_peek_Some eat_while_gt)
  have "utf8_unwrap (lx_slice ?lx' (lx_pos lx)) = Some (lx_slice ?lx' (lx_pos lx))"
    using assms(1)
    by (intro utf8_unwrap_ascii)
      (auto simp: lx_peek_Some intro!: ascii_between_eat eat_while_le dest: ascii_classes)
  then show ?thesis
    using gt by (auto simp: lex_ident_def Let_def intro!: lexedI_push)
qed

lemma symbol_kind_len:
  assumes "symbol_kind c two three = Some (k, n)"
  shows "0 < n \<and> (2 \<le> n \<longrightarrow> two \<noteq> None) \<and> (3 \<le> n \<longrightarrow> three \<noteq> None) \<and> n \<le> 3 \<and>
    k \<noteq> Tk_End \<and> k \<noteq> Tk_Eof \<and> \<not> is_int_kind k"
  using assms unfolding symbol_kind_def
  by (auto simp: is_int_kind_def split: if_splits)

lemma lex_symbol_lexed:
  assumes "lx_peek lx = Some c"
  shows "\<exists>lx' ds'. lex_symbol lx (lx_pos lx) ds = Some (lx', ds') \<and> lexed (lx_pos lx) lx ds lx' ds'"
proof (cases "symbol_kind c (lx_ahead lx 1) (lx_ahead lx 2)")
  case None
  obtain display adv where da: "(case scalar_at (lx_src lx) (lx_pos lx) of
       Some ch \<Rightarrow> (encode_utf8 ch, len_utf8 ch) | None \<Rightarrow> (''byte 0x'' @ show_byte_hex c, 1)) =
       (display, adv)" by force
  then have "0 < adv" "lx_pos lx + adv \<le> length (lx_src lx)"
    using assms scalar_at_bound [of "lx_src lx" "lx_pos lx"]
    by (auto simp: lx_peek_Some split: option.splits)
  then have "lexed (lx_pos lx) lx ds (lx_bump lx adv) (lx_error l m lo ds)" for l m lo
    by (auto intro!: lexedI_error)
  with None assms da show ?thesis by (simp add: lex_symbol_def Let_def)
next
  case (Some p)
  obtain k n where p: "p = (k, n)" by force
  note sk = symbol_kind_len [OF Some [unfolded p]]
  have "lx_pos lx + n \<le> length (lx_src lx)"
  proof (cases "n \<le> 1")
    case True
    with assms show ?thesis by (simp add: lx_peek_Some)
  next
    case False
    with sk show ?thesis by (cases "n = 2") (auto simp: lx_ahead_def)
  qed
  with sk have "lexed (lx_pos lx) lx ds (lx_push (lx_bump lx n) k (lx_pos lx)) ds"
    by (intro lexedI_push) auto
  with Some p assms show ?thesis by (simp add: lex_symbol_def)
qed

lemma push_number_lexed:
  assumes "lx_frame lx lx'" "lx_pos lx < lx_pos lx'" "lx_tokens lx' = lx_tokens lx"
  shows "case push_number lx' (lx_pos lx) fl text ds of (lx'', ds') \<Rightarrow>
    lexed (lx_pos lx) lx ds lx'' ds' \<and> lx_frame lx' lx'' \<and> lx_pos lx'' = lx_pos lx'"
  using assms
  by (auto simp: push_number_def intro!: lexedI_error lexedI_push split: option.splits)

lemma number_suffix_lexed:
  assumes "lexed start lx ds lx1 ds1" "lx_pos lx1 \<le> length (lx_src lx1)"
  shows "\<exists>lx' ds'. number_suffix lx1 start text ds1 = Some (lx', ds') \<and> lexed start lx ds lx' ds'"
proof (cases "case lx_peek lx1 of None \<Rightarrow> False | Some c \<Rightarrow> is_alpha c")
  case True
  let ?lx' = "lx_eat is_ident_continue lx1"
  have "utf8_unwrap (lx_slice ?lx' (lx_pos lx1)) = Some (lx_slice ?lx' (lx_pos lx1))"
    using assms(2) by (intro utf8_unwrap_ascii)
      (auto intro!: ascii_between_eat eat_while_le dest: ascii_classes)
  with True show ?thesis
    using lexed_extend_error [OF assms(1), of ?lx'] by (auto simp: number_suffix_def Let_def)
next
  case False
  then have "number_suffix lx1 start text ds1 = Some (lx1, ds1)"
    by (simp only: number_suffix_def if_False)
  with assms(1) show ?thesis by blast
qed

text \<open>The decimal scan stays on ASCII bytes and inside the source.\<close>

definition ascii_step :: "lexer \<Rightarrow> lexer \<Rightarrow> bool" where
  "ascii_step lx lx' \<longleftrightarrow> lx_frame lx lx' \<and> lx_tokens lx' = lx_tokens lx \<and>
     ascii_between (lx_src lx) (lx_pos lx) (lx_pos lx')"

lemma ascii_step_refl [simp, intro]: "ascii_step lx lx"
  by (simp add: ascii_step_def)

lemma ascii_step_trans: "ascii_step a b \<Longrightarrow> ascii_step b c \<Longrightarrow> ascii_step a c"
  unfolding ascii_step_def
  by (metis ascii_between_trans lx_frame_def lx_frame_trans)

lemma ascii_step_bump:
  "lx_peek lx = Some c \<Longrightarrow> val c < 128 \<Longrightarrow> ascii_step lx (lx_bump lx 1)"
  by (auto simp: ascii_step_def lx_peek_Some intro!: lx_frame_bump
      intro: ascii_between_step [OF ascii_between_refl, simplified Suc_eq_plus1])

lemma ascii_step_eat_digits: "ascii_step lx (eat_digits lx)"
  by (auto simp: ascii_step_def eat_digits_def intro!: ascii_between_eat dest: ascii_classes)

lemma scan_fraction_step: "ascii_step lx (fst (scan_fraction lx))"
  by (auto simp: scan_fraction_def intro!: ascii_step_trans [OF ascii_step_bump ascii_step_eat_digits])

lemma scan_exponent_step: "ascii_step lx (fst (scan_exponent lx))"
proof (cases "lx_peek lx = Some CHR ''e'' \<or> lx_peek lx = Some CHR ''E''")
  case True
  then have b: "ascii_step lx (lx_bump lx 1)"
    using ascii_step_bump [of lx "CHR ''e''"] ascii_step_bump [of lx "CHR ''E''"] by auto
  have "ascii_step (lx_bump lx 1) (lx_bump (lx_bump lx 1) 1)"
    if "lx_peek (lx_bump lx 1) = Some CHR ''+'' \<or> lx_peek (lx_bump lx 1) = Some CHR ''-''"
    using that ascii_step_bump [of "lx_bump lx 1" "CHR ''+''"]
      ascii_step_bump [of "lx_bump lx 1" "CHR ''-''"] by auto
  with True b show ?thesis
    by (auto simp: scan_exponent_def Let_def intro: ascii_step_trans ascii_step_eat_digits)
qed (simp add: scan_exponent_def)

lemma lex_radix_number_lexed:
  assumes "lx_peek lx = Some CHR ''0''" "lx_ahead lx 1 = Some x" "val x < 128"
  shows "\<exists>lx' ds'. lex_radix_number lx (lx_pos lx) radix name ds = Some (lx', ds') \<and>
    lexed (lx_pos lx) lx ds lx' ds'"
proof -
  let ?lx' = "lx_eat is_ident_continue (lx_bump lx 2)"
  have lt: "lx_pos lx + 1 < length (lx_src lx)" "lx_src lx ! (lx_pos lx + 1) = x"
    using assms(2) by (auto simp: lx_ahead_def get_at_Some_iff)
  then have fr: "lx_frame lx ?lx'"
    by (intro lx_frame_trans [OF lx_frame_bump [of lx 2] lx_frame_eat]) simp
  have gt: "lx_pos lx < lx_pos ?lx'"
    using eat_while_ge [of "lx_pos lx + 2" is_ident_continue "lx_src lx"] by simp
  have tk: "lx_tokens ?lx' = lx_tokens lx" by simp
  have "ascii_between (lx_src lx) (lx_pos lx) (lx_pos lx + 2)"
    using ascii_between_step [OF ascii_between_step [OF ascii_between_refl]] assms(1,3) lt
    by (simp add: lx_peek_Some Suc_eq_plus1 [symmetric] del: Suc_eq_plus1)
  then have "utf8_unwrap (lx_slice ?lx' (lx_pos lx)) = Some (lx_slice ?lx' (lx_pos lx))"
    using lt by (intro utf8_unwrap_ascii)
      (auto intro!: ascii_between_eat eat_while_le dest: ascii_classes)
  then show ?thesis
    by (auto simp: lex_radix_number_def Let_def fr gt [simplified]
        intro!: lexedI_error lexedI_push split: option.split)
qed

lemma lex_number_lexed:
  assumes "lx_peek lx = Some c" "is_digit c"
  shows "\<exists>lx' ds'. lex_number lx (lx_pos lx) ds = Some (lx', ds') \<and> lexed (lx_pos lx) lx ds lx' ds'"
proof (cases "if lx_peek lx = Some CHR ''0'' then radix_prefix (lx_ahead lx 1) else None")
  case (Some p)
  obtain radix name where p: "p = (radix, name)" by force
  from Some obtain x where "lx_peek lx = Some CHR ''0''" "lx_ahead lx 1 = Some x" "val x < 128"
    by (auto simp: radix_prefix_def split: if_splits)
  from lex_radix_number_lexed [OF this] Some p show ?thesis by (simp add: lex_number_def)
next
  case None
  define lx0 where "lx0 = eat_digits lx"
  obtain lx1 frac where s1: "scan_fraction lx0 = (lx1, frac)" by force
  obtain lx2 ex where s2: "scan_exponent lx1 = (lx2, ex)" by force
  have st: "ascii_step lx0 lx2"
    using scan_fraction_step [of lx0] scan_exponent_step [of lx1] s1 s2
    by (auto intro: ascii_step_trans)
  have "lx_pos lx < lx_pos lx0"
    using assms by (auto simp: lx0_def eat_digits_def lx_peek_Some is_digit_or_sep_def
        intro!: eat_while_gt)
  then have gt: "lx_pos lx < lx_pos lx2" using st by (simp add: ascii_step_def lx_frame_def)
  have st2: "ascii_step lx lx2"
    using ascii_step_eat_digits [of lx] st unfolding lx0_def by (rule ascii_step_trans)
  have le: "lx_pos lx2 \<le> length (lx_src lx2)" "lx_src lx2 = lx_src lx"
    using st2 assms(1) by (auto simp: ascii_step_def lx_frame_def lx_peek_Some)
  have u: "utf8_unwrap (lx_slice lx2 (lx_pos lx)) = Some (lx_slice lx2 (lx_pos lx))"
    using st2 le by (intro utf8_unwrap_ascii) (auto simp: ascii_step_def)
  let ?text = "filter (\<lambda>c. c \<noteq> CHR ''_'') (lx_slice lx2 (lx_pos lx))"
  obtain lx3 ds3 where pn: "push_number lx2 (lx_pos lx) (frac \<or> ex) ?text ds = (lx3, ds3)" by force
  have "lexed (lx_pos lx) lx ds lx3 ds3" "lx_pos lx3 \<le> length (lx_src lx3)"
    using push_number_lexed [of lx lx2 ds "frac \<or> ex" ?text] pn st2 gt le
    by (auto simp: ascii_step_def lx_frame_def)
  from number_suffix_lexed [OF this, of ?text] show ?thesis
    using None s1 s2 u pn by (simp add: lex_number_def lx0_def)
qed

lemma lex_token_lexed:
  assumes "lx_pos lx < length (lx_src lx)"
  shows "\<exists>lx' ds'. lex_token lx ds = Some (lx', ds') \<and> lexed (lx_pos lx) lx ds lx' ds'"
proof -
  obtain c where c: "lx_peek lx = Some c" using assms by (simp add: lx_peek_Some)
  consider (num) "is_digit c" | (chr) "\<not> is_digit c" "c = CHR 0x27"
    | (str) "\<not> is_digit c" "c = CHR 0x22" | (ident) "\<not> is_digit c" "is_ident_start c"
    | (sym) "\<not> is_digit c" "c \<noteq> CHR 0x27" "c \<noteq> CHR 0x22" "\<not> is_ident_start c"
    by blast
  then show ?thesis
  proof cases
    case num
    then show ?thesis using lex_number_lexed [OF c num, of ds] by (simp add: lex_token_def c)
  next
    case chr
    then show ?thesis
      using lex_char_lexed [OF c refl, of ds]
      by (cases "lex_char lx (lx_pos lx) ds") (simp add: lex_token_def c)
  next
    case str
    then show ?thesis
      using lex_string_lexed [OF c refl, of ds]
      by (cases "lex_string lx (lx_pos lx) ds") (simp add: lex_token_def c)
  next
    case ident
    then have "c \<noteq> CHR 0x27" "c \<noteq> CHR 0x22"
      by (auto simp: is_ident_start_def is_alpha_def is_upper_def is_lower_def)
    with ident lex_ident_lexed [OF c ident(2), of ds] show ?thesis
      by (auto simp: lex_token_def c Let_def)
  next
    case sym
    then show ?thesis using lex_symbol_lexed [OF c, of ds] by (simp add: lex_token_def c)
  qed
qed

lemma lex_token_Some:
  assumes "lex_token lx ds = Some (lx', ds')"
  shows "lexed (lx_pos lx) lx ds lx' ds'" and "lx_pos lx < length (lx_src lx)"
proof -
  have "lx_peek lx \<noteq> None" using assms by (cases "lx_peek lx") (simp_all add: lex_token_def)
  then show lt: "lx_pos lx < length (lx_src lx)" by (auto simp: lx_peek_None)
  from lex_token_lexed [OF lt, of ds] assms show "lexed (lx_pos lx) lx ds lx' ds'" by auto
qed

subsection \<open>The main loop\<close>

function lex_run_loop :: "lexer \<Rightarrow> diagnostics \<Rightarrow> (lexer \<times> diagnostics) option" where
  "lex_run_loop lx diags =
     (let lx1 = skip_inline_ws_and_comments lx
      in case lx_peek lx1 of
           None \<Rightarrow> Some (lx1, diags)
         | Some c \<Rightarrow>
             if c = CHR 0x0A then lex_run_loop (maybe_insert_end (lx_bump lx1 1)) diags
             else case lex_token lx1 diags of
                    None \<Rightarrow> None
                  | Some (lx2, diags2) \<Rightarrow> lex_run_loop lx2 diags2)"
  by pat_completeness auto
termination
proof (relation "measure (\<lambda>(lx, ds). length (lx_src lx) - lx_pos lx)", goal_cases)
  case (2 lx ds x c)
  then show ?case using skip_ws_ge [of "lx_pos lx" "lx_src lx"]
    by (auto simp: lx_peek_Some)
next
  case (3 lx ds x c p lx2 ds2)
  then have "lex_token x ds = Some (lx2, ds2)" by simp
  note lt = lex_token_Some [OF this]
  show ?case
    using 3 lt skip_ws_ge [of "lx_pos lx" "lx_src lx"] by (auto simp: lexed_def lx_frame_def)
qed simp

declare lex_run_loop.simps [simp del]

definition lex_run :: "lexer \<Rightarrow> diagnostics \<Rightarrow> (lexer \<times> diagnostics) option" where
  "lex_run lx diags =
     (case lex_run_loop lx diags of
        None \<Rightarrow> None
      | Some (lx1, diags1) \<Rightarrow>
          (let lx2 = maybe_insert_end lx1
           in Some (lx2\<lparr>lx_tokens := lx_tokens lx2 @
                      [\<lparr>tk_kind = Tk_Eof, tk_span = lx_span lx2 (lx_pos lx2) (lx_pos lx2),
                        tk_radix = None\<rparr>]\<rparr>, diags1)))"

definition tokenize :: "nat \<Rightarrow> bytes \<Rightarrow> diagnostics \<Rightarrow> (token list \<times> diagnostics) option" where
  "tokenize file source diags =
     (case lex_run \<lparr>lx_file = file, lx_src = source, lx_pos = 0, lx_tokens = []\<rparr> diags of
        None \<Rightarrow> None
      | Some (lx, diags1) \<Rightarrow> Some (lx_tokens lx, diags1))"

end
