(* ===== verification/Lexer_Props.thy ===== *)
theory Lexer_Props
  imports Lexer "HOL-Library.Code_Target_Nat"
begin

section \<open>align\_lexer: properties\<close>

text \<open>
  The lexer never panics and always returns; its stream ends with exactly one \<open>Eof\<close>; the
  spans of the tokens are ordered and stay inside the source; when it reports nothing, the
  bytes between two tokens are only whitespace and comments, so no byte of a program is
  dropped; implicit terminators appear exactly where the newline rule puts them.
\<close>

declare One_nat_def [simp del]

subsection \<open>Trivia and tilings\<close>

text \<open>\<open>trivia s p q\<close>: the bytes from \<open>p\<close> to \<open>q\<close> are whitespace, newlines and line comments.\<close>

inductive trivia :: "bytes \<Rightarrow> nat \<Rightarrow> nat \<Rightarrow> bool" for s where
  trivia_refl: "trivia s p p"
| trivia_ws: "p < length s \<Longrightarrow> is_inline_ws (s ! p) \<or> is_newline (s ! p) \<Longrightarrow> trivia s (Suc p) q \<Longrightarrow>
    trivia s p q"
| trivia_comment: "p + 1 < length s \<Longrightarrow> s ! p = CHR ''/'' \<Longrightarrow> s ! (p + 1) = CHR ''/'' \<Longrightarrow>
    trivia s (eat_while (\<lambda>c. \<not> is_newline c) s p) q \<Longrightarrow> trivia s p q"

lemma trivia_trans: "trivia s p q \<Longrightarrow> trivia s q r \<Longrightarrow> trivia s p r"
  by (induction rule: trivia.induct) (auto intro: trivia.intros)

lemma trivia_skip_ws: "trivia s p (skip_ws s p)"
proof (induction s p rule: skip_ws.induct)
  case (1 s p)
  show ?case
    using 1 by (subst skip_ws.simps)
      (auto simp: get_at_Some_iff intro: trivia_refl trivia_ws trivia_comment)
qed

text \<open>\<open>tiled s p ps q\<close>: the stretch from \<open>p\<close> to \<open>q\<close> is the pieces \<open>ps\<close>, in order and none empty,
  with only trivia before, between and after them.\<close>

inductive tiled :: "bytes \<Rightarrow> nat \<Rightarrow> (nat \<times> nat) list \<Rightarrow> nat \<Rightarrow> bool" for s where
  tiled_Nil: "trivia s p q \<Longrightarrow> tiled s p [] q"
| tiled_Cons: "trivia s p lo \<Longrightarrow> lo < hi \<Longrightarrow> tiled s hi ps q \<Longrightarrow> tiled s p ((lo, hi) # ps) q"

lemma tiled_trivia: "tiled s p ps q \<Longrightarrow> trivia s q r \<Longrightarrow> tiled s p ps r"
  by (induction rule: tiled.induct) (auto intro: tiled.intros trivia_trans)

lemma tiled_snoc: "tiled s p ps q \<Longrightarrow> q < r \<Longrightarrow> tiled s p (ps @ [(q, r)]) r"
  by (induction rule: tiled.induct) (auto intro: tiled.intros trivia_refl)

text \<open>The tokens that stand for source text, and where they are.\<close>

definition is_real :: "token \<Rightarrow> bool" where
  "is_real t \<longleftrightarrow> tk_kind t \<noteq> Tk_End \<and> tk_kind t \<noteq> Tk_Eof"

definition extent :: "token \<Rightarrow> nat \<times> nat" where
  "extent t = (span_lo (tk_span t), span_hi (tk_span t))"

definition extents :: "token list \<Rightarrow> (nat \<times> nat) list" where
  "extents ts = map extent (filter is_real ts)"

lemma extents_append [simp]: "extents (ts @ us) = extents ts @ extents us"
  by (simp add: extents_def)

lemma extents_Nil [simp]: "extents [] = []"
  by (simp add: extents_def)

lemma extents_synthetic [simp]:
  "extents [\<lparr>tk_kind = Tk_End, tk_span = sp, tk_radix = r\<rparr>] = []"
  "extents [\<lparr>tk_kind = Tk_Eof, tk_span = sp, tk_radix = r\<rparr>] = []"
  by (simp_all add: extents_def is_real_def)

lemma extents_maybe_insert_end [simp]:
  "extents (lx_tokens (maybe_insert_end lx)) = extents (lx_tokens lx)"
  by (simp add: maybe_insert_end_def Let_def)

subsection \<open>Invariants of the main loop\<close>

text \<open>
  A rule for invariants of \<open>lex_run_loop\<close>: the three things a turn does are skipping trivia,
  passing a newline, and lexing one token.
\<close>

lemma lex_run_loop_invariant:
  assumes "lex_run_loop lx ds = Some (lx', ds')" and "I lx ds"
    and skip: "\<And>lx ds. I lx ds \<Longrightarrow> I (skip_inline_ws_and_comments lx) ds"
    and nl: "\<And>lx ds. I lx ds \<Longrightarrow> lx_peek lx = Some CHR 0x0A \<Longrightarrow> I (maybe_insert_end (lx_bump lx 1)) ds"
    and tok: "\<And>lx ds lx' ds'. I lx ds \<Longrightarrow> lx_pos lx < length (lx_src lx) \<Longrightarrow>
      lex_token lx ds = Some (lx', ds') \<Longrightarrow> lexed (lx_pos lx) lx ds lx' ds' \<Longrightarrow> I lx' ds'"
  shows "I lx' ds' \<and> lx_pos lx' \<ge> length (lx_src lx')"
  using assms(1,2)
proof (induction lx ds rule: lex_run_loop.induct)
  case (1 lx ds)
  let ?lx1 = "skip_inline_ws_and_comments lx"
  note eq = "1.prems"(1) [unfolded lex_run_loop.simps [of lx ds] Let_def]
  have I1: "I ?lx1 ds" using skip "1.prems"(2) by blast
  show ?case
  proof (cases "lx_peek ?lx1")
    case None
    with eq I1 show ?thesis by (auto simp: lx_peek_None)
  next
    case (Some c)
    show ?thesis
    proof (cases "c = CHR 0x0A")
      case True
      with Some eq nl I1 "1.IH"(1) [OF refl Some True] show ?thesis by simp
    next
      case False
      with eq Some obtain lx2 ds2 where t: "lex_token ?lx1 ds = Some (lx2, ds2)"
        by (auto split: option.splits)
      with eq Some False have "lex_run_loop lx2 ds2 = Some (lx', ds')" by simp
      with tok [OF I1 _ t] lex_token_Some [OF t] "1.IH"(2) [OF refl Some False t refl]
      show ?thesis by simp
    qed
  qed
qed

lemma lex_run_loop_total: "\<exists>lx' ds'. lex_run_loop lx ds = Some (lx', ds')"
proof (induction lx ds rule: lex_run_loop.induct)
  case (1 lx ds)
  let ?lx1 = "skip_inline_ws_and_comments lx"
  show ?case
  proof (cases "lx_peek ?lx1")
    case None
    then show ?thesis by (subst lex_run_loop.simps) (simp add: Let_def)
  next
    case (Some c)
    show ?thesis
    proof (cases "c = CHR 0x0A")
      case True
      with Some 1(1) [OF refl Some True] show ?thesis
        by (subst lex_run_loop.simps) (simp add: Let_def)
    next
      case False
      from Some have "lx_pos ?lx1 < length (lx_src ?lx1)" by (simp add: lx_peek_Some)
      from lex_token_lexed [OF this, of ds] obtain lx2 ds2 where
        t: "lex_token ?lx1 ds = Some (lx2, ds2)" by blast
      with Some False 1(2) [OF refl Some False t refl] show ?thesis
        by (subst lex_run_loop.simps) (simp add: Let_def)
    qed
  qed
qed

abbreviation lx_init :: "nat \<Rightarrow> bytes \<Rightarrow> lexer" where
  "lx_init f s \<equiv> \<lparr>lx_file = f, lx_src = s, lx_pos = 0, lx_tokens = []\<rparr>"

text \<open>What \<open>tokenize\<close> returns is the loop's tokens, a possible \<open>End\<close>, and \<open>Eof\<close>.\<close>

lemma tokenize_loop:
  assumes "tokenize f s ds = Some (toks, ds')"
  obtains lx where "lex_run_loop (lx_init f s) ds = Some (lx, ds')"
    and "toks = lx_tokens (maybe_insert_end lx) @
      [\<lparr>tk_kind = Tk_Eof, tk_span = lx_span lx (lx_pos lx) (lx_pos lx), tk_radix = None\<rparr>]"
  using assms
  by (auto simp: tokenize_def lex_run_def Let_def lx_span_def split: option.splits prod.splits)

lemma maybe_insert_end_cases:
  obtains "maybe_insert_end lx = lx"
  | "lx_tokens lx \<noteq> []" "can_end_stmt (tk_kind (last (lx_tokens lx)))"
    "\<not> continues_from (lx_src lx) (lx_pos lx)"
    "maybe_insert_end lx = lx\<lparr>lx_tokens := lx_tokens lx @
       [\<lparr>tk_kind = Tk_End, tk_span = lx_span lx (lx_pos lx) (lx_pos lx), tk_radix = None\<rparr>]\<rparr>"
proof (cases "lx_tokens lx \<noteq> [] \<and> can_end_stmt (tk_kind (last (lx_tokens lx))) \<and>
    \<not> continues_from (lx_src lx) (lx_pos lx)")
  case True
  then show thesis
    by (intro that(2)) (simp_all add: maybe_insert_end_def next_significant_continues_line_def)
next
  case False
  then have "maybe_insert_end lx = lx"
    by (auto simp: maybe_insert_end_def next_significant_continues_line_def Let_def)
  then show thesis by (rule that(1))
qed

definition no_eof :: "token list \<Rightarrow> bool" where
  "no_eof ts \<longleftrightarrow> (\<forall>t\<in>set ts. tk_kind t \<noteq> Tk_Eof)"

lemma no_eof_Nil [simp]: "no_eof []"
  by (simp add: no_eof_def)

lemma no_eof_insert_end [simp]: "no_eof (lx_tokens (maybe_insert_end lx)) = no_eof (lx_tokens lx)"
  by (rule maybe_insert_end_cases [of lx]) (auto simp: no_eof_def)

text \<open>The position, source and file the loop keeps, and that it stops at the end.\<close>

lemma lex_run_loop_frame:
  assumes "lex_run_loop (lx_init f s) ds = Some (lx, ds')"
  shows "lx_file lx = f \<and> lx_src lx = s \<and> lx_pos lx = length s \<and> no_eof (lx_tokens lx) \<and>
    errs_only ds ds'"
proof -
  let ?I = "\<lambda>lx d. lx_file lx = f \<and> lx_src lx = s \<and> lx_pos lx \<le> length s \<and>
    no_eof (lx_tokens lx) \<and> errs_only ds d"
  have "?I lx ds' \<and> lx_pos lx \<ge> length (lx_src lx)"
  proof (rule lex_run_loop_invariant [OF assms, where I = ?I], goal_cases)
    case (4 lx ds lx' ds')
    then show ?case
      by (auto simp: lexed_def lx_frame_def no_eof_def errs_only_def)
  qed (auto simp: skip_ws_le lx_peek_Some)
  then show ?thesis by auto
qed

subsection \<open>Tilings\<close>

lemma lexed_silent:
  assumes "lexed (lx_pos lx) lx ds lx' ds"
  shows "\<exists>t. lx_tokens lx' = lx_tokens lx @ [t] \<and> is_real t \<and>
    tk_span t = lx_span lx (lx_pos lx) (lx_pos lx') \<and> lx_pos lx < lx_pos lx'"
  using assms by (auto simp: lexed_def is_real_def)

lemma lex_run_loop_tiled:
  assumes "lex_run_loop (lx_init f s) ds = Some (lx, ds)" and small: "length s < 2 ^ 32"
  shows "tiled s 0 (extents (lx_tokens lx)) (length s)"
proof -
  let ?I = "\<lambda>lx d. lx_src lx = s \<and> lx_pos lx \<le> length s \<and> length ds \<le> length d \<and>
    (d = ds \<longrightarrow> tiled s 0 (extents (lx_tokens lx)) (lx_pos lx))"
  have "?I lx ds \<and> lx_pos lx \<ge> length (lx_src lx)"
  proof (rule lex_run_loop_invariant [OF assms(1), where I = ?I], goal_cases)
    case 1
    show ?case by (auto intro: tiled_Nil trivia_refl)
  next
    case (2 lx d)
    then show ?case by (auto simp: skip_ws_le intro: tiled_trivia trivia_skip_ws)
  next
    case (3 lx d)
    then have "trivia s (lx_pos lx) (lx_pos lx + 1)"
      using trivia_ws [OF _ _ trivia_refl [of s "Suc (lx_pos lx)"]]
      by (simp add: lx_peek_Some is_newline_def Suc_eq_plus1 [symmetric] del: Suc_eq_plus1)
    with 3 show ?case by (auto simp: lx_peek_Some intro: tiled_trivia)
  next
    case (4 lx d lx' d')
    then have len: "length d \<le> length d'" and fr: "lx_frame lx lx'"
      by (auto simp: lexed_def)
    have "tiled s 0 (extents (lx_tokens lx')) (lx_pos lx')" if "d' = ds"
    proof -
      from that 4(1,4) len have "d = ds" by (auto simp: lexed_def)
      with 4 that obtain t where t: "lx_tokens lx' = lx_tokens lx @ [t]" "is_real t"
        "tk_span t = lx_span lx (lx_pos lx) (lx_pos lx')" "lx_pos lx < lx_pos lx'"
        using lexed_silent by blast
      moreover have "lx_pos lx' \<le> length s" using fr 4(1) by (auto simp: lx_frame_def)
      ultimately have "extent t = (lx_pos lx, lx_pos lx')"
        using small by (simp add: extent_def lx_span_def)
      with t 4(1) \<open>d = ds\<close> show ?thesis
        using tiled_snoc by (simp add: extents_def)
    qed
    with 4 fr len show ?case by (auto simp: lx_frame_def)
  qed
  then show ?thesis
    using lex_run_loop_frame [OF assms(1)] by simp
qed

subsection \<open>Order of spans\<close>

text \<open>Tokens in order: each starts where the previous one ends, or later.\<close>

fun ordered :: "nat \<Rightarrow> token list \<Rightarrow> nat \<Rightarrow> bool" where
  "ordered p [] q \<longleftrightarrow> p \<le> q"
| "ordered p (t # ts) q \<longleftrightarrow> p \<le> span_lo (tk_span t) \<and> span_lo (tk_span t) \<le> span_hi (tk_span t) \<and>
     ordered (span_hi (tk_span t)) ts q"

lemma ordered_append: "ordered p (ts @ us) q \<longleftrightarrow> (\<exists>m. ordered p ts m \<and> ordered m us q)"
proof (induction ts arbitrary: p)
  case Nil
  have "ordered p us q \<Longrightarrow> ordered p [] p \<and> ordered p us q" by simp
  moreover have "p \<le> m \<Longrightarrow> ordered m us q \<Longrightarrow> ordered p us q" for m
    by (cases us) auto
  ultimately show ?case by auto
qed auto

lemma ordered_weaken: "ordered p ts q \<Longrightarrow> q \<le> r \<Longrightarrow> ordered p ts r"
  by (induction ts arbitrary: p) auto

lemma ordered_snoc:
  "ordered p ts q \<Longrightarrow> q \<le> span_lo (tk_span t) \<Longrightarrow> span_lo (tk_span t) \<le> span_hi (tk_span t) \<Longrightarrow>
   span_hi (tk_span t) \<le> r \<Longrightarrow> ordered p (ts @ [t]) r"
  by (auto simp: ordered_append)

lemma ordered_insert_end:
  assumes "ordered p (lx_tokens lx) (lx_pos lx)" "lx_pos lx < 2 ^ 32"
  shows "ordered p (lx_tokens (maybe_insert_end lx)) (lx_pos lx)"
  using assms
  by (cases rule: maybe_insert_end_cases [of lx]) (auto simp: lx_span_def intro!: ordered_snoc)

lemma lex_run_loop_ordered:
  assumes "lex_run_loop (lx_init f s) ds = Some (lx, ds')" and small: "length s < 2 ^ 32"
  shows "ordered 0 (lx_tokens lx) (length s) \<and> (\<forall>t\<in>set (lx_tokens lx). span_file (tk_span t) = f)"
proof -
  let ?I = "\<lambda>lx d. lx_file lx = f \<and> lx_src lx = s \<and> lx_pos lx \<le> length s \<and>
    ordered 0 (lx_tokens lx) (lx_pos lx) \<and> (\<forall>t\<in>set (lx_tokens lx). span_file (tk_span t) = f)"
  have "?I lx ds' \<and> lx_pos lx \<ge> length (lx_src lx)"
  proof (rule lex_run_loop_invariant [OF assms(1), where I = ?I], goal_cases)
    case (2 lx d)
    then show ?case by (auto simp: skip_ws_le intro: ordered_weaken skip_ws_ge)
  next
    case (3 lx d)
    let ?l = "lx_bump lx 1"
    have "ordered 0 (lx_tokens ?l) (lx_pos ?l)" "lx_pos ?l < 2 ^ 32"
      using 3 small by (auto simp: lx_peek_Some intro: ordered_weaken)
    from ordered_insert_end [OF this]
    have "ordered 0 (lx_tokens (maybe_insert_end ?l)) (lx_pos ?l)" .
    moreover have "\<forall>t\<in>set (lx_tokens (maybe_insert_end ?l)). span_file (tk_span t) = f"
      using 3 by (cases rule: maybe_insert_end_cases [of ?l]) (auto simp: lx_span_def)
    ultimately show ?case using 3 by (simp add: lx_peek_Some)
  next
    case (4 lx d lx' d')
    then have fr: "lx_frame lx lx'" "lx_pos lx < lx_pos lx'" by (auto simp: lexed_def)
    then have le: "lx_pos lx' \<le> length s" using 4(1) by (auto simp: lx_frame_def)
    from 4(4) consider "lx_tokens lx' = lx_tokens lx" |
      t hi where "lx_tokens lx' = lx_tokens lx @ [t]" "lx_pos lx < hi" "hi \<le> lx_pos lx'"
        "tk_span t = lx_span lx (lx_pos lx) hi" by (auto simp: lexed_def)
    then have "ordered 0 (lx_tokens lx') (lx_pos lx') \<and>
      (\<forall>t\<in>set (lx_tokens lx'). span_file (tk_span t) = f)"
      using 4(1) le small fr
      by cases (auto simp: lx_span_def intro: ordered_weaken intro!: ordered_snoc)
    with 4(1) fr le show ?case by (simp add: lx_frame_def)
  qed simp
  then show ?thesis using lex_run_loop_frame [OF assms(1)] by simp
qed

subsection \<open>Implicit terminators\<close>

text \<open>
  The rule for two adjacent tokens: an \<open>End\<close> stands after a token that can end a statement, at
  a position right after a newline or at the end of the file, where the next line does not
  continue the statement; and if a token that can end a statement is followed by another
  token, every line break between the two continues the line.
\<close>

definition breaks_continue :: "bytes \<Rightarrow> nat \<Rightarrow> nat \<Rightarrow> bool" where
  "breaks_continue s i j \<longleftrightarrow>
     (\<forall>k. i \<le> k \<and> k < j \<and> k < length s \<and> is_newline (s ! k) \<longrightarrow> continues_from s (k + 1))"

definition end_rule :: "bytes \<Rightarrow> token \<Rightarrow> token \<Rightarrow> bool" where
  "end_rule s t u \<longleftrightarrow>
     (tk_kind u = Tk_End \<longrightarrow> can_end_stmt (tk_kind t) \<and>
        (let p = span_lo (tk_span u)
         in (p = length s \<or> 0 < p \<and> is_newline (s ! (p - 1))) \<and> \<not> continues_from s p)) \<and>
     (can_end_stmt (tk_kind t) \<and> is_real u \<longrightarrow>
        breaks_continue s (span_hi (tk_span t)) (span_lo (tk_span u)))"

fun end_rules :: "bytes \<Rightarrow> token list \<Rightarrow> bool" where
  "end_rules s (t # u # ts) \<longleftrightarrow> end_rule s t u \<and> end_rules s (u # ts)"
| "end_rules s ts \<longleftrightarrow> True"

lemma end_rules_snoc:
  "end_rules s (ts @ [t]) \<longleftrightarrow> end_rules s ts \<and> (ts \<noteq> [] \<longrightarrow> end_rule s (last ts) t)"
  by (induction s ts rule: end_rules.induct) auto

lemma skip_ws_no_newline:
  "p \<le> k \<Longrightarrow> k < skip_ws s p \<Longrightarrow> \<not> is_newline (s ! k)"
proof (induction s p rule: skip_ws.induct)
  case (1 s p)
  consider (ws) "p < length s" "is_inline_ws (s ! p)"
    | (comment) "p < length s" "\<not> is_inline_ws (s ! p)" "s ! p = CHR ''/''"
        "get_at s (p + 1) = Some CHR ''/''"
    | (stop) "skip_ws s p = p"
    by (metis skip_ws.simps)
  then show ?case
  proof cases
    case ws
    then have "skip_ws s p = skip_ws s (Suc p)" by (subst skip_ws.simps) simp
    moreover have "\<not> is_newline (s ! p)" using ws by (auto simp: is_inline_ws_def is_newline_def)
    ultimately show ?thesis using 1 ws by (cases "k = p") auto
  next
    case comment
    then have "skip_ws s p = skip_ws s (eat_while (\<lambda>c. \<not> is_newline c) s p)"
      by (subst skip_ws.simps) simp
    moreover have "\<not> is_newline (s ! k)" if "k < eat_while (\<lambda>c. \<not> is_newline c) s p"
      using eat_while_all [OF "1.prems"(1) that] .
    ultimately show ?thesis
      using 1 comment by (cases "k < eat_while (\<lambda>c. \<not> is_newline c) s p") auto
  next
    case stop
    with 1 show ?thesis by simp
  qed
qed

lemma breaks_continue_refl [simp]: "breaks_continue s i i"
  by (auto simp: breaks_continue_def)

lemma breaks_continue_skip:
  "breaks_continue s i p \<Longrightarrow> breaks_continue s i (skip_ws s p)"
  unfolding breaks_continue_def by (meson not_le skip_ws_no_newline)

lemma breaks_continue_step:
  assumes "breaks_continue s i p" "is_newline (s ! p) \<Longrightarrow> continues_from s (p + 1)"
  shows "breaks_continue s i (p + 1)"
  using assms by (auto simp: breaks_continue_def less_Suc_eq Suc_eq_plus1 [symmetric] simp del: Suc_eq_plus1)

text \<open>The invariant: the rule holds so far, and since the last token no line has ended.\<close>

definition end_inv :: "bytes \<Rightarrow> token list \<Rightarrow> nat \<Rightarrow> bool" where
  "end_inv s ts p \<longleftrightarrow> end_rules s ts \<and>
     (ts \<noteq> [] \<and> can_end_stmt (tk_kind (last ts)) \<longrightarrow>
        breaks_continue s (span_hi (tk_span (last ts))) p)"

lemma end_inv_insert_end:
  assumes "end_inv s (lx_tokens lx) p" "lx_src lx = s" "lx_pos lx < 2 ^ 32"
    and "lx_pos lx = p + 1 \<and> p < length s \<and> is_newline (s ! p) \<or> lx_pos lx = p \<and> p = length s"
  shows "end_inv s (lx_tokens (maybe_insert_end lx)) (lx_pos lx)"
proof (cases "lx_tokens lx \<noteq> [] \<and> can_end_stmt (tk_kind (last (lx_tokens lx))) \<and>
    \<not> continues_from (lx_src lx) (lx_pos lx)")
  case True
  then have "maybe_insert_end lx = lx\<lparr>lx_tokens := lx_tokens lx @
       [\<lparr>tk_kind = Tk_End, tk_span = lx_span lx (lx_pos lx) (lx_pos lx), tk_radix = None\<rparr>]\<rparr>"
    by (simp add: maybe_insert_end_def next_significant_continues_line_def)
  with True assms show ?thesis
    by (auto simp: end_inv_def end_rules_snoc end_rule_def is_real_def lx_span_def)
next
  case False
  then have "maybe_insert_end lx = lx"
    by (auto simp: maybe_insert_end_def next_significant_continues_line_def Let_def)
  with False assms show ?thesis
    by (auto simp: end_inv_def intro: breaks_continue_step)
qed

lemma lex_run_loop_end_inv:
  assumes "lex_run_loop (lx_init f s) ds = Some (lx, ds)" and small: "length s < 2 ^ 32"
  shows "end_inv s (lx_tokens lx) (length s)"
proof -
  let ?I = "\<lambda>lx d. lx_src lx = s \<and> lx_pos lx \<le> length s \<and> length ds \<le> length d \<and>
    (d = ds \<longrightarrow> end_inv s (lx_tokens lx) (lx_pos lx))"
  have "?I lx ds \<and> lx_pos lx \<ge> length (lx_src lx)"
  proof (rule lex_run_loop_invariant [OF assms(1), where I = ?I], goal_cases)
    case 1
    show ?case by (auto simp: end_inv_def)
  next
    case (2 lx d)
    then show ?case by (auto simp: skip_ws_le end_inv_def intro: breaks_continue_skip)
  next
    case (3 lx d)
    have "end_inv s (lx_tokens (maybe_insert_end (lx_bump lx 1))) (lx_pos (lx_bump lx 1))" if "d = ds"
      using 3 that small
      by (intro end_inv_insert_end [where p = "lx_pos lx"]) (auto simp: lx_peek_Some is_newline_def)
    with 3 show ?case by (auto simp: lx_peek_Some)
  next
    case (4 lx d lx' d')
    then have len: "length d \<le> length d'" and fr: "lx_frame lx lx'" by (auto simp: lexed_def)
    have "end_inv s (lx_tokens lx') (lx_pos lx')" if "d' = ds"
    proof -
      from that 4(1,4) len have "d = ds" by (auto simp: lexed_def)
      with 4 that obtain t where "lx_tokens lx' = lx_tokens lx @ [t]" "is_real t"
        "tk_span t = lx_span lx (lx_pos lx) (lx_pos lx')" using lexed_silent by blast
      moreover have "lx_pos lx' \<le> length s" using fr 4(1) by (auto simp: lx_frame_def)
      ultimately show ?thesis
        using 4(1) \<open>d = ds\<close> small fr
        by (auto simp: end_inv_def end_rules_snoc end_rule_def is_real_def lx_span_def lx_frame_def)
    qed
    with 4 fr len show ?case by (auto simp: lx_frame_def)
  qed
  then show ?thesis using lex_run_loop_frame [OF assms(1)] by simp
qed

text \<open>A small program with a comment and a continued line, for the witnesses.\<close>

definition example_source :: bytes where
  "example_source = ''a // c'' @ [CHR 0x0A] @ ''.b'' @ [CHR 0x0A] @ ''c''"

definition example_tokens :: "token list" where
  "example_tokens =
     [\<lparr>tk_kind = Tk_Ident ''a'', tk_span = span_new 0 0 1, tk_radix = None\<rparr>,
      \<lparr>tk_kind = Tk_Dot, tk_span = span_new 0 7 8, tk_radix = None\<rparr>,
      \<lparr>tk_kind = Tk_Ident ''b'', tk_span = span_new 0 8 9, tk_radix = None\<rparr>,
      \<lparr>tk_kind = Tk_End, tk_span = span_new 0 10 10, tk_radix = None\<rparr>,
      \<lparr>tk_kind = Tk_Ident ''c'', tk_span = span_new 0 10 11, tk_radix = None\<rparr>,
      \<lparr>tk_kind = Tk_End, tk_span = span_new 0 11 11, tk_radix = None\<rparr>,
      \<lparr>tk_kind = Tk_Eof, tk_span = span_new 0 11 11, tk_radix = None\<rparr>]"

lemma tokenize_example: "tokenize 0 example_source [] = Some (example_tokens, [])"
  by code_simp

lemma example_small: "length example_source = 11"
  by (simp add: example_source_def)

subsection \<open>Properties\<close>

text \<open>
  C26. \<open>tokenize\<close> returns on every input, without a panic. The stream ends with \<open>Eof\<close> at the
  end of the source, \<open>Eof\<close> occurs nowhere else, and the diagnostics are extended by errors
  only.
\<close>

theorem tokenize_total:
  "\<exists>ts es. tokenize f s ds = Some (ts @ [\<lparr>tk_kind = Tk_Eof,
       tk_span = span_new f (u32_cast (length s)) (u32_cast (length s)), tk_radix = None\<rparr>], ds @ es) \<and>
     (\<forall>t\<in>set ts. tk_kind t \<noteq> Tk_Eof) \<and> (\<forall>e\<in>set es. severity_of e = Error)"
proof -
  obtain lx ds' where r: "lex_run_loop (lx_init f s) ds = Some (lx, ds')"
    using lex_run_loop_total by blast
  note fr = lex_run_loop_frame [OF r]
  have "no_eof (lx_tokens (maybe_insert_end lx))" using fr by simp
  moreover obtain es where "ds' = ds @ es" "\<forall>e\<in>set es. severity_of e = Error"
    using fr by (auto simp: errs_only_def)
  ultimately show ?thesis
    using r fr by (auto simp: tokenize_def lex_run_def Let_def lx_span_def no_eof_def)
qed

theorem tokenize_total_witness:
  "\<exists>ts. tokenize 0 example_source [] = Some (ts @ [\<lparr>tk_kind = Tk_Eof, tk_span = span_new 0 11 11,
     tk_radix = None\<rparr>], []) \<and> (\<forall>t\<in>set ts. tk_kind t \<noteq> Tk_Eof)"
  using tokenize_total [of 0 example_source "[]"] tokenize_example
  by (auto simp: example_small)

text \<open>
  C27. On a source shorter than \<open>2 ^ 32\<close> bytes, the tokens carry the file's id and are in order:
  each starts at or after the end of the one before it, and all lie inside the source. This
  holds also when errors were reported.
\<close>

theorem tokenize_ordered:
  assumes "tokenize f s ds = Some (toks, ds')" and "length s < 2 ^ 32"
  shows "ordered 0 toks (length s) \<and> (\<forall>t\<in>set toks. span_file (tk_span t) = f)"
proof -
  obtain lx where r: "lex_run_loop (lx_init f s) ds = Some (lx, ds')" and
    toks: "toks = lx_tokens (maybe_insert_end lx) @
      [\<lparr>tk_kind = Tk_Eof, tk_span = lx_span lx (lx_pos lx) (lx_pos lx), tk_radix = None\<rparr>]"
    using assms(1) by (rule tokenize_loop)
  note fr = lex_run_loop_frame [OF r]
  have "ordered 0 (lx_tokens (maybe_insert_end lx)) (length s)"
    using ordered_insert_end [of 0 lx] lex_run_loop_ordered [OF r assms(2)] fr assms(2) by simp
  moreover have "\<forall>t\<in>set (lx_tokens (maybe_insert_end lx)). span_file (tk_span t) = f"
    using lex_run_loop_ordered [OF r assms(2)] fr
    by (cases rule: maybe_insert_end_cases [of lx]) (auto simp: lx_span_def)
  ultimately show ?thesis
    using toks fr assms(2) by (auto simp: lx_span_def intro!: ordered_snoc)
qed

theorem tokenize_ordered_witness:
  "ordered 0 example_tokens 11 \<and> tokenize 0 example_source [] = Some (example_tokens, [])"
  using tokenize_ordered [OF tokenize_example] tokenize_example by (simp add: example_small)

text \<open>
  C9. When \<open>tokenize\<close> reports nothing, the source is the tokens' extents, none empty, with only
  whitespace, newlines and line comments before, between and after them: no byte of the
  program is dropped and none is read twice.
\<close>

theorem tokenize_tiles:
  assumes "tokenize f s ds = Some (toks, ds)" and "length s < 2 ^ 32"
  shows "tiled s 0 (extents toks) (length s)"
proof -
  obtain lx where r: "lex_run_loop (lx_init f s) ds = Some (lx, ds)" and
    toks: "toks = lx_tokens (maybe_insert_end lx) @
      [\<lparr>tk_kind = Tk_Eof, tk_span = lx_span lx (lx_pos lx) (lx_pos lx), tk_radix = None\<rparr>]"
    using assms(1) by (rule tokenize_loop)
  from lex_run_loop_tiled [OF r assms(2)] toks show ?thesis by simp
qed

theorem tokenize_tiles_witness:
  "tiled example_source 0 [(0, 1), (7, 8), (8, 9), (10, 11)] 11"
  using tokenize_tiles [OF tokenize_example]
  by (simp add: example_small example_tokens_def extents_def is_real_def extent_def)

text \<open>
  C10. When \<open>tokenize\<close> reports nothing, implicit terminators follow the newline rule: an \<open>End\<close>
  stands only after a token that can end a statement, right after a newline or at the end of
  the file, and only if the next line does not continue the statement; and two adjacent
  tokens, the first of which can end a statement, are separated only by line breaks that
  continue the line.
\<close>

theorem tokenize_terminators:
  assumes "tokenize f s ds = Some (toks, ds)" and "length s < 2 ^ 32"
  shows "end_rules s toks"
proof -
  obtain lx where r: "lex_run_loop (lx_init f s) ds = Some (lx, ds)" and
    toks: "toks = lx_tokens (maybe_insert_end lx) @
      [\<lparr>tk_kind = Tk_Eof, tk_span = lx_span lx (lx_pos lx) (lx_pos lx), tk_radix = None\<rparr>]"
    using assms(1) by (rule tokenize_loop)
  note fr = lex_run_loop_frame [OF r]
  have "end_inv s (lx_tokens (maybe_insert_end lx)) (lx_pos lx)"
    using lex_run_loop_end_inv [OF r assms(2)] fr assms(2)
    by (intro end_inv_insert_end [where p = "length s"]) simp_all
  then show ?thesis
    using toks by (simp add: end_inv_def end_rules_snoc end_rule_def is_real_def)
qed

theorem tokenize_terminators_witness:
  "end_rules example_source example_tokens"
  using tokenize_terminators [OF tokenize_example] by (simp add: example_small)

end
