(* ===== verification/Decoded_Runs.thy ===== *)
theory Decoded_Runs
  imports Lexer_Props
begin

section \<open>align\_lexer: mapping decoded strings back to source\<close>

text \<open>
  \<open>decoded_string_runs\<close> decodes a string literal a second time, from its span, and records
  which source bytes each decoded run came from. The property is that this second decoder
  agrees with the lexer on every string token and that its runs tile the literal.
\<close>

declare One_nat_def [simp del]

subsection \<open>The model\<close>

record decoded_string_run =
  dr_decoded_start :: nat
  dr_decoded_end :: nat
  dr_source_start :: nat
  dr_source_end :: nat

text \<open>\<open>str::get(a..b)\<close>: both ends must be character boundaries.\<close>

definition is_char_boundary :: "bytes \<Rightarrow> nat \<Rightarrow> bool" where
  "is_char_boundary s i \<longleftrightarrow> i = 0 \<or> i = length s \<or> i < length s \<and> \<not> is_cont (s ! i)"

definition str_get :: "bytes \<Rightarrow> nat \<Rightarrow> nat \<Rightarrow> bytes option" where
  "str_get s a b =
     (if a \<le> b \<and> b \<le> length s \<and> is_char_boundary s a \<and> is_char_boundary s b
      then Some (take (b - a) (drop a s)) else None)"

definition u32_try_from :: "nat \<Rightarrow> nat option" where
  "u32_try_from n = (if n < 2 ^ 32 then Some n else None)"

definition u32_checked_add :: "nat \<Rightarrow> nat \<Rightarrow> nat option" where
  "u32_checked_add a b = u32_try_from (a + b)"

text \<open>One scalar of a run of ordinary text.\<close>

definition plain_scalar :: "bytes \<Rightarrow> nat \<Rightarrow> nat \<Rightarrow> nat \<Rightarrow> (nat \<times> bytes) option" where
  "plain_scalar source start content_end index =
     (case str_get source (start + index) (start + content_end) of
        None \<Rightarrow> None
      | Some rest \<Rightarrow>
          (case decode_first rest of
             None \<Rightarrow> None
           | Some (c, _) \<Rightarrow>
               (let width = len_utf8 c
                in if content_end < index + width then None
                   else map_option (Pair width)
                          (str_get source (start + index) (start + index + width)))))"

lemma plain_scalar_pos: "plain_scalar source start ce index = Some (w, piece) \<Longrightarrow> 0 < w"
  by (auto simp: plain_scalar_def Let_def split: option.splits if_splits)

function plain_run ::
  "bytes \<Rightarrow> bytes \<Rightarrow> nat \<Rightarrow> nat \<Rightarrow> nat \<Rightarrow> bytes \<Rightarrow> (nat \<times> bytes) option" where
  "plain_run source literal start ce index decoded =
     (if index < ce \<and> literal ! index \<noteq> CHR 0x5C then
        (case plain_scalar source start ce index of
           None \<Rightarrow> None
         | Some (w, piece) \<Rightarrow> plain_run source literal start ce (index + w) (decoded @ piece))
      else Some (index, decoded))"
  by pat_completeness auto
termination
  by (relation "measure (\<lambda>(source, literal, start, ce, index, decoded). ce - index)")
    (auto dest: plain_scalar_pos)

declare plain_run.simps [simp del]

text \<open>The simple escapes of the second decoder.\<close>

definition run_escape :: "byte \<Rightarrow> scalar option" where
  "run_escape escaped =
     (if escaped = CHR ''n'' then Some 10
      else if escaped = CHR ''t'' then Some 9
      else if escaped = CHR ''r'' then Some 13
      else if escaped = CHR ''0'' then Some 0
      else if escaped = CHR 0x5C then Some 92
      else if escaped = CHR 0x22 then Some 34
      else if escaped = CHR 0x27 then Some 39
      else None)"

text \<open>An escape whose backslash is before \<open>q\<close>: its scalar and the position after it.\<close>

definition unicode_in :: "bytes \<Rightarrow> nat \<Rightarrow> nat \<Rightarrow> (scalar \<times> nat) option" where
  "unicode_in s lim q =
     (if get_at s q \<noteq> Some CHR ''{'' then None
      else
        (let digits_start = q + 1; index = eat_while is_hexdigit (take lim s) digits_start
         in if index = digits_start \<or> 6 < index - digits_start \<or> get_at s index \<noteq> Some CHR ''}''
            then None
            else case u32_from_str_radix (take (index - digits_start) (drop digits_start s)) 16 of
                   None \<Rightarrow> None
                 | Some v \<Rightarrow> map_option (\<lambda>ch. (ch, index + 1)) (char_from_u32 v)))"

definition escape_in :: "bytes \<Rightarrow> nat \<Rightarrow> nat \<Rightarrow> (scalar \<times> nat) option" where
  "escape_in s lim q =
     (case get_at s q of
        None \<Rightarrow> None
      | Some e \<Rightarrow>
          (case run_escape e of
             Some ch \<Rightarrow> Some (ch, q + 1)
           | None \<Rightarrow> if e = CHR ''u'' then unicode_in s lim (q + 1) else None))"

text \<open>One turn of the outer loop: a whole run of text, or one escape.\<close>

definition run_turn ::
  "bytes \<Rightarrow> bytes \<Rightarrow> nat \<Rightarrow> nat \<Rightarrow> nat \<Rightarrow> bytes \<Rightarrow> (nat \<times> bytes) option" where
  "run_turn source literal start ce index decoded =
     (if literal ! index \<noteq> CHR 0x5C then plain_run source literal start ce index decoded
      else case escape_in literal ce (index + 1) of
             None \<Rightarrow> None
           | Some (c, index') \<Rightarrow> Some (index', decoded @ encode_utf8 c))"

definition make_run :: "nat \<Rightarrow> nat \<Rightarrow> nat \<Rightarrow> nat \<Rightarrow> nat \<Rightarrow> decoded_string_run option" where
  "make_run lo decoded_start decoded_end source_start index =
     do {
       a \<leftarrow> u32_try_from decoded_start;
       b \<leftarrow> u32_try_from decoded_end;
       c0 \<leftarrow> u32_try_from source_start;
       c \<leftarrow> u32_checked_add lo c0;
       d0 \<leftarrow> u32_try_from index;
       d \<leftarrow> u32_checked_add lo d0;
       Some \<lparr>dr_decoded_start = a, dr_decoded_end = b, dr_source_start = c, dr_source_end = d\<rparr>
     }"

lemma plain_run_ge:
  "plain_run source literal start ce index decoded = Some (index', decoded') \<Longrightarrow> index \<le> index'"
proof (induction source literal start ce index decoded rule: plain_run.induct)
  case (1 source literal start ce index decoded)
  show ?case
  proof (cases "index < ce \<and> literal ! index \<noteq> CHR 0x5C")
    case True
    with "1.prems" obtain w piece where "plain_scalar source start ce index = Some (w, piece)"
      and "plain_run source literal start ce (index + w) (decoded @ piece) = Some (index', decoded')"
      by (subst (asm) plain_run.simps) (auto split: option.splits)
    with True "1.IH" show ?thesis by force
  next
    case False
    with "1.prems" show ?thesis by (subst (asm) plain_run.simps) auto
  qed
qed

lemma plain_run_gt:
  assumes "plain_run source literal start ce index decoded = Some (index', decoded')"
    and "index < ce" "literal ! index \<noteq> CHR 0x5C"
  shows "index < index'"
proof -
  obtain w piece where "plain_scalar source start ce index = Some (w, piece)"
    and "plain_run source literal start ce (index + w) (decoded @ piece) = Some (index', decoded')"
    using assms by (subst (asm) plain_run.simps) (auto split: option.splits)
  then show ?thesis using plain_scalar_pos plain_run_ge by fastforce
qed

lemma escape_in_gt: "escape_in s lim q = Some (c, q') \<Longrightarrow> q < q'"
  using eat_while_ge [of "q + 1 + 1" is_hexdigit "take lim s"]
  by (auto simp: escape_in_def unicode_in_def Let_def split: option.splits if_splits)

lemma run_turn_gt:
  assumes "run_turn source literal start ce index decoded = Some (index', decoded')" "index < ce"
  shows "index < index'"
  using assms
  by (auto simp: run_turn_def split: if_splits option.splits dest: plain_run_gt escape_in_gt)

function runs_loop ::
  "bytes \<Rightarrow> bytes \<Rightarrow> nat \<Rightarrow> nat \<Rightarrow> nat \<Rightarrow> nat \<Rightarrow> bytes \<Rightarrow> decoded_string_run list \<Rightarrow>
   (bytes \<times> decoded_string_run list) option" where
  "runs_loop source literal lo start ce index decoded runs =
     (if index < ce then
        (case run_turn source literal start ce index decoded of
           None \<Rightarrow> None
         | Some (index', decoded') \<Rightarrow>
             (case make_run lo (length decoded) (length decoded') index index' of
                None \<Rightarrow> None
              | Some r \<Rightarrow> runs_loop source literal lo start ce index' decoded' (runs @ [r])))
      else Some (decoded, runs))"
  by pat_completeness auto
termination
  by (relation "measure (\<lambda>(source, literal, lo, start, ce, index, decoded, runs). ce - index)")
    (auto dest: run_turn_gt)

declare runs_loop.simps [simp del]

definition decoded_string_runs ::
  "bytes \<Rightarrow> span \<Rightarrow> (bytes \<times> decoded_string_run list) option" where
  "decoded_string_runs source sp =
     (case slice_range source (span_lo sp) (span_hi sp) of
        None \<Rightarrow> None
      | Some literal \<Rightarrow>
          if length literal < 2 \<or> hd literal \<noteq> CHR 0x22 \<or> last literal \<noteq> CHR 0x22 then None
          else runs_loop source literal (span_lo sp) (span_lo sp) (length literal - 1) 1 [] [])"

subsection \<open>Positions in valid UTF-8\<close>

lemma and_high:
  fixes v :: nat
  assumes "v < 256" "k \<le> 8"
  shows "and v (256 - 2 ^ k) = v div 2 ^ k * 2 ^ k"
proof (rule bit_eqI)
  fix n
  show "bit (and v (256 - 2 ^ k)) n = bit (v div 2 ^ k * 2 ^ k) n"
  proof -
    have m: "(256 - 2 ^ k :: nat) = push_bit k (mask (8 - k))"
      using assms(2)
      by (simp add: push_bit_eq_mult mask_eq_exp_minus_1 diff_mult_distrib power_add [symmetric])
    have "n < 8" if "bit v n"
    proof (rule ccontr)
      assume "\<not> n < 8"
      then have "v < 2 ^ n" using assms(1) power_increasing [of 8 n "2::nat"] by auto
      then have "\<not> bit v n" by (simp add: bit_iff_odd)
      with that show False by simp
    qed
    then show ?thesis
      unfolding m
      by (auto simp: bit_simps drop_bit_eq_div [symmetric] push_bit_eq_mult [symmetric])
  qed
qed

lemma div_block:
  fixes v :: nat
  assumes "0 < k"
  shows "v div k * k = q * k \<longleftrightarrow> q * k \<le> v \<and> v < q * k + k"
proof -
  have "v div k = q \<longleftrightarrow> q * k \<le> v \<and> v < q * k + k"
    using div_nat_eqI [of k q v] div_times_less_eq_dividend [of v k]
      dividend_less_div_times [of k v] assms
    by (auto simp: mult.commute add.commute)
  with assms show ?thesis by simp
qed

lemma char_len_eq:
  "char_len c = (if val c < 128 then 1 else if 192 \<le> val c \<and> val c < 224 then 2
     else if 224 \<le> val c \<and> val c < 240 then 3 else if 240 \<le> val c \<and> val c < 248 then 4 else 1)"
proof -
  have "and (val c) 0x80 = val c div 128 * 128" "and (val c) 0xE0 = val c div 32 * 32"
    "and (val c) 0xF0 = val c div 16 * 16" "and (val c) 0xF8 = val c div 8 * 8"
    using and_high [of "val c" 7] and_high [of "val c" 5] and_high [of "val c" 4]
      and_high [of "val c" 3] by simp_all
  moreover have "(v div 128 * 128 = 0) = (v < 128)" "(v div 32 * 32 = 192) = (192 \<le> v \<and> v < 224)"
    "(v div 16 * 16 = 224) = (224 \<le> v \<and> v < 240)"
    "(v div 8 * 8 = 240) = (240 \<le> v \<and> v < 248)" for v :: nat
    using div_block [of 128 v 0] div_block [of 32 v 6] div_block [of 16 v 14] div_block [of 8 v 30]
    by simp_all
  ultimately show ?thesis by (simp only: char_len_def)
qed

lemma encode_utf8_first:
  assumes "is_scalar c"
  shows "char_len (encode_utf8 c ! 0) = len_utf8 c" and "\<not> is_cont (encode_utf8 c ! 0)"
proof -
  have b: "c < 0x110000" using assms by (auto simp: is_scalar_def)
  have d1: "c div 64 < 32" if "c < 0x800" using that by auto
  have d2: "c div 4096 < 16" if "c < 0x10000" using that by auto
  have d3: "c div 262144 < 5" using b by auto
  show "char_len (encode_utf8 c ! 0) = len_utf8 c" "\<not> is_cont (encode_utf8 c ! 0)"
    using d1 d2 d3 by (auto simp: encode_utf8_def len_utf8_def char_len_eq is_cont_def)
qed

lemma encode_utf8_rest:
  assumes "0 < k" "k < len_utf8 c"
  shows "is_cont (encode_utf8 c ! k)"
proof -
  have m: "0x80 + x mod 64 < (256::nat)" for x by auto
  have "k < 4" using assms(2) by (auto simp: len_utf8_def split: if_splits)
  then consider "k = 1" | "k = 2" | "k = 3" using assms(1) by linarith
  then show ?thesis
    using assms
    by cases (auto simp: encode_utf8_def len_utf8_def is_cont_def m One_nat_def
        numeral_2_eq_2 numeral_3_eq_3 split: if_splits)
qed

text \<open>A position whose byte is not a continuation byte is where a scalar starts.\<close>

lemma valid_utf8_at:
  assumes "valid_utf8 s" "i < length s" "\<not> is_cont (s ! i)"
  shows "\<exists>c r. is_scalar c \<and> drop i s = encode_utf8 c @ r \<and> valid_utf8 r"
proof -
  obtain cs where cs: "list_all is_scalar cs" "s = encode_str cs"
    using assms(1) from_utf8_sound by (auto simp: valid_utf8_def)
  show ?thesis
    using cs assms(2,3)
  proof (induction cs arbitrary: s i)
    case (Cons c cs)
    have v: "valid_utf8 (encode_str cs)"
      using Cons.prems(1) by (simp add: valid_utf8_def from_utf8_encode)
    consider "i = 0" | "0 < i" "i < len_utf8 c" | "len_utf8 c \<le> i" by linarith
    then show ?case
    proof cases
      case 1
      with Cons.prems v show ?thesis by auto
    next
      case 2
      with Cons.prems encode_utf8_rest [OF 2] show ?thesis by (simp add: nth_append)
    next
      case 3
      then have "\<exists>c' r. is_scalar c' \<and> drop (i - len_utf8 c) (encode_str cs) = encode_utf8 c' @ r \<and>
          valid_utf8 r"
        using Cons.prems by (intro Cons.IH) (auto simp: nth_append)
      with Cons.prems 3 show ?thesis by simp
    qed
  qed simp
qed

lemma not_is_cont_ascii: "val b < 128 \<Longrightarrow> \<not> is_cont b"
  by (simp add: is_cont_def)

lemma valid_utf8_starts:
  assumes "valid_utf8 s" "s \<noteq> []"
  shows "\<not> is_cont (s ! 0)"
proof -
  obtain cs where cs: "list_all is_scalar cs" "s = encode_str cs"
    using assms(1) from_utf8_sound by (auto simp: valid_utf8_def)
  with assms(2) obtain c cs' where "cs = c # cs'" by (cases cs) auto
  with cs encode_utf8_first(2) [of c] show ?thesis by (simp add: nth_append)
qed

text \<open>A boundary of \<open>s\<close>: what follows is valid. It is a character boundary in the sense of
  \<open>str::get\<close>, and the lexer reads the scalar there.\<close>

definition boundary :: "bytes \<Rightarrow> nat \<Rightarrow> bool" where
  "boundary s i \<longleftrightarrow> i \<le> length s \<and> valid_utf8 (drop i s)"

lemma boundary_is_char_boundary: "boundary s i \<Longrightarrow> is_char_boundary s i"
  using valid_utf8_starts [of "drop i s"] by (auto simp: boundary_def is_char_boundary_def)

lemma boundary_scalar:
  assumes "boundary s i" "i < length s"
  obtains c r where "is_scalar c" "drop i s = encode_utf8 c @ r" "boundary s (i + len_utf8 c)"
proof -
  have "valid_utf8 (drop i s)" "0 < length (drop i s)" using assms by (auto simp: boundary_def)
  from valid_utf8_at [OF this] valid_utf8_starts [of "drop i s"] this
  obtain c r where cr: "is_scalar c" "drop i s = encode_utf8 c @ r" "valid_utf8 r" by auto
  then have "drop (i + len_utf8 c) s = r"
    by (metis add.commute append_eq_conv_conj drop_drop length_encode_utf8)
  moreover have "i + len_utf8 c \<le> length s"
    using arg_cong [OF cr(2), of length] assms(2) by simp
  ultimately show thesis using that cr by (simp add: boundary_def)
qed

lemma boundary_ascii:
  assumes "boundary s i" "i < length s" "val (s ! i) < 128"
  shows "boundary s (i + 1)"
proof -
  obtain c r where cr: "is_scalar c" "drop i s = encode_utf8 c @ r" "boundary s (i + len_utf8 c)"
    using boundary_scalar [OF assms(1,2)] .
  have "encode_utf8 c ! 0 = s ! i"
    using arg_cong [OF cr(2), of "\<lambda>x. x ! 0"] assms(2) by (simp add: nth_append)
  with encode_utf8_first(1) [OF cr(1)] assms(3) have "len_utf8 c = 1" by (simp add: char_len_eq)
  with cr(3) show ?thesis by simp
qed

lemma boundary_eat:
  assumes "boundary s p" "\<And>c. P c \<Longrightarrow> val c < 128"
  shows "boundary s (eat_while P s p)"
  using assms
proof (induction P s p rule: eat_while.induct)
  case (1 P s p)
  show ?case
  proof (cases "p < length s \<and> P (s ! p)")
    case True
    then have "eat_while P s p = eat_while P s (Suc p)" by (subst eat_while.simps) simp
    moreover have "boundary s (Suc p)" using boundary_ascii [of s p] True 1 by (simp add: Suc_eq_plus1)
    ultimately show ?thesis using 1 True by simp
  next
    case False
    then have "eat_while P s p = p" by (subst eat_while.simps) auto
    with 1 show ?thesis by simp
  qed
qed

lemma scalar_at_boundary:
  assumes "is_scalar c" "drop i s = encode_utf8 c @ r" "i < length s"
  shows "scalar_at s i = Some c"
proof -
  have "s ! i = encode_utf8 c ! 0"
    using arg_cong [OF assms(2), of "\<lambda>x. x ! 0"] assms(3) by (simp add: nth_append)
  then have cl: "char_len (s ! i) = len_utf8 c" using encode_utf8_first(1) [OF assms(1)] by simp
  have "len_utf8 c \<le> length s - i" using arg_cong [OF assms(2), of length] by simp
  then have "take (min (char_len (s ! i)) (length s - i)) (drop i s) = encode_utf8 c"
    using cl assms(2) by simp
  moreover have "from_utf8 (encode_utf8 c) = Some [c]"
    using from_utf8_encode [of "[c]"] assms(1) by simp
  ultimately show ?thesis by (simp add: scalar_at_def)
qed

subsection \<open>What a string literal denotes\<close>

text \<open>\<open>str_body s p out e\<close>: the literal's contents from \<open>p\<close> decode to \<open>out\<close>, and the closing quote
  is at \<open>e\<close>.\<close>

inductive str_body :: "bytes \<Rightarrow> nat \<Rightarrow> bytes \<Rightarrow> nat \<Rightarrow> bool" for s where
  body_close: "p < length s \<Longrightarrow> s ! p = CHR 0x22 \<Longrightarrow> str_body s p [] p"
| body_plain: "p < length s \<Longrightarrow> s ! p \<noteq> CHR 0x22 \<Longrightarrow> s ! p \<noteq> CHR 0x5C \<Longrightarrow> is_scalar c \<Longrightarrow>
    drop p s = encode_utf8 c @ r \<Longrightarrow> boundary s (p + len_utf8 c) \<Longrightarrow>
    str_body s (p + len_utf8 c) out e \<Longrightarrow> str_body s p (encode_utf8 c @ out) e"
| body_escape: "p < length s \<Longrightarrow> s ! p = CHR 0x5C \<Longrightarrow> escape_in s (length s) (p + 1) = Some (c, q) \<Longrightarrow>
    boundary s q \<Longrightarrow> str_body s q out e \<Longrightarrow> str_body s p (encode_utf8 c @ out) e"

lemma str_body_le: "str_body s p out e \<Longrightarrow> p \<le> e \<and> e < length s \<and> s ! e = CHR 0x22"
  by (induction rule: str_body.induct) (auto dest: escape_in_gt)

lemma is_hexdigit_ascii: "is_hexdigit c \<Longrightarrow> val c < 128"
  by (auto simp: is_hexdigit_def is_digit_def)

lemma lex_unicode_escape_silent:
  assumes "lex_unicode_escape lx lit st ds = (c, lx', ds)"
    and "boundary (lx_src lx) (lx_pos lx)"
  shows "\<exists>ch. c = Some ch \<and> unicode_in (lx_src lx) (length (lx_src lx)) (lx_pos lx) = Some (ch, lx_pos lx') \<and>
    boundary (lx_src lx) (lx_pos lx')"
proof -
  let ?s = "lx_src lx" let ?p2 = "eat_while is_hexdigit ?s (lx_pos lx + 1)"
  have brace: "lx_peek lx = Some CHR ''{''" and nz: "?p2 \<noteq> lx_pos lx + 1"
    and six: "\<not> 6 < ?p2 - (lx_pos lx + 1)"
    and close: "get_at ?s ?p2 = Some CHR ''}''"
    and ch: "\<exists>ch. c = Some ch \<and> char_from_u32 (case u32_from_str_radix
        (take (?p2 - (lx_pos lx + 1)) (drop (lx_pos lx + 1) ?s)) 16
        of Some v \<Rightarrow> v | None \<Rightarrow> 0x110000) = Some ch"
    and pos: "lx_pos lx' = ?p2 + 1"
    using assms(1) eat_while_ge [of "lx_pos lx + 1" is_hexdigit ?s]
    by (auto simp: lex_unicode_escape_def Let_def lx_error_def diag_error_eq lx_peek_def lx_slice_def
        split: if_splits option.splits)
  have b1: "boundary ?s (lx_pos lx + 1)"
    using boundary_ascii [OF assms(2)] brace by (simp add: lx_peek_Some)
  then have "boundary ?s ?p2" by (rule boundary_eat) (rule is_hexdigit_ascii)
  then have "boundary ?s (?p2 + 1)"
    using boundary_ascii [of ?s ?p2] close by (simp add: get_at_Some_iff)
  moreover obtain v where v: "u32_from_str_radix (take (?p2 - (lx_pos lx + 1)) (drop (lx_pos lx + 1) ?s)) 16
      = Some v"
    using ch by (auto simp: char_from_u32_def is_scalar_def split: option.splits if_splits)
  ultimately show ?thesis
    using ch brace nz six close pos
    by (auto simp: unicode_in_def lx_peek_def)
qed

lemma run_escape_eq: "run_escape e = simple_escape e"
  by (simp add: run_escape_def simple_escape_def)

lemma lex_escape_silent:
  assumes "lex_escape lx lit ds = (c, lx', ds)" "lx_peek lx \<noteq> None"
    and "boundary (lx_src lx) (lx_pos lx)"
  shows "\<exists>ch. c = Some ch \<and> escape_in (lx_src lx) (length (lx_src lx)) (lx_pos lx) = Some (ch, lx_pos lx') \<and>
    boundary (lx_src lx) (lx_pos lx')"
proof -
  obtain e where e: "lx_peek lx = Some e" using assms(2) by blast
  have asc: "simple_escape e = Some ch \<Longrightarrow> val e < 128" for ch
    by (auto simp: simple_escape_def split: if_splits)
  have b1: "boundary (lx_src lx) (lx_pos lx + 1)" if "val e < 128"
    using boundary_ascii [OF assms(3)] e that by (simp add: lx_peek_Some)
  show ?thesis
  proof (cases "simple_escape e")
    case None
    with assms(1) e have u: "e = CHR ''u''"
      and l: "lex_unicode_escape (lx_bump lx 1) lit (lx_pos lx) ds = (c, lx', ds)"
      by (auto simp: lex_escape_def Let_def lx_error_def diag_error_eq split: if_splits)
    from lex_unicode_escape_silent [OF l] b1 u None e show ?thesis
      by (auto simp: escape_in_def lx_peek_def run_escape_eq)
  next
    case (Some ch)
    with assms(1) e have "c = Some ch" "lx' = lx_bump lx 1" by (auto simp: lex_escape_def)
    with Some e b1 asc [OF Some] show ?thesis by (simp add: escape_in_def lx_peek_def run_escape_eq)
  qed
qed

lemma lex_string_loop_silent:
  assumes "lex_string_loop start lx s0 ds = (lx', s', ds)" "boundary (lx_src lx) (lx_pos lx)"
  shows "\<exists>out e. s' = s0 @ out \<and> lx_pos lx' = e + 1 \<and> str_body (lx_src lx) (lx_pos lx) out e"
  using assms
proof (induction start lx s0 ds rule: lex_string_loop.induct)
  case (1 start lx s0 ds)
  note eq = "1.prems"(1) [unfolded lex_string_loop.simps [of start lx s0 ds]]
  have live: "\<not> at_line_end lx"
    using eq by (auto simp: lx_error_def diag_error_eq split: if_splits)
  then have lt: "lx_pos lx < length (lx_src lx)" by (auto simp: at_line_end_def lx_peek_None)
  consider (close) "lx_peek lx = Some CHR 0x22" | (esc) "lx_peek lx = Some CHR 0x5C"
    | (plain) "lx_peek lx \<noteq> Some CHR 0x22" "lx_peek lx \<noteq> Some CHR 0x5C" by blast
  then show ?case
  proof cases
    case close
    with eq live lt show ?thesis
      by (intro exI [of _ "[]"] exI [of _ "lx_pos lx"]) (auto simp: lx_peek_Some intro: body_close)
  next
    case esc
    have live1: "\<not> at_line_end (lx_bump lx 1)"
      using eq live esc by (auto simp: Let_def lx_error_def diag_error_eq split: if_splits)
    obtain c lx2 ds2 where e: "lex_escape (lx_bump lx 1) ''string'' ds = (c, lx2, ds2)"
      by (metis prod_cases3)
    let ?s1 = "case c of Some ch \<Rightarrow> s0 @ encode_utf8 ch | None \<Rightarrow> s0"
    have rec: "lex_string_loop start lx2 ?s1 ds2 = (lx', s', ds)"
      using eq live esc live1 e by (simp add: Let_def)
    have "errs_only ds ds2" "errs_only ds2 ds"
      using lex_escape_errs [OF e] lex_string_loop_frame [OF rec] by auto
    then have ds2: "ds2 = ds" by (auto simp: errs_only_def)
    have b1: "boundary (lx_src lx) (lx_pos lx + 1)"
      using boundary_ascii [OF "1.prems"(2) lt] esc by (simp add: lx_peek_Some)
    have src: "lx_src lx2 = lx_src lx"
      using lex_escape_frame_peeked [OF esc live1 e] by (simp add: lx_frame_def)
    obtain ch where ch: "c = Some ch" "escape_in (lx_src lx) (length (lx_src lx)) (lx_pos lx + 1) =
        Some (ch, lx_pos lx2)" "boundary (lx_src lx) (lx_pos lx2)"
      using lex_escape_silent [OF e [unfolded ds2]] b1 live1 by (auto simp: at_line_end_def)
    from "1.IH"(1) [OF live _ esc refl live1 e [symmetric] refl] rec ds2 ch(3) src esc
    obtain out e where "s' = ?s1 @ out" "lx_pos lx' = e + 1" "str_body (lx_src lx) (lx_pos lx2) out e"
      by auto
    then show ?thesis
      using ch esc by (intro exI [of _ "encode_utf8 ch @ out"] exI [of _ e])
        (auto simp: lx_peek_Some intro: body_escape)
  next
    case plain
    obtain c r where cr: "is_scalar c" "drop (lx_pos lx) (lx_src lx) = encode_utf8 c @ r"
      "boundary (lx_src lx) (lx_pos lx + len_utf8 c)"
      using boundary_scalar [OF "1.prems"(2) lt] .
    have l: "literal_scalar lx = (c, len_utf8 c)"
      using scalar_at_boundary [OF cr(1,2) lt] by (simp add: literal_scalar_def)
    from "1.IH"(2) [OF live plain l [symmetric]] eq live plain l cr(3)
    obtain out e where "s' = (s0 @ encode_utf8 c) @ out" "lx_pos lx' = e + 1"
      "str_body (lx_src lx) (lx_pos lx + len_utf8 c) out e" by auto
    then show ?thesis
      using cr plain lt by (intro exI [of _ "encode_utf8 c @ out"] exI [of _ e])
        (auto simp: lx_peek_Some intro: body_plain)
  qed
qed

subsection \<open>The second decoder reads the same contents\<close>

lemma eat_while_eqI:
  assumes "p \<le> r" "r \<le> length s" "\<And>k. p \<le> k \<Longrightarrow> k < r \<Longrightarrow> P (s ! k)"
    and "r < length s \<Longrightarrow> \<not> P (s ! r)"
  shows "eat_while P s p = r"
  using assms
proof (induction P s p rule: eat_while.induct)
  case (1 P s p)
  show ?case
  proof (cases "p = r")
    case True
    with "1.prems" show ?thesis by (subst eat_while.simps) auto
  next
    case False
    with "1.prems" have "p < length s \<and> P (s ! p)" by auto
    with 1 False show ?thesis by (subst eat_while.simps) auto
  qed
qed

text \<open>The literal of a body that starts after the quote at \<open>start\<close> and ends with the quote at \<open>e\<close>.\<close>

definition literal_of :: "bytes \<Rightarrow> nat \<Rightarrow> nat \<Rightarrow> bytes" where
  "literal_of s start e = take (e + 1 - start) (drop start s)"

lemma literal_of_length [simp]: "start \<le> e \<Longrightarrow> e < length s \<Longrightarrow> length (literal_of s start e) = e + 1 - start"
  by (simp add: literal_of_def)

lemma literal_of_nth [simp]:
  "start + i \<le> e \<Longrightarrow> e < length s \<Longrightarrow> literal_of s start e ! i = s ! (start + i)"
  by (simp add: literal_of_def)

lemma literal_of_get:
  "start + i \<le> e \<Longrightarrow> e < length s \<Longrightarrow> get_at (literal_of s start e) i = get_at s (start + i)"
  by (simp add: get_at_def)

lemma unicode_in_literal:
  assumes "unicode_in s (length s) q = Some (c, q')" "start \<le> q" "q' \<le> e" "e < length s"
  shows "unicode_in (literal_of s start e) (e - start) (q - start) = Some (c, q' - start)"
proof -
  let ?p2 = "eat_while is_hexdigit s (q + 1)" and ?l = "literal_of s start e"
  have u: "get_at s q = Some CHR ''{''" "?p2 \<noteq> q + 1" "\<not> 6 < ?p2 - (q + 1)"
    "get_at s ?p2 = Some CHR ''}''" "q' = ?p2 + 1"
    "\<exists>v. u32_from_str_radix (take (?p2 - (q + 1)) (drop (q + 1) s)) 16 = Some v \<and> char_from_u32 v = Some c"
    using assms(1) by (auto simp: unicode_in_def Let_def split: if_splits option.splits)
  have ge: "q + 1 \<le> ?p2" by (rule eat_while_ge)
  have eat: "eat_while is_hexdigit (take (e - start) ?l) (q - start + 1) = ?p2 - start"
  proof (rule eat_while_eqI)
    show "q - start + 1 \<le> ?p2 - start" using ge assms(2) by linarith
    show "?p2 - start \<le> length (take (e - start) ?l)" using u(5) assms(3,4) ge assms(2) by simp
    fix k assume "q - start + 1 \<le> k" "k < ?p2 - start"
    then show "is_hexdigit (take (e - start) ?l ! k)"
      using eat_while_all [of "q + 1" "start + k" is_hexdigit s] u(5) assms by simp
  next
    have "\<not> is_hexdigit CHR ''}''" by (simp add: is_hexdigit_def is_digit_def)
    moreover have "?l ! (?p2 - start) = CHR ''}''"
      using u(4,5) assms ge by (simp add: get_at_Some_iff)
    moreover have "?p2 - start < e - start" using u(5) assms ge by linarith
    ultimately show "\<not> is_hexdigit (take (e - start) ?l ! (?p2 - start))" by simp
  qed
  have digits: "take (?p2 - start - (q - start + 1)) (drop (q - start + 1) ?l)
      = take (?p2 - (q + 1)) (drop (q + 1) s)"
    using u(5) assms ge by (simp add: literal_of_def drop_take min_def)
  have "get_at ?l (q - start) = Some CHR ''{''" "get_at ?l (?p2 - start) = Some CHR ''}''"
    using u(1,4,5) assms ge by (simp_all add: literal_of_get)
  moreover have "?p2 - start \<noteq> q - start + 1" using u(2) ge assms(2) by linarith
  ultimately show ?thesis
    using u eat digits ge assms(2) by (auto simp: unicode_in_def Let_def)
qed

lemma escape_in_literal:
  assumes "escape_in s (length s) q = Some (c, q')" "start \<le> q" "q' \<le> e" "e < length s"
  shows "escape_in (literal_of s start e) (e - start) (q - start) = Some (c, q' - start)"
proof -
  have "q < q'" using escape_in_gt assms(1) .
  then have g: "get_at (literal_of s start e) (q - start) = get_at s q"
    using assms by (simp add: literal_of_get)
  obtain b where b: "get_at s q = Some b"
    using assms(1) by (auto simp: escape_in_def split: option.splits)
  show ?thesis
  proof (cases "run_escape b")
    case None
    then have "b = CHR ''u''" "unicode_in s (length s) (q + 1) = Some (c, q')"
      using assms(1) b by (auto simp: escape_in_def split: if_splits)
    with unicode_in_literal [of s "q + 1" c q' start e] assms g b None show ?thesis
      by (simp add: escape_in_def)
  next
    case (Some ch)
    with assms g b show ?thesis by (auto simp: escape_in_def)
  qed
qed

lemma plain_scalar_body:
  assumes "is_scalar c" "drop p s = encode_utf8 c @ r" "boundary s (p + len_utf8 c)"
    and "p < length s" "p + len_utf8 c \<le> e" "e < length s" "s ! e = CHR 0x22" "start \<le> p"
  shows "plain_scalar s start (e - start) (p - start) = Some (len_utf8 c, encode_utf8 c)"
proof -
  have "s ! p = encode_utf8 c ! 0"
    using arg_cong [OF assms(2), of "\<lambda>x. x ! 0"] assms(4) by (simp add: nth_append)
  then have bp: "is_char_boundary s p"
    using encode_utf8_first(2) [OF assms(1)] assms(4) by (simp add: is_char_boundary_def)
  have be: "is_char_boundary s e" using assms(6,7) by (simp add: is_char_boundary_def is_cont_def)
  have "take (e - p) (drop p s) = encode_utf8 c @ take (e - p - len_utf8 c) r"
    using assms(2,5) by simp
  then have "decode_first (take (e - p) (drop p s)) = Some (c, take (e - p - len_utf8 c) r)"
    using decode_encode [OF assms(1)] by simp
  moreover have "take (len_utf8 c) (drop p s) = encode_utf8 c" using assms(2) by simp
  ultimately show ?thesis
    using bp be boundary_is_char_boundary [OF assms(3)] assms(5,6,8)
    by (simp add: plain_scalar_def str_get_def Let_def)
qed

lemma plain_run_body:
  assumes "str_body s p out e" "start \<le> p"
  shows "\<exists>out1 out2 q. plain_run s (literal_of s start e) start (e - start) (p - start) decoded =
      Some (q - start, decoded @ out1) \<and> out = out1 @ out2 \<and> p \<le> q \<and> str_body s q out2 e"
  using assms
proof (induction arbitrary: decoded rule: str_body.induct)
  case (body_close p)
  then show ?case
    by (intro exI [of _ "[]"] exI [of _ p]) (subst plain_run.simps, auto intro: str_body.body_close)
next
  case (body_escape p c q out e)
  have "p < e" using str_body_le [OF body_escape(5)] escape_in_gt [OF body_escape(3)] by auto
  then have "literal_of s start e ! (p - start) = CHR 0x5C"
    using body_escape str_body_le [OF body_escape(5)] by simp
  then show ?case
    using body_escape
    by (intro exI [of _ "[]"] exI [of _ "encode_utf8 c @ out"] exI [of _ p])
      (subst plain_run.simps, auto intro: str_body.body_escape)
next
  case (body_plain p c r out e)
  let ?l = "literal_of s start e"
  note le = str_body_le [OF body_plain(7)]
  have sc: "plain_scalar s start (e - start) (p - start) = Some (len_utf8 c, encode_utf8 c)"
    using body_plain le by (intro plain_scalar_body) auto
  have lt: "p < e" using le len_utf8_pos [of c] by linarith
  then have "?l ! (p - start) = s ! p" using body_plain le by simp
  with sc body_plain lt have eq: "plain_run s ?l start (e - start) (p - start) decoded =
      plain_run s ?l start (e - start) (p + len_utf8 c - start) (decoded @ encode_utf8 c)"
    by (subst plain_run.simps) auto
  obtain out1 out2 q where "plain_run s ?l start (e - start) (p + len_utf8 c - start)
      (decoded @ encode_utf8 c) = Some (q - start, (decoded @ encode_utf8 c) @ out1)"
    "out = out1 @ out2" "p + len_utf8 c \<le> q" "str_body s q out2 e"
    using body_plain.IH [of "decoded @ encode_utf8 c"] body_plain.prems by auto
  with eq show ?case
    by (intro exI [of _ "encode_utf8 c @ out1"] exI [of _ out2] exI [of _ q]) simp
qed

text \<open>Runs that tile: each starts where the previous one ended, in the decoded text and in the
  source, and none is empty in the source.\<close>

fun runs_tile :: "nat \<Rightarrow> nat \<Rightarrow> decoded_string_run list \<Rightarrow> nat \<Rightarrow> nat \<Rightarrow> bool" where
  "runs_tile d p [] d' p' \<longleftrightarrow> d = d' \<and> p = p'"
| "runs_tile d p (r # rs) d' p' \<longleftrightarrow> dr_decoded_start r = d \<and> dr_source_start r = p \<and>
     d \<le> dr_decoded_end r \<and> p < dr_source_end r \<and>
     runs_tile (dr_decoded_end r) (dr_source_end r) rs d' p'"

lemma runs_tile_append:
  "runs_tile d p rs d1 p1 \<Longrightarrow> runs_tile d1 p1 rs' d2 p2 \<Longrightarrow> runs_tile d p (rs @ rs') d2 p2"
  by (induction rs arbitrary: d p) auto

lemma run_turn_body:
  assumes "str_body s p out e" "start \<le> p" "p < e"
  shows "\<exists>out1 out2 q. run_turn s (literal_of s start e) start (e - start) (p - start) decoded =
      Some (q - start, decoded @ out1) \<and> out = out1 @ out2 \<and> p < q \<and> str_body s q out2 e"
proof (cases "s ! p = CHR 0x5C")
  case True
  with assms obtain c q out2 where q: "escape_in s (length s) (p + 1) = Some (c, q)"
    "str_body s q out2 e" "out = encode_utf8 c @ out2"
    by (auto elim: str_body.cases)
  have "p + 1 < q" using escape_in_gt [OF q(1)] .
  moreover have "escape_in (literal_of s start e) (e - start) (p - start + 1) = Some (c, q - start)"
    using escape_in_literal [OF q(1), of start e] str_body_le [OF q(2)] assms(2) by simp
  ultimately show ?thesis
    using q True assms str_body_le [OF assms(1)]
    by (intro exI [of _ "encode_utf8 c"] exI [of _ out2] exI [of _ q]) (simp add: run_turn_def)
next
  case False
  obtain out1 out2 q where q: "plain_run s (literal_of s start e) start (e - start) (p - start) decoded =
      Some (q - start, decoded @ out1)" "out = out1 @ out2" "p \<le> q" "str_body s q out2 e"
    using plain_run_body [OF assms(1,2)] by blast
  have nth: "literal_of s start e ! (p - start) = s ! p"
    using assms str_body_le [OF assms(1)] by simp
  have "p - start < q - start"
    using plain_run_gt [OF q(1)] False nth assms(2,3) by simp
  with q False nth show ?thesis
    by (intro exI [of _ out1] exI [of _ out2] exI [of _ q]) (simp add: run_turn_def)
qed

lemma runs_loop_body:
  assumes "str_body s p out e" "start \<le> p" "length (decoded @ out) < 2 ^ 32" "length s < 2 ^ 32"
  shows "\<exists>rs. runs_loop s (literal_of s start e) start start (e - start) (p - start) decoded runs =
      Some (decoded @ out, runs @ rs) \<and> runs_tile (length decoded) p rs (length (decoded @ out)) e"
  using assms
proof (induction "e - p" arbitrary: p out decoded runs rule: less_induct)
  case less
  let ?l = "literal_of s start e"
  note le = str_body_le [OF less(2)]
  show ?case
  proof (cases "p = e")
    case True
    with less.prems(1) le have "out = []" by (auto elim: str_body.cases dest: escape_in_gt)
    with True show ?thesis by (intro exI [of _ "[]"]) (subst runs_loop.simps, simp)
  next
    case False
    then have lt: "p < e" using le by simp
    obtain out1 out2 q where q: "run_turn s ?l start (e - start) (p - start) decoded =
        Some (q - start, decoded @ out1)" "out = out1 @ out2" "p < q" "str_body s q out2 e"
      using run_turn_body [OF less(2,3) lt] by blast
    note leq = str_body_le [OF q(4)]
    let ?r = "\<lparr>dr_decoded_start = length decoded, dr_decoded_end = length (decoded @ out1),
      dr_source_start = p, dr_source_end = q\<rparr>"
    have "make_run start (length decoded) (length (decoded @ out1)) (p - start) (q - start) = Some ?r"
      using less.prems q(2,3) leq by (auto simp: make_run_def u32_try_from_def u32_checked_add_def)
    then have eq: "runs_loop s ?l start start (e - start) (p - start) decoded runs =
        runs_loop s ?l start start (e - start) (q - start) (decoded @ out1) (runs @ [?r])"
      using q(1) lt less.prems(2) diff_less_mono [OF lt less.prems(2)]
      by (subst runs_loop.simps) simp
    obtain rs where rs: "runs_loop s ?l start start (e - start) (q - start) (decoded @ out1) (runs @ [?r])
        = Some ((decoded @ out1) @ out2, (runs @ [?r]) @ rs)"
      "runs_tile (length (decoded @ out1)) q rs (length ((decoded @ out1) @ out2)) e"
      using less.hyps [of q out2 "decoded @ out1" "runs @ [?r]", OF diff_less_mono2 [OF q(3) lt]]
        less.prems q leq by auto
    with eq q show ?thesis by (intro exI [of _ "?r # rs"]) simp
  qed
qed

lemma escape_in_shrinks: "escape_in s lim q = Some (c, q') \<Longrightarrow> q + len_utf8 c \<le> q' + 1"
  using eat_while_ge [of "q + 1 + 1" is_hexdigit "take lim s"]
  by (auto simp: escape_in_def unicode_in_def run_escape_def len_utf8_def Let_def
      split: option.splits if_splits)

lemma str_body_length: "str_body s p out e \<Longrightarrow> length out \<le> e - p"
proof (induction rule: str_body.induct)
  case (body_plain p c r out e)
  have "p + len_utf8 c \<le> e" using str_body_le [OF body_plain(7)] by simp
  with body_plain.IH show ?case by simp
next
  case (body_escape p c q out e)
  have "q \<le> e" "p + len_utf8 c \<le> q"
    using str_body_le [OF body_escape(5)] escape_in_shrinks [OF body_escape(3)] by simp_all
  with body_escape.IH show ?case by simp
qed simp

lemma decoded_runs_of_body:
  assumes "str_body s (start + 1) out e" "s ! start = CHR 0x22" "length s < 2 ^ 32"
  shows "\<exists>rs. decoded_string_runs s (span_new f start (e + 1)) = Some (out, rs) \<and>
    runs_tile 0 (start + 1) rs (length out) e"
proof -
  let ?l = "literal_of s start e"
  note le = str_body_le [OF assms(1)]
  have len: "length ?l = e + 1 - start" using le by simp
  have ends: "hd ?l = CHR 0x22" "last ?l = CHR 0x22"
    using le assms(2) len by (simp_all add: hd_conv_nth last_conv_nth flip: length_greater_0_conv)
  have small: "length ([] @ out) < 2 ^ 32" using str_body_length [OF assms(1)] le assms(3) by auto
  obtain rs where rs: "runs_loop s ?l start start (e - start) (start + 1 - start) [] [] = Some ([] @ out, [] @ rs)"
    "runs_tile (length ([] :: bytes)) (start + 1) rs (length ([] @ out)) e"
    using runs_loop_body [OF assms(1) _ small assms(3), of start "[]"] by auto
  have "slice_range s start (e + 1) = Some ?l" using le by (simp add: literal_of_def)
  with rs len ends le show ?thesis by (auto simp: decoded_string_runs_def)
qed

lemma lex_string_runs:
  assumes "lex_string lx (lx_pos lx) ds = (lx', ds)" "lx_peek lx = Some CHR 0x22"
    and "valid_utf8 (lx_src lx)" "length (lx_src lx) < 2 ^ 32"
  shows "\<exists>t s rs. lx_tokens lx' = lx_tokens lx @ [t] \<and> tk_kind t = Tk_Str s \<and>
    decoded_string_runs (lx_src lx) (tk_span t) = Some (s, rs) \<and>
    runs_tile 0 (span_lo (tk_span t) + 1) rs (length s) (span_hi (tk_span t) - 1)"
proof -
  let ?s = "lx_src lx" and ?p = "lx_pos lx"
  obtain lx1 s where loop: "lex_string_loop ?p (lx_bump lx 1) [] ds = (lx1, s, ds)"
    and lx': "lx' = lx_push lx1 (Tk_Str s) ?p"
    using assms(1) by (auto simp: lex_string_def split: prod.splits)
  have lt: "?p < length ?s" "?s ! ?p = CHR 0x22" using assms(2) by (auto simp: lx_peek_Some)
  have "boundary ?s ?p"
  proof -
    have "\<not> is_cont (?s ! ?p)" using lt(2) by (simp add: is_cont_def)
    from valid_utf8_at [OF assms(3) lt(1) this]
    obtain c r where "is_scalar c" "drop ?p ?s = encode_utf8 c @ r" "valid_utf8 r" by blast
    then have "valid_utf8 (drop ?p ?s)"
      by (subst valid_utf8_def, subst from_utf8.simps) (simp add: decode_encode valid_utf8_def)
    with lt show ?thesis by (simp add: boundary_def)
  qed
  then have "boundary ?s (?p + 1)" using boundary_ascii lt by simp
  with lex_string_loop_silent [OF loop] obtain e where
    e: "lx_pos lx1 = e + 1" "str_body ?s (?p + 1) s e" by auto
  have fr: "lx_tokens lx1 = lx_tokens lx" "lx_file lx1 = lx_file lx" "lx_src lx1 = ?s"
    using lex_string_loop_frame [OF loop] by (auto simp: lx_frame_def)
  have span: "lx_span lx1 ?p (lx_pos lx1) = span_new (lx_file lx) ?p (e + 1)"
    using fr e lt assms(4) str_body_le [OF e(2)] by (simp add: lx_span_def)
  obtain rs where rs: "decoded_string_runs ?s (span_new (lx_file lx) ?p (e + 1)) = Some (s, rs)"
    "runs_tile 0 (?p + 1) rs (length s) e"
    using decoded_runs_of_body [OF e(2) lt(2) assms(4), of "lx_file lx"] by blast
  then show ?thesis unfolding lx' lx_push_def span fr by simp
qed

subsection \<open>Properties\<close>

text \<open>Every string token of a silent run satisfies the agreement.\<close>

definition runs_agree :: "bytes \<Rightarrow> token \<Rightarrow> bool" where
  "runs_agree src t \<longleftrightarrow> (\<forall>s. tk_kind t = Tk_Str s \<longrightarrow>
     (\<exists>rs. decoded_string_runs src (tk_span t) = Some (s, rs) \<and>
        runs_tile 0 (span_lo (tk_span t) + 1) rs (length s) (span_hi (tk_span t) - 1)))"

lemma symbol_kind_not_str: "symbol_kind c two three = Some (k, n) \<Longrightarrow> k \<noteq> Tk_Str s"
  by (auto simp: symbol_kind_def split: if_splits)

lemma keyword_kind_not_str [simp]: "keyword_kind s \<noteq> Tk_Str t"
  by (auto simp: keyword_kind_def keyword_table_def split: option.splits if_splits)

text \<open>Only \<open>lex_string\<close> pushes a string token.\<close>

definition no_str_pushed :: "lexer \<Rightarrow> lexer \<Rightarrow> bool" where
  "no_str_pushed lx lx' \<longleftrightarrow>
     (\<exists>ts. lx_tokens lx' = lx_tokens lx @ ts \<and> (\<forall>t\<in>set ts. \<forall>s. tk_kind t \<noteq> Tk_Str s))"

lemma no_str_pushed_push [simp]:
  "lx_tokens lx' = lx_tokens lx \<Longrightarrow> (\<And>s. k \<noteq> Tk_Str s) \<Longrightarrow> no_str_pushed lx (lx_push lx' k st)"
  by (simp add: no_str_pushed_def lx_push_def)

lemma no_str_pushed_same [simp]: "lx_tokens lx' = lx_tokens lx \<Longrightarrow> no_str_pushed lx lx'"
  by (simp add: no_str_pushed_def)

lemma push_number_no_str:
  assumes "lx_tokens lx1 = lx_tokens lx" "push_number lx1 st fl text ds = (lx', ds')"
  shows "no_str_pushed lx lx'"
  using assms by (auto simp: push_number_def
      split: if_splits option.splits)

lemma lex_number_no_str:
  assumes "lex_number lx st ds = Some (lx', ds')"
  shows "no_str_pushed lx lx'"
proof (cases "if lx_peek lx = Some CHR ''0'' then radix_prefix (lx_ahead lx 1) else None")
  case (Some p)
  with assms show ?thesis
    by (cases p) (auto simp: lex_number_def lex_radix_number_def Let_def split: if_splits option.splits)
next
  case None
  obtain lx1 frac where s1: "scan_fraction (eat_digits lx) = (lx1, frac)" by force
  obtain lx2 ex where s2: "scan_exponent lx1 = (lx2, ex)" by force
  have tk: "lx_tokens lx2 = lx_tokens lx"
    using scan_fraction_step [of "eat_digits lx"] scan_exponent_step [of lx1] s1 s2
    by (simp add: ascii_step_def eat_digits_def)
  obtain raw where raw: "utf8_unwrap (lx_slice lx2 st) = Some raw"
    using assms None s1 s2 by (auto simp: lex_number_def split: option.splits)
  let ?text = "filter (\<lambda>c. c \<noteq> CHR ''_'') raw"
  obtain lx3 ds3 where pn: "push_number lx2 st (frac \<or> ex) ?text ds = (lx3, ds3)" by force
  have "number_suffix lx3 st ?text ds3 = Some (lx', ds')"
    using assms None s1 s2 raw pn by (simp add: lex_number_def)
  then have "lx_tokens lx' = lx_tokens lx3"
    by (auto simp: number_suffix_def Let_def split: if_splits)
  with push_number_no_str [OF tk pn] show ?thesis by (simp add: no_str_pushed_def)
qed

lemma lex_token_no_str:
  assumes "lex_token lx ds = Some (lx', ds')" "lx_peek lx \<noteq> Some CHR 0x22"
  shows "no_str_pushed lx lx'"
proof -
  obtain c where c: "lx_peek lx = Some c" using lex_token_Some [OF assms(1)] by (simp add: lx_peek_Some)
  consider (num) "lex_number lx (lx_pos lx) ds = Some (lx', ds')"
    | (chr) "lex_char lx (lx_pos lx) ds = (lx', ds')"
    | (ident) "lex_ident lx (lx_pos lx) = Some lx'"
    | (sym) "lex_symbol lx (lx_pos lx) ds = Some (lx', ds')"
    using assms c by (auto simp: lex_token_def Let_def split: if_splits)
  then show ?thesis
  proof cases
    case num
    then show ?thesis by (rule lex_number_no_str)
  next
    case chr
    obtain ch lx1 ds1 where b: "lex_char_body (lx_bump lx 1) (lx_pos lx) ds = (ch, lx1, ds1)"
      by (metis prod_cases3)
    have tk: "lx_tokens lx1 = lx_tokens lx" using lex_char_body_frame [OF b] by simp
    with chr b show ?thesis
      by (cases ch) (auto simp: lex_char_def
          split: if_splits)
  next
    case ident
    then show ?thesis
      by (auto simp: lex_ident_def Let_def split: option.splits)
  next
    case sym
    then show ?thesis
      using c by (auto simp: lex_symbol_def Let_def intro!: no_str_pushed_push dest: symbol_kind_not_str split: option.splits prod.splits)
  qed
qed

lemma lex_token_runs_agree:
  assumes "lex_token lx ds = Some (lx', ds)" "valid_utf8 (lx_src lx)" "length (lx_src lx) < 2 ^ 32"
    and "\<forall>t\<in>set (lx_tokens lx). runs_agree (lx_src lx) t"
  shows "\<forall>t\<in>set (lx_tokens lx'). runs_agree (lx_src lx) t"
proof (cases "lx_peek lx = Some CHR 0x22")
  case True
  then have "lex_string lx (lx_pos lx) ds = (lx', ds)"
    using assms(1) by (simp add: lex_token_def is_digit_def)
  from lex_string_runs [OF this True assms(2,3)] assms(4) show ?thesis
    by (auto simp: runs_agree_def)
next
  case False
  from lex_token_no_str [OF assms(1) this] assms(4) show ?thesis
    by (auto simp: no_str_pushed_def runs_agree_def)
qed

text \<open>
  C11. On a valid UTF-8 source that lexes without a report, \<open>decoded_string_runs\<close>, given the span
  of a string token, returns exactly the token's contents, and its runs tile the decoded text
  and the source between the quotes.
\<close>

theorem decoded_runs_agree_with_lexer:
  assumes "tokenize f s ds = Some (toks, ds)" and "valid_utf8 s" and "length s < 2 ^ 32"
    and "t \<in> set toks" and "tk_kind t = Tk_Str out"
  shows "\<exists>rs. decoded_string_runs s (tk_span t) = Some (out, rs) \<and>
    runs_tile 0 (span_lo (tk_span t) + 1) rs (length out) (span_hi (tk_span t) - 1)"
proof -
  obtain lx where r: "lex_run_loop (lx_init f s) ds = Some (lx, ds)" and
    toks: "toks = lx_tokens (maybe_insert_end lx) @
      [\<lparr>tk_kind = Tk_Eof, tk_span = lx_span lx (lx_pos lx) (lx_pos lx), tk_radix = None\<rparr>]"
    using assms(1) by (rule tokenize_loop)
  have ends: "(\<forall>t\<in>set (lx_tokens (maybe_insert_end l)). runs_agree s t) \<longleftrightarrow>
      (\<forall>t\<in>set (lx_tokens l). runs_agree s t)" for l
    by (rule maybe_insert_end_cases [of l]) (auto simp: runs_agree_def)
  let ?I = "\<lambda>lx d. lx_src lx = s \<and> length ds \<le> length d \<and>
    (d = ds \<longrightarrow> (\<forall>t\<in>set (lx_tokens lx). runs_agree s t))"
  have "?I lx ds \<and> lx_pos lx \<ge> length (lx_src lx)"
  proof (rule lex_run_loop_invariant [OF r, where I = ?I], goal_cases)
    case (4 lx d lx' d')
    then have "length d \<le> length d'" "lx_src lx' = lx_src lx" by (auto simp: lexed_def lx_frame_def)
    moreover have "d = d'" if "d' = ds" using 4 that by (auto simp: lexed_def)
    ultimately show ?case
      using 4 lex_token_runs_agree [of lx d lx'] assms(2,3) by auto
  qed (auto simp: ends)
  then have "\<forall>t\<in>set toks. runs_agree s t"
    using toks ends [of lx] by (auto simp: runs_agree_def [of s "\<lparr>tk_kind = Tk_Eof, tk_span = _, tk_radix = _\<rparr>"])
  with assms(4,5) show ?thesis by (auto simp: runs_agree_def)
qed

definition example_string :: bytes where
  "example_string = [CHR 0x22] @ ''a'' @ [CHR 0x5C] @ ''u{e9}b'' @ [CHR 0x22]"

theorem decoded_runs_agree_with_lexer_witness:
  "\<exists>rs. decoded_string_runs example_string (span_new 0 0 10) = Some (encode_str [0x61, 0xE9, 0x62], rs) \<and>
     runs_tile 0 1 rs 4 9"
proof -
  define t where "t = \<lparr>tk_kind = Tk_Str (encode_str [0x61, 0xE9, 0x62]), tk_span = span_new 0 0 10,
    tk_radix = None\<rparr>"
  have "tokenize 0 example_string [] = Some ([t, \<lparr>tk_kind = Tk_End, tk_span = span_new 0 10 10,
      tk_radix = None\<rparr>, \<lparr>tk_kind = Tk_Eof, tk_span = span_new 0 10 10, tk_radix = None\<rparr>], [])"
    unfolding t_def by code_simp
  moreover have "valid_utf8 example_string" by code_simp
  moreover have "length example_string < 2 ^ 32" by (simp add: example_string_def)
  ultimately have "\<exists>rs. decoded_string_runs example_string (tk_span t) =
      Some (encode_str [0x61, 0xE9, 0x62], rs) \<and> runs_tile 0 (span_lo (tk_span t) + 1) rs
        (length (encode_str [0x61, 0xE9, 0x62])) (span_hi (tk_span t) - 1)"
    by (rule decoded_runs_agree_with_lexer) (simp_all add: t_def)
  then show ?thesis by (simp add: t_def len_utf8_def)
qed

end
