(* ===== verification/Ast.thy ===== *)
theory Ast
  imports Tokens
begin

section \<open>align\_ast: the syntax tree\<close>

text \<open>
  The syntax tree of \<open>crates/align_ast/src/lib.rs\<close>. Structs that do not take part in the
  recursion are records; the expression, block, statement and pattern types are datatypes with
  one constructor per variant and the fields in the order of the source.
\<close>

record ident =
  id_name :: bytes
  id_span :: span

record path =
  path_segments :: "ident list"
  path_span :: span

datatype vis = Vis_Private | Vis_Pub

datatype param_mode = PM_ByValue | PM_Out | PM_Borrow | PM_BorrowMut

definition is_out :: "param_mode \<Rightarrow> bool" where
  "is_out m \<longleftrightarrow> m = PM_Out"

subsection \<open>Types\<close>

datatype ty =
    Ty_Named path "ty list" span
  | Ty_FixedArray ty nat span span
  | Ty_Tuple "ty list" span
  | Ty_Fn "fn_type_param list" ty span
and fn_type_param = Fn_Type_Param param_mode ty

definition ty_span :: "ty \<Rightarrow> span" where
  "ty_span t = (case t of Ty_Named _ _ sp \<Rightarrow> sp | Ty_FixedArray _ _ _ sp \<Rightarrow> sp | Ty_Tuple _ sp \<Rightarrow> sp
     | Ty_Fn _ _ sp \<Rightarrow> sp)"

record type_param =
  tp_name :: ident
  tp_bound :: "ident option"

record param =
  pm_mode :: param_mode
  pm_name :: ident
  pm_ty :: ty

record lambda_param =
  lp_name :: ident
  lp_ty :: "ty option"

subsection \<open>Patterns\<close>

datatype literal_pat = LP_Int int | LP_Char nat | LP_Str bytes

datatype value_pattern =
    VP_Single literal_pat span
  | VP_Range literal_pat literal_pat bool span

definition value_pattern_span :: "value_pattern \<Rightarrow> span" where
  "value_pattern_span v = (case v of VP_Single _ sp \<Rightarrow> sp | VP_Range _ _ _ sp \<Rightarrow> sp)"

datatype match_pattern =
    MP_Variant ident "ident list"
  | MP_Or "ident list" span
  | MP_Wildcard span
  | MP_Value "value_pattern list" span

subsection \<open>Expressions, blocks and statements\<close>

datatype bin_op = Op_Add | Op_Sub | Op_Mul | Op_Div | Op_Rem | Op_Eq | Op_Ne | Op_Lt | Op_Le
  | Op_Gt | Op_Ge | Op_And | Op_Or | Op_BitAnd | Op_BitOr | Op_BitXor | Op_Shl | Op_Shr

datatype un_op = Un_Neg | Un_Not | Un_BitNot

datatype expr = Expr expr_kind span
and expr_kind =
    E_Unit | E_Int int | E_Float f64 | E_Char nat | E_Str bytes | E_Bool bool | E_Path path
  | E_Unary un_op expr
  | E_Cast expr ty
  | E_Binary bin_op expr expr
  | E_Call expr "expr list"
  | E_FieldAccess expr ident
  | E_If expr block "expr option"
  | E_Block block
  | E_StructLit path "field_init list"
  | E_ElseUnwrap expr expr
  | E_Try expr
  | E_Loop block
  | E_Arena block
  | E_NamedArena ident block
  | E_FloatScope "ident list" block
  | E_Unsafe block
  | E_TaskGroup block
  | E_ArrayLit "expr list"
  | E_Index expr expr
  | E_SliceRange expr "expr option" "expr option"
  | E_FieldShorthand ident
  | E_Lambda "lambda_param list" block
  | E_Match expr "match_arm list"
  | E_Tuple "expr list"
  | E_TupleIndex expr nat
  | E_Template "template_part list"
and block = Block "stmt list" "expr option" span
and stmt =
    S_Let bool ident "ty option" expr "nat option"
  | S_LetTuple "ident option list" expr span
  | S_Assign expr expr
  | S_Return "expr option"
  | S_Break "expr option" span
  | S_Expr expr
and match_arm = Match_Arm match_pattern expr span
and template_part = TP_Text bytes | TP_Hole expr
and field_init = Field_Init ident expr span

definition kind_of :: "expr \<Rightarrow> expr_kind" where
  "kind_of e = (case e of Expr k _ \<Rightarrow> k)"

definition span_of :: "expr \<Rightarrow> span" where
  "span_of e = (case e of Expr _ sp \<Rightarrow> sp)"

definition block_span :: "block \<Rightarrow> span" where
  "block_span b = (case b of Block _ _ sp \<Rightarrow> sp)"

subsection \<open>Items\<close>

datatype fn_body = FB_Block block | FB_Expr expr

record fn_decl =
  fd_vis :: vis
  fd_name :: ident
  fd_type_params :: "type_param list"
  fd_params :: "param list"
  fd_ret :: "ty option"
  fd_body :: fn_body
  fd_span :: span

record test_decl =
  td_name :: bytes
  td_name_span :: span
  td_body :: block
  td_span :: span

record resource_decl =
  rd_vis :: vis
  rd_name :: ident
  rd_type_params :: "type_param list"
  rd_drop_hook :: path
  rd_span :: span

record extern_sig =
  es_name :: ident
  es_params :: "param list"
  es_ret :: "ty option"
  es_span :: span

record extern_block =
  eb_abi :: bytes
  eb_link :: "bytes option"
  eb_fns :: "extern_sig list"
  eb_span :: span

record const_decl =
  cd_vis :: vis
  cd_name :: ident
  cd_ty :: "ty option"
  cd_value :: expr
  cd_span :: span

record variant_def =
  vd_name :: ident
  vd_payload :: "ty list"
  vd_span :: span

record enum_decl =
  ed_vis :: vis
  ed_name :: ident
  ed_type_params :: "type_param list"
  ed_variants :: "variant_def list"
  ed_span :: span

record field_def =
  fl_name :: ident
  fl_ty :: ty
  fl_span :: span

record struct_decl =
  sd_vis :: vis
  sd_name :: ident
  sd_type_params :: "type_param list"
  sd_fields :: "field_def list"
  sd_align :: "nat option"
  sd_c_repr :: bool
  sd_span :: span

datatype item =
    It_Fn fn_decl
  | It_Test test_decl
  | It_Struct struct_decl
  | It_Enum enum_decl
  | It_Resource resource_decl
  | It_Const const_decl
  | It_Extern extern_block

record ast_file =
  af_module :: "path option"
  af_imports :: "path list"
  af_items :: "item list"

lemma expr_parts [simp]:
  "kind_of (Expr k sp) = k" "span_of (Expr k sp) = sp" "block_span (Block ss t sp) = sp"
  by (simp_all add: kind_of_def span_of_def block_span_def)

end
