(* ===== verification/Parser_Core.thy ===== *)
theory Parser_Core
  imports Decoded_Runs Ast
begin

section \<open>align\_parser: state, control flow and token access\<close>

text \<open>
  The parser of \<open>crates/align_parser/src/lib.rs\<close> is a set of methods on a mutable \<open>Parser\<close>, most
  of which return an \<open>Option\<close>. A method is a function from the state to an outcome: a value with
  the new state (\<open>POk\<close>), Rust's \<open>None\<close> with the new state (\<open>PNone\<close>, since diagnostics are kept),
  a panic (\<open>PPanic\<close>), or a bound on recursion or iteration that ran out (\<open>PFuel\<close>). \<open>bindP\<close> is
  the \<open>?\<close> operator.

  The second half sets up the specification every method satisfies: it keeps the token list,
  only moves forward, restores the depth and the struct-literal flag, only appends
  diagnostics, reports an error whenever it returns \<open>None\<close>, and never panics or runs out.
\<close>

declare One_nat_def [simp del]

subsection \<open>State and outcomes\<close>

record parser =
  ps_tokens :: "token list"
  ps_pos :: nat
  ps_diags :: diagnostics
  ps_no_struct_literal :: bool
  ps_depth :: nat
  ps_rejected :: "bytes list"

datatype 'a presult = POk 'a parser | PNone parser | PPanic | PFuel

type_synonym 'a pm = "parser \<Rightarrow> 'a presult"

definition retP :: "'a \<Rightarrow> 'a pm" where
  "retP a p = POk a p"

definition noneP :: "'a pm" where
  "noneP p = PNone p"

definition bindP :: "'a pm \<Rightarrow> ('a \<Rightarrow> 'b pm) \<Rightarrow> 'b pm" where
  "bindP m f p =
     (case m p of POk a q \<Rightarrow> f a q | PNone q \<Rightarrow> PNone q | PPanic \<Rightarrow> PPanic | PFuel \<Rightarrow> PFuel)"

definition seqP :: "'a pm \<Rightarrow> 'b pm \<Rightarrow> 'b pm" where
  "seqP m k = bindP m (\<lambda>_. k)"

text \<open>An \<open>Option\<close> that is kept as a value instead of being propagated.\<close>

definition attemptP :: "'a pm \<Rightarrow> 'a option pm" where
  "attemptP m p =
     (case m p of POk a q \<Rightarrow> POk (Some a) q | PNone q \<Rightarrow> POk None q | PPanic \<Rightarrow> PPanic | PFuel \<Rightarrow> PFuel)"

definition optP :: "'a option \<Rightarrow> 'a pm" where
  "optP o' = (case o' of Some a \<Rightarrow> retP a | None \<Rightarrow> noneP)"

text \<open>Reading the state: an index outside the token list is the panic.\<close>

definition readP :: "(parser \<Rightarrow> 'a pm) \<Rightarrow> 'a pm" where
  "readP f p = (if ps_pos p < length (ps_tokens p) then f p p else PPanic)"

text \<open>\<open>loop\<close>: \<open>Inl\<close> goes around again, \<open>Inr\<close> breaks. One turn per remaining token, and one more,
  is the bound.\<close>

primrec iterP :: "nat \<Rightarrow> ('s \<Rightarrow> ('s + 'r) pm) \<Rightarrow> 's \<Rightarrow> 'r pm" where
  "iterP 0 body s = (\<lambda>p. PFuel)"
| "iterP (Suc n) body s =
     bindP (body s) (\<lambda>r. case r of Inl s' \<Rightarrow> iterP n body s' | Inr v \<Rightarrow> retP v)"

definition loopP :: "('s \<Rightarrow> ('s + 'r) pm) \<Rightarrow> 's \<Rightarrow> 'r pm" where
  "loopP body s p = iterP (Suc (length (ps_tokens p) - ps_pos p)) body s p"

subsection \<open>Token access\<close>

definition reserved_words :: "(tok_kind \<times> bytes) list" where
  "reserved_words =
     [(Tk_Fn, ''fn''), (Tk_Return, ''return''), (Tk_Mut, ''mut''), (Tk_Pub, ''pub''),
      (Tk_Module, ''module''), (Tk_Import, ''import''), (Tk_If, ''if''), (Tk_Else, ''else''),
      (Tk_True, ''true''), (Tk_False, ''false''), (Tk_Arena, ''arena''), (Tk_FloatScope, ''float''),
      (Tk_TaskGroup, ''task_group''), (Tk_Match, ''match''), (Tk_Loop, ''loop''), (Tk_Break, ''break''),
      (Tk_Template, ''template''), (Tk_Unsafe, ''unsafe''), (Tk_Extern, ''extern''), (Tk_As, ''as'')]"

definition reserved_word :: "tok_kind \<Rightarrow> bytes option" where
  "reserved_word kind = map_of reserved_words kind"

definition as_ident :: "tok_kind \<Rightarrow> bytes option" where
  "as_ident k = (case k of Tk_Ident s \<Rightarrow> Some s | _ \<Rightarrow> None)"

definition as_str :: "tok_kind \<Rightarrow> bytes option" where
  "as_str k = (case k of Tk_Str s \<Rightarrow> Some s | _ \<Rightarrow> None)"

definition as_int :: "tok_kind \<Rightarrow> int option" where
  "as_int k = (case k of Tk_Int i \<Rightarrow> Some i | _ \<Rightarrow> None)"

definition as_float :: "tok_kind \<Rightarrow> f64 option" where
  "as_float k = (case k of Tk_Float f \<Rightarrow> Some f | _ \<Rightarrow> None)"

definition as_char :: "tok_kind \<Rightarrow> nat option" where
  "as_char k = (case k of Tk_Char c \<Rightarrow> Some c | _ \<Rightarrow> None)"

definition p_peek :: "parser \<Rightarrow> tok_kind" where
  "p_peek p = tk_kind (ps_tokens p ! ps_pos p)"

definition p_peek_at :: "parser \<Rightarrow> nat \<Rightarrow> tok_kind" where
  "p_peek_at p n = tk_kind (ps_tokens p ! min (ps_pos p + n) (length (ps_tokens p) - 1))"

definition is_identifier :: "tok_kind \<Rightarrow> bool" where
  "is_identifier k \<longleftrightarrow> as_ident k \<noteq> None \<or> reserved_word k \<noteq> None"

definition identifier_at :: "parser \<Rightarrow> nat \<Rightarrow> bool" where
  "identifier_at p offset \<longleftrightarrow> is_identifier (p_peek_at p offset)"

definition p_span :: "parser \<Rightarrow> span" where
  "p_span p = tk_span (ps_tokens p ! ps_pos p)"

definition p_prev_span :: "parser \<Rightarrow> span" where
  "p_prev_span p = tk_span (ps_tokens p ! (ps_pos p - 1))"

definition p_at :: "parser \<Rightarrow> tok_kind \<Rightarrow> bool" where
  "p_at p k \<longleftrightarrow> p_peek p = k"

definition p_at_stmt_end :: "parser \<Rightarrow> bool" where
  "p_at_stmt_end p \<longleftrightarrow> p_peek p = Tk_End \<or> p_peek p = Tk_Semicolon"

definition spanP :: "span pm" where
  "spanP = readP (\<lambda>p. retP (p_span p))"

definition prev_spanP :: "span pm" where
  "prev_spanP = readP (\<lambda>p. retP (p_prev_span p))"

definition bump :: "token pm" where
  "bump = readP (\<lambda>p q. POk (ps_tokens p ! ps_pos p)
     (if p_peek p \<noteq> Tk_Eof then q\<lparr>ps_pos := ps_pos q + 1\<rparr> else q))"

definition eat :: "tok_kind \<Rightarrow> bool pm" where
  "eat k = readP (\<lambda>p. if p_at p k then seqP bump (retP True) else retP False)"

definition errorP :: "string \<Rightarrow> span \<Rightarrow> unit pm" where
  "errorP msg sp p = POk () (p\<lparr>ps_diags := diag_error (ps_diags p) msg sp\<rparr>)"

text \<open>An error at the current token.\<close>

definition error_here :: "string \<Rightarrow> unit pm" where
  "error_here msg = bindP spanP (errorP msg)"

definition expect :: "tok_kind \<Rightarrow> string \<Rightarrow> bool pm" where
  "expect k what =
     bindP (eat k) (\<lambda>b. if b then retP True
       else seqP (error_here (''expected '' @ what)) (retP False))"

definition eat_stmt_end :: "bool pm" where
  "eat_stmt_end = readP (\<lambda>p. if p_at_stmt_end p then seqP bump (retP True) else retP False)"

definition skip_ends :: "unit pm" where
  "skip_ends = loopP (\<lambda>_. readP (\<lambda>p. if p_at_stmt_end p then seqP bump (retP (Inl ()))
     else retP (Inr ()))) ()"

definition expect_stmt_end :: "unit pm" where
  "expect_stmt_end = readP (\<lambda>p. if p_at_stmt_end p then skip_ends
     else if p_peek p \<noteq> Tk_RBrace \<and> p_peek p \<noteq> Tk_Eof
     then error_here ''expected a newline or `;` to separate statements''
     else retP ())"

text \<open>The token's payload, consuming it, when it has the wanted shape.\<close>

definition take_if :: "(tok_kind \<Rightarrow> 'a option) \<Rightarrow> 'a option pm" where
  "take_if f = readP (\<lambda>p. case f (p_peek p) of
     Some a \<Rightarrow> seqP bump (retP (Some a)) | None \<Rightarrow> retP None)"

text \<open>Discard tokens until one of the given kinds.\<close>

definition skip_until :: "tok_kind set \<Rightarrow> unit pm" where
  "skip_until ks = loopP (\<lambda>_. readP (\<lambda>p. if p_peek p \<in> ks then retP (Inr ())
     else seqP bump (retP (Inl ())))) ()"

text \<open>The span from a start to the token before the current one.\<close>

definition span_from :: "span \<Rightarrow> span pm" where
  "span_from start = bindP prev_spanP (\<lambda>e. retP (merge start e))"

subsection \<open>Identifiers and paths\<close>

definition mk_ident :: "bytes \<Rightarrow> span \<Rightarrow> ident" where
  "mk_ident n sp = \<lparr>id_name = n, id_span = sp\<rparr>"

definition reject_identifier :: "bytes \<Rightarrow> unit pm" where
  "reject_identifier word p = POk ()
     (if word \<in> set (ps_rejected p) then p else p\<lparr>ps_rejected := ps_rejected p @ [word]\<rparr>)"

definition parse_ident :: "string \<Rightarrow> ident pm" where
  "parse_ident what = readP (\<lambda>p.
     case as_ident (p_peek p) of
       Some name \<Rightarrow> seqP bump (retP (mk_ident name (p_span p)))
     | None \<Rightarrow>
         (case reserved_word (p_peek p) of
            Some word \<Rightarrow>
              seqP (errorP (''`'' @ word @ ''` is a reserved word and cannot be used as an identifier ('' @
                  what @ '')'') (p_span p))
              (seqP (reject_identifier word)
              (seqP bump (retP (mk_ident word (p_span p)))))
          | None \<Rightarrow> seqP (errorP (''expected '' @ what) (p_span p)) noneP))"

definition parse_referenced_ident :: "string \<Rightarrow> ident pm" where
  "parse_referenced_ident what = readP (\<lambda>p.
     case reserved_word (p_peek p) of
       Some word \<Rightarrow>
         if word \<in> set (ps_rejected p)
         then bindP bump (\<lambda>t. retP (mk_ident word (tk_span t)))
         else parse_ident what
     | None \<Rightarrow> parse_ident what)"

definition noninitial_path_segment_at :: "parser \<Rightarrow> nat \<Rightarrow> bool" where
  "noninitial_path_segment_at p offset \<longleftrightarrow> identifier_at p offset"

definition parse_noninitial_path_segment :: "string \<Rightarrow> ident pm" where
  "parse_noninitial_path_segment what = readP (\<lambda>p.
     if as_ident (p_peek p) \<noteq> None then parse_ident what
     else if p_peek p = Tk_Template then seqP bump (retP (mk_ident ''template'' (p_span p)))
     else parse_referenced_ident what)"

definition opt_snoc :: "'a list \<Rightarrow> 'a option \<Rightarrow> 'a list" where
  "opt_snoc xs o' = (case o' of Some x \<Rightarrow> xs @ [x] | None \<Rightarrow> xs)"

definition path_rest :: "span \<Rightarrow> ident option \<Rightarrow> path pm" where
  "path_rest start first =
     bindP (loopP (\<lambda>segs. readP (\<lambda>p.
         if p_at p Tk_Dot \<and> noninitial_path_segment_at p 1 then
           seqP bump
           (bindP (attemptP (parse_noninitial_path_segment ''identifier'')) (\<lambda>o'.
            retP (Inl (opt_snoc segs o'))))
         else retP (Inr segs))) (opt_snoc [] first)) (\<lambda>segs.
     bindP (span_from start) (\<lambda>sp. retP \<lparr>path_segments = segs, path_span = sp\<rparr>))"

definition parse_path :: "path pm" where
  "parse_path = readP (\<lambda>p. bindP (attemptP (parse_ident ''identifier'')) (path_rest (p_span p)))"

text \<open>\<open>parse_path\<close> where a path without segments is \<open>None\<close>: its callers return there, and the missing
  identifier has been reported.\<close>

definition parse_path_some :: "path pm" where
  "parse_path_some =
     bindP parse_path (\<lambda>path. if path_segments path = [] then noneP else retP path)"

subsection \<open>Well-formed states\<close>

text \<open>What the lexer hands over: one \<open>Eof\<close>, at the end, and string contents that are valid UTF-8
  (the invariant of Rust's \<open>String\<close>).\<close>

definition stream_ok :: "token list \<Rightarrow> bool" where
  "stream_ok ts \<longleftrightarrow> ts \<noteq> [] \<and> tk_kind (last ts) = Tk_Eof \<and>
     (\<forall>t\<in>set (butlast ts). tk_kind t \<noteq> Tk_Eof) \<and>
     (\<forall>t\<in>set ts. \<forall>s. as_str (tk_kind t) = Some s \<longrightarrow> valid_utf8 s)"

definition ps_wf :: "parser \<Rightarrow> bool" where
  "ps_wf p \<longleftrightarrow> stream_ok (ps_tokens p) \<and> ps_pos p < length (ps_tokens p)"

text \<open>
  The weight of what is left bounds recursion. A token weighs one, a string token more, because
  a template lexes and parses its contents again: a backslash weighs two, any other scalar one.
\<close>

definition byte_weight :: "byte \<Rightarrow> nat" where
  "byte_weight b = (if b = CHR 0x5C then 2 else if is_cont b then 0 else 1)"

definition str_weight :: "bytes \<Rightarrow> nat" where
  "str_weight s = sum_list (map byte_weight s)"

definition tok_weight :: "token \<Rightarrow> nat" where
  "tok_weight t = (case as_str (tk_kind t) of Some s \<Rightarrow> 1 + 2 * str_weight s | None \<Rightarrow> 1)"

definition weight :: "parser \<Rightarrow> nat" where
  "weight p = sum_list (map tok_weight (drop (ps_pos p) (ps_tokens p)))"

lemma tok_weight_pos [simp]: "0 < tok_weight t"
  by (simp add: tok_weight_def split: option.split)

lemma weight_mono:
  assumes "ps_tokens q = ps_tokens p" "ps_pos p \<le> ps_pos q"
  shows "weight q \<le> weight p"
proof -
  have "drop (ps_pos p) (ps_tokens p) =
      take (ps_pos q - ps_pos p) (drop (ps_pos p) (ps_tokens p)) @ drop (ps_pos q) (ps_tokens q)"
    using assms
    by (metis append_take_drop_id drop_drop le_add_diff_inverse2)
  then have "sum_list (map tok_weight (drop (ps_pos p) (ps_tokens p))) =
      sum_list (map tok_weight (take (ps_pos q - ps_pos p) (drop (ps_pos p) (ps_tokens p)))) + weight q"
    unfolding weight_def by (metis map_append sum_list_append)
  then show ?thesis by (simp add: weight_def)
qed

lemma weight_strict:
  assumes "ps_tokens q = ps_tokens p" "ps_pos p < ps_pos q" "ps_pos p < length (ps_tokens p)"
  shows "weight q < weight p"
proof -
  have "drop (ps_pos p) (ps_tokens p) = ps_tokens p ! ps_pos p # drop (Suc (ps_pos p)) (ps_tokens p)"
    using assms(3) by (simp add: Cons_nth_drop_Suc)
  then have "weight p = tok_weight (ps_tokens p ! ps_pos p) + weight (p\<lparr>ps_pos := Suc (ps_pos p)\<rparr>)"
    by (simp add: weight_def)
  moreover have "weight q \<le> weight (p\<lparr>ps_pos := Suc (ps_pos p)\<rparr>)"
    using assms by (intro weight_mono) simp_all
  ultimately show ?thesis using tok_weight_pos [of "ps_tokens p ! ps_pos p"] by linarith
qed

lemma ps_wf_not_eof:
  assumes "ps_wf p" "p_peek p \<noteq> Tk_Eof"
  shows "ps_pos p + 1 < length (ps_tokens p)"
proof (rule ccontr)
  assume "\<not> ?thesis"
  then have "ps_pos p = length (ps_tokens p) - 1" using assms(1) by (auto simp: ps_wf_def)
  then have "p_peek p = tk_kind (last (ps_tokens p))"
    using assms(1) by (simp add: p_peek_def ps_wf_def stream_ok_def last_conv_nth)
  with assms show False by (simp add: ps_wf_def stream_ok_def)
qed

subsection \<open>The specification of a method\<close>

definition pstep :: "parser \<Rightarrow> parser \<Rightarrow> bool" where
  "pstep p q \<longleftrightarrow> ps_tokens q = ps_tokens p \<and> ps_pos p \<le> ps_pos q \<and> ps_wf q \<and>
     ps_no_struct_literal q = ps_no_struct_literal p \<and> ps_depth q = ps_depth p \<and>
     (\<exists>es. ps_diags q = ps_diags p @ es)"

definition reported :: "parser \<Rightarrow> parser \<Rightarrow> bool" where
  "reported p q \<longleftrightarrow> error_count (ps_diags p) < error_count (ps_diags q)"

text \<open>
  \<open>outcome C n p r\<close>: the outcome \<open>r\<close> of a method run from \<open>p\<close> is as specified, provided at most
  weight \<open>n\<close> is left. A result \<open>a\<close> with \<open>C a\<close> has consumed a token.
\<close>

definition outcome :: "('a \<Rightarrow> bool) \<Rightarrow> nat \<Rightarrow> parser \<Rightarrow> 'a presult \<Rightarrow> bool" where
  "outcome C n p r \<longleftrightarrow> (ps_wf p \<and> weight p \<le> n \<longrightarrow>
     (case r of
        POk a q \<Rightarrow> pstep p q \<and> (C a \<longrightarrow> ps_pos p < ps_pos q)
      | PNone q \<Rightarrow> pstep p q \<and> reported p q
      | PPanic \<Rightarrow> False
      | PFuel \<Rightarrow> False))"

definition meets :: "('a \<Rightarrow> bool) \<Rightarrow> nat \<Rightarrow> 'a pm \<Rightarrow> bool" where
  "meets C n m \<longleftrightarrow> (\<forall>p. outcome C n p (m p))"

abbreviation always :: "'a \<Rightarrow> bool" where
  "always \<equiv> \<lambda>_. True"

abbreviation maybe :: "'a \<Rightarrow> bool" where
  "maybe \<equiv> \<lambda>_. False"

named_theorems meets_rules \<open>syntax-directed rules for the specification\<close>

lemma pstep_refl: "ps_wf p \<Longrightarrow> pstep p p"
  and pstep_trans: "pstep p q \<Longrightarrow> pstep q r \<Longrightarrow> pstep p r"
  by (auto simp: pstep_def)

lemma reported_mono: "reported p q \<Longrightarrow> pstep q r \<Longrightarrow> reported p r"
  and reported_mono': "pstep p q \<Longrightarrow> reported q r \<Longrightarrow> reported p r"
  by (auto simp: reported_def pstep_def)

lemma pstep_weight: "pstep p q \<Longrightarrow> weight q \<le> weight p"
  by (auto simp: pstep_def intro: weight_mono)

lemma pstep_weight_less: "ps_wf p \<Longrightarrow> pstep p q \<Longrightarrow> ps_pos p < ps_pos q \<Longrightarrow> weight q < weight p"
  by (auto simp: pstep_def ps_wf_def intro: weight_strict)

lemma outcome_POk: "(ps_wf p \<Longrightarrow> weight p \<le> n \<Longrightarrow> pstep p q \<and> (C a \<longrightarrow> ps_pos p < ps_pos q)) \<Longrightarrow>
    outcome C n p (POk a q)"
  by (simp add: outcome_def)

lemma outcome_weaken:
  "outcome C n p r \<Longrightarrow> (\<And>a. C' a \<Longrightarrow> C a) \<Longrightarrow> n' \<le> n \<Longrightarrow> outcome C' n' p r"
  by (auto simp: outcome_def split: presult.splits)

lemma meets_weaken: "meets C n m \<Longrightarrow> (\<And>a. C' a \<Longrightarrow> C a) \<Longrightarrow> n' \<le> n \<Longrightarrow> meets C' n' m"
  by (auto simp: meets_def intro: outcome_weaken)

lemma meets_outcome: "meets C n m \<Longrightarrow> outcome C n p (m p)"
  by (simp add: meets_def)

lemma outcome_chain:
  assumes st: "pstep p q" and r: "outcome C' n' q r" and w: "weight q \<le> n'"
    and c: "\<And>a. C a \<Longrightarrow> C' a \<or> ps_pos p < ps_pos q"
  shows "outcome C n p r"
proof -
  have wq: "ps_wf q" using st by (simp add: pstep_def)
  show ?thesis
  proof (cases r)
    case (POk a s)
    with r w wq have "pstep q s" "C' a \<Longrightarrow> ps_pos q < ps_pos s" by (simp_all add: outcome_def)
    moreover from this(1) have "pstep p s" using st by (rule pstep_trans [rotated])
    moreover have "ps_pos p \<le> ps_pos q" "ps_pos q \<le> ps_pos s"
      using st calculation by (simp_all add: pstep_def)
    ultimately show ?thesis using c [of a] POk by (fastforce simp: outcome_def)
  next
    case (PNone s)
    with r w wq have "pstep q s" "reported q s" by (simp_all add: outcome_def)
    with st PNone show ?thesis
      by (simp add: outcome_def pstep_trans [OF st] reported_mono' [OF st])
  qed (use r w wq in \<open>simp_all add: outcome_def\<close>)
qed

lemma outcome_bind:
  assumes "outcome C1 n p (m p)"
    and "\<And>a. C1 a \<Longrightarrow> meets maybe (n - 1) (f a)"
    and "\<And>a. \<not> C1 a \<Longrightarrow> meets C2 n (f a)"
  shows "outcome C2 n p (bindP m f p)"
proof (cases "ps_wf p \<and> weight p \<le> n")
  case True
  have step: "outcome C2 n p (f a q)" if "m p = POk a q" for a q
  proof -
    from assms(1) that True have st: "pstep p q" and c: "C1 a \<Longrightarrow> ps_pos p < ps_pos q"
      by (simp_all add: outcome_def)
    show ?thesis
    proof (cases "C1 a")
      case c1: True
      have "weight q \<le> n - 1" using pstep_weight_less [OF _ st c [OF c1]] True by auto
      then show ?thesis
        using outcome_chain [OF st meets_outcome [OF assms(2) [OF c1]]] c [OF c1] by simp
    next
      case False
      have "weight q \<le> n" using pstep_weight [OF st] True by simp
      then show ?thesis
        using outcome_chain [OF st meets_outcome [OF assms(3) [OF False]]] by simp
    qed
  qed
  show ?thesis
    using assms(1) True step by (cases "m p") (simp_all add: bindP_def outcome_def)
next
  case False
  then show ?thesis by (auto simp: outcome_def)
qed

subsection \<open>Rules for the control operators\<close>

lemma meetsI: "(\<And>p. ps_wf p \<Longrightarrow> outcome C n p (m p)) \<Longrightarrow> meets C n m"
  by (auto simp: meets_def outcome_def)

lemma outcome_meets: "meets C n m \<Longrightarrow> outcome C n p (m p)"
  by (rule meets_outcome)

lemma meets_ret [meets_rules]: "\<not> C a \<Longrightarrow> meets C n (retP a)"
  by (simp add: meets_def outcome_def retP_def pstep_refl)

lemma outcome_ret [meets_rules]: "\<not> C a \<Longrightarrow> outcome C n p (retP a p)"
  by (simp add: outcome_def retP_def pstep_refl)

lemma meets_bind [meets_rules]:
  assumes "meets C1 n m" "\<And>a. C1 a \<Longrightarrow> meets maybe (n - 1) (f a)"
    and "\<And>a. \<not> C1 a \<Longrightarrow> meets C2 n (f a)"
  shows "meets C2 n (bindP m f)"
  unfolding meets_def by (intro allI outcome_bind [OF meets_outcome [OF assms(1)]] assms(2,3))

lemma outcome_seq [meets_rules]:
  assumes "outcome C1 n p (m p)" "\<And>a. C1 a \<Longrightarrow> meets maybe (n - 1) k"
    and "\<And>a. \<not> C1 a \<Longrightarrow> meets C2 n k"
  shows "outcome C2 n p (seqP m k p)"
  unfolding seqP_def by (rule outcome_bind [where ?C1.0 = C1]) (fact assms)+

lemma meets_seq [meets_rules]:
  assumes "meets C1 n m" "\<And>a. C1 a \<Longrightarrow> meets maybe (n - 1) k"
    and "\<And>a. \<not> C1 a \<Longrightarrow> meets C2 n k"
  shows "meets C2 n (seqP m k)"
  unfolding seqP_def by (rule meets_bind [where ?C1.0 = C1]) (fact assms)+

lemma outcome_read [meets_rules]:
  "(ps_wf p \<Longrightarrow> outcome C n p (f p p)) \<Longrightarrow> outcome C n p (readP f p)"
  by (auto simp: outcome_def readP_def ps_wf_def)

lemma meets_read [meets_rules]:
  "(\<And>p. ps_wf p \<Longrightarrow> outcome C n p (f p p)) \<Longrightarrow> meets C n (readP f)"
  unfolding meets_def by (intro allI outcome_read)

lemma outcome_if [meets_rules]:
  "(b \<Longrightarrow> outcome C n p (m p)) \<Longrightarrow> (\<not> b \<Longrightarrow> outcome C n p (k p)) \<Longrightarrow>
   outcome C n p ((if b then m else k) p)"
  by simp

lemma meets_if [meets_rules]:
  "(b \<Longrightarrow> meets C n m) \<Longrightarrow> (\<not> b \<Longrightarrow> meets C n k) \<Longrightarrow> meets C n (if b then m else k)"
  by simp

lemma outcome_option [meets_rules]:
  "(o' = None \<Longrightarrow> outcome C n p (m p)) \<Longrightarrow> (\<And>x. o' = Some x \<Longrightarrow> outcome C n p (f x p)) \<Longrightarrow>
   outcome C n p ((case o' of None \<Rightarrow> m | Some x \<Rightarrow> f x) p)"
  by (cases o') simp_all

lemma meets_option [meets_rules]:
  "(o' = None \<Longrightarrow> meets C n m) \<Longrightarrow> (\<And>x. o' = Some x \<Longrightarrow> meets C n (f x)) \<Longrightarrow>
   meets C n (case o' of None \<Rightarrow> m | Some x \<Rightarrow> f x)"
  by (cases o') simp_all

lemma meets_pair [meets_rules]:
  "(\<And>a b. x = (a, b) \<Longrightarrow> meets C n (f a b)) \<Longrightarrow> meets C n (case x of (a, b) \<Rightarrow> f a b)"
  by (cases x) simp

lemma meets_let [meets_rules]: "meets C n (f x) \<Longrightarrow> meets C n (Let x f)"
  by simp

lemma outcome_let [meets_rules]: "outcome C n p (f x p) \<Longrightarrow> outcome C n p (Let x f p)"
  by simp

lemma meets_attempt [meets_rules]:
  "meets C n m \<Longrightarrow> meets (\<lambda>o'. case o' of Some a \<Rightarrow> C a | None \<Rightarrow> False) n (attemptP m)"
  by (auto simp: meets_def outcome_def attemptP_def split: presult.splits dest!: spec)

lemma outcome_iter:
  assumes body: "\<And>s. meets isl n (body s)"
  shows "length (ps_tokens p) - ps_pos p < k \<Longrightarrow> outcome maybe n p (iterP k body s p)"
proof (induction k arbitrary: s p)
  case (Suc k)
  note b = meets_outcome [OF body, of p s]
  show ?case
  proof (cases "ps_wf p \<and> weight p \<le> n")
    case True
    show ?thesis
    proof (cases "body s p")
      case (POk r q)
      with b True have st: "pstep p q" and c: "isl r \<Longrightarrow> ps_pos p < ps_pos q"
        by (simp_all add: outcome_def)
      show ?thesis
      proof (cases r)
        case (Inl s')
        have "length (ps_tokens q) - ps_pos q < k"
          using c st Suc.prems Inl by (auto simp: pstep_def ps_wf_def)
        moreover have "weight q \<le> n" using pstep_weight [OF st] True by simp
        ultimately have "outcome maybe n p (iterP k body s' q)"
          using outcome_chain [OF st Suc.IH] by simp
        with POk Inl show ?thesis by (simp add: bindP_def)
      next
        case (Inr v)
        with POk st show ?thesis by (simp add: bindP_def outcome_def retP_def)
      qed
    qed (use b True in \<open>simp_all add: outcome_def bindP_def\<close>)
  next
    case False
    then show ?thesis by (auto simp: outcome_def)
  qed
qed simp

lemma meets_loop [meets_rules]:
  assumes "\<And>s. meets isl n (body s)"
  shows "meets maybe n (loopP body s)"
proof (rule meetsI)
  show "outcome maybe n p (loopP body s p)" for p
    unfolding loopP_def by (rule outcome_iter [OF assms]) simp
qed

subsection \<open>Rules for token access\<close>

lemma outcome_bump [meets_rules]:
  assumes "p_peek p \<noteq> Tk_Eof" shows "outcome always n p (bump p)"
proof -
  have "ps_wf (p\<lparr>ps_pos := ps_pos p + 1\<rparr>)" if "ps_wf p"
    using ps_wf_not_eof [OF that assms] that by (simp add: ps_wf_def)
  with assms show ?thesis
    by (simp add: outcome_def bump_def readP_def pstep_def ps_wf_def)
qed

lemma meets_bump [meets_rules]: "meets (\<lambda>t. tk_kind t \<noteq> Tk_Eof) n bump"
proof (rule meetsI)
  fix p assume wf: "ps_wf p"
  show "outcome (\<lambda>t. tk_kind t \<noteq> Tk_Eof) n p (bump p)"
  proof (cases "p_peek p = Tk_Eof")
    case True
    then show ?thesis
      by (simp add: outcome_def bump_def readP_def ps_wf_def pstep_refl p_peek_def)
  next
    case False
    from outcome_bump [OF this, of n] show ?thesis by (rule outcome_weaken) simp_all
  qed
qed

lemma meets_span [meets_rules]: "meets maybe n spanP"
  and meets_prev_span [meets_rules]: "meets maybe n prev_spanP"
  unfolding spanP_def prev_spanP_def by (rule meets_rules; simp add: meets_rules)+

lemma meets_eat [meets_rules]: "k \<noteq> Tk_Eof \<Longrightarrow> meets (\<lambda>b. b) n (eat k)"
  unfolding eat_def
  by (rule meets_rules outcome_bump | simp add: p_at_def)+

lemma pstep_error: "ps_wf p \<Longrightarrow> pstep p (p\<lparr>ps_diags := diag_error (ps_diags p) msg sp\<rparr>)"
  by (simp add: pstep_def ps_wf_def diag_error_eq)

lemma meets_error [meets_rules]: "meets maybe n (errorP msg sp)"
  by (simp add: meets_def outcome_def errorP_def pstep_error)

lemma meets_error_here [meets_rules]: "meets maybe n (error_here msg)"
  unfolding error_here_def by (rule meets_rules | simp)+

lemma meets_expect [meets_rules]: "k \<noteq> Tk_Eof \<Longrightarrow> meets (\<lambda>b. b) n (expect k what)"
  unfolding expect_def by (rule meets_rules | simp)+

lemma meets_eat_stmt_end [meets_rules]: "meets (\<lambda>b. b) n eat_stmt_end"
  unfolding eat_stmt_end_def by (rule meets_rules | force simp: p_at_stmt_end_def)+

lemma meets_skip_ends [meets_rules]: "meets maybe n skip_ends"
  unfolding skip_ends_def by (rule meets_rules | force simp: p_at_stmt_end_def)+

lemma meets_expect_stmt_end [meets_rules]: "meets maybe n expect_stmt_end"
  unfolding expect_stmt_end_def by (rule meets_rules outcome_meets | simp)+

lemma meets_take_if [meets_rules]:
  assumes "f Tk_Eof = None" shows "meets (\<lambda>r. r \<noteq> None) n (take_if f)"
  unfolding take_if_def by (rule meets_rules | use assms in force)+

lemma meets_skip_until [meets_rules]: "Tk_Eof \<in> ks \<Longrightarrow> meets maybe n (skip_until ks)"
  unfolding skip_until_def by (rule meets_rules | force)+

lemma meets_span_from [meets_rules]: "meets maybe n (span_from sp)"
  unfolding span_from_def by (rule meets_rules | simp)+

text \<open>An error followed by \<open>return None\<close>.\<close>

definition failP :: "string \<Rightarrow> span \<Rightarrow> 'a pm" where
  "failP msg sp = seqP (errorP msg sp) noneP"

definition fail_here :: "string \<Rightarrow> 'a pm" where
  "fail_here msg = seqP (error_here msg) noneP"

lemma meets_fail [meets_rules]: "meets C n (failP msg sp)"
  by (simp add: meets_def outcome_def failP_def seqP_def bindP_def errorP_def noneP_def
      pstep_error reported_def)

lemma meets_fail_here [meets_rules]: "meets C n (fail_here msg)"
  by (auto simp: meets_def outcome_def fail_here_def error_here_def spanP_def readP_def retP_def
      seqP_def bindP_def errorP_def noneP_def pstep_error reported_def ps_wf_def)

lemma meets_reject [meets_rules]: "meets maybe n (reject_identifier w)"
  by (simp add: meets_def outcome_def reject_identifier_def pstep_def ps_wf_def)

lemma as_none_eof [simp]:
  "as_ident Tk_Eof = None" "as_str Tk_Eof = None" "as_int Tk_Eof = None" "as_float Tk_Eof = None"
  "as_char Tk_Eof = None" "reserved_word Tk_Eof = None"
  by (simp_all add: as_ident_def as_str_def as_int_def as_float_def as_char_def reserved_word_def
      reserved_words_def)

lemma meets_reject_bump:
  assumes "p_peek p \<noteq> Tk_Eof"
  shows "outcome always n p (seqP (errorP msg sp) (seqP (reject_identifier w)
    (seqP bump (retP a))) p)"
proof -
  obtain q where q: "reject_identifier w (p\<lparr>ps_diags := diag_error (ps_diags p) msg sp\<rparr>) = POk () q"
    and eq: "ps_tokens q = ps_tokens p" "ps_pos q = ps_pos p"
    and st: "ps_wf p \<Longrightarrow> pstep p q"
    by (auto simp: reject_identifier_def pstep_def ps_wf_def diag_error_eq)
  have "p_peek q \<noteq> Tk_Eof" using assms eq by (simp add: p_peek_def)
  note nb = outcome_bump [OF this]
  have o: "outcome always n q (seqP bump (retP a) q)"
    by (rule nb meets_rules | simp)+
  show ?thesis
  proof (cases "ps_wf p \<and> weight p \<le> n")
    case True
    then have "pstep p q" using st by simp
    moreover have "weight q \<le> n" using True eq by (simp add: weight_def)
    ultimately have "outcome always n p (seqP bump (retP a) q)"
      using outcome_chain o by blast
    then show ?thesis using q by (simp add: seqP_def [of "errorP _ _"] bindP_def errorP_def
        seqP_def [of "reject_identifier _"])
  next
    case False
    then show ?thesis by (auto simp: outcome_def)
  qed
qed

lemma meets_parse_ident [meets_rules]: "meets always n (parse_ident what)"
  unfolding parse_ident_def failP_def [symmetric]
  by (rule meets_rules meets_reject_bump outcome_meets [OF meets_fail] | force)+

lemma meets_parse_referenced_ident [meets_rules]: "meets always n (parse_referenced_ident what)"
  unfolding parse_referenced_ident_def
  by (rule meets_rules outcome_bind outcome_meets [OF meets_parse_ident] | force)+

lemma meets_parse_noninitial [meets_rules]: "meets always n (parse_noninitial_path_segment what)"
  unfolding parse_noninitial_path_segment_def
  by (rule meets_rules outcome_meets [OF meets_parse_ident]
      outcome_meets [OF meets_parse_referenced_ident] | force)+

lemma meets_path_rest [meets_rules]: "meets maybe n (path_rest start first)"
  unfolding path_rest_def by (rule meets_rules | force simp: p_at_def)+

lemma meets_parse_path [meets_rules]: "meets maybe n parse_path"
  unfolding parse_path_def
  by (rule meets_rules outcome_bind outcome_meets [OF meets_attempt [OF meets_parse_ident]] | force)+

subsection \<open>After an error\<close>

text \<open>Once an error is reported, a later \<open>None\<close> needs no error of its own.\<close>

definition tolerates :: "nat \<Rightarrow> parser \<Rightarrow> 'a presult \<Rightarrow> bool" where
  "tolerates n p r \<longleftrightarrow> (ps_wf p \<and> weight p \<le> n \<longrightarrow>
     (case r of POk a q \<Rightarrow> pstep p q | PNone q \<Rightarrow> pstep p q | PPanic \<Rightarrow> False | PFuel \<Rightarrow> False))"

definition lenient :: "nat \<Rightarrow> 'a pm \<Rightarrow> bool" where
  "lenient n m \<longleftrightarrow> (\<forall>p. tolerates n p (m p))"

lemma lenient_none: "lenient n noneP"
  by (simp add: lenient_def tolerates_def noneP_def pstep_refl)

lemma lenient_meets: "meets C n m \<Longrightarrow> lenient n m"
  by (auto simp: lenient_def meets_def tolerates_def outcome_def split: presult.splits dest!: spec)

lemma lenient_bind:
  assumes m: "lenient n m" and f: "\<And>a. lenient n (f a)"
  shows "lenient n (bindP m f)"
  unfolding lenient_def
proof
  fix p
  show "tolerates n p (bindP m f p)"
  proof (cases "ps_wf p \<and> weight p \<le> n")
    case True
    show ?thesis
    proof (cases "m p")
      case (POk a q)
      with m True have st: "pstep p q" by (auto simp: lenient_def tolerates_def dest!: spec [of _ p])
      then have "ps_wf q" "weight q \<le> n" using pstep_weight [OF st] True by (auto simp: pstep_def)
      with f [of a] have "tolerates n q (f a q)" by (simp add: lenient_def)
      with \<open>ps_wf q\<close> \<open>weight q \<le> n\<close> POk show ?thesis
        by (auto simp: bindP_def tolerates_def split: presult.splits intro: pstep_trans [OF st])
    qed (use m True in \<open>auto simp: lenient_def tolerates_def bindP_def dest!: spec [of _ p]\<close>)
  qed (auto simp: tolerates_def)
qed

lemma lenient_seq: "lenient n m \<Longrightarrow> lenient n k \<Longrightarrow> lenient n (seqP m k)"
  unfolding seqP_def by (rule lenient_bind)

lemma outcome_tolerated:
  "pstep p q \<Longrightarrow> reported p q \<Longrightarrow> weight q \<le> n \<Longrightarrow> tolerates n q r \<Longrightarrow> outcome maybe n p r"
  by (cases r) (auto simp: tolerates_def outcome_def pstep_def [of p q]
      intro: pstep_trans [of p q] reported_mono)

lemma meets_error_then:
  assumes "lenient n k" shows "meets maybe n (seqP (errorP msg sp) k)"
  unfolding meets_def
proof
  fix p :: parser
  let ?q = "p\<lparr>ps_diags := diag_error (ps_diags p) msg sp\<rparr>"
  show "outcome maybe n p (seqP (errorP msg sp) k p)"
  proof (cases "ps_wf p \<and> weight p \<le> n")
    case True
    then have "pstep p ?q" "reported p ?q" "weight ?q \<le> n"
      by (simp_all add: pstep_error reported_def weight_def)
    moreover have "tolerates n ?q (k ?q)" using assms by (simp add: lenient_def)
    ultimately show ?thesis
      by (simp add: seqP_def bindP_def errorP_def outcome_tolerated)
  qed (auto simp: outcome_def)
qed

subsection \<open>Facts about a result alone\<close>

definition yields :: "('a \<Rightarrow> bool) \<Rightarrow> 'a pm \<Rightarrow> bool" where
  "yields Q m \<longleftrightarrow> (\<forall>p a q. m p = POk a q \<longrightarrow> Q a)"

named_theorems yields_rules \<open>syntax-directed rules for results\<close>

lemma yieldsD: "yields Q m \<Longrightarrow> m p = POk a q \<Longrightarrow> Q a"
  by (auto simp: yields_def)

lemma yields_ret [yields_rules]: "Q a \<Longrightarrow> yields Q (retP a)"
  by (simp add: yields_def retP_def)

lemma yields_bind_fact: "yields Q1 m \<Longrightarrow> (\<And>a. Q1 a \<Longrightarrow> yields Q (f a)) \<Longrightarrow> yields Q (bindP m f)"
  unfolding yields_def [of Q "bindP m f"] bindP_def
  by (auto split: presult.splits dest: yieldsD)

lemma yields_bind [yields_rules]: "(\<And>a. yields Q (f a)) \<Longrightarrow> yields Q (bindP m f)"
  by (rule yields_bind_fact [where ?Q1.0 = always]) (simp_all add: yields_def)

lemma yields_seq [yields_rules]: "yields Q k \<Longrightarrow> yields Q (seqP m k)"
  unfolding seqP_def by (rule yields_bind)

lemma yields_read [yields_rules]: "(\<And>p. yields Q (f p)) \<Longrightarrow> yields Q (readP f)"
  by (auto simp: yields_def readP_def)

lemma yields_if [yields_rules]:
  "(b \<Longrightarrow> yields Q m) \<Longrightarrow> (\<not> b \<Longrightarrow> yields Q k) \<Longrightarrow> yields Q (if b then m else k)"
  by simp

lemma yields_iter:
  assumes body: "\<And>s. J s \<Longrightarrow> yields (\<lambda>r. case r of Inl s' \<Rightarrow> J s' | Inr v \<Rightarrow> Q v) (body s)"
  shows "J s \<Longrightarrow> yields Q (iterP k body s)"
proof (induction k arbitrary: s)
  case 0
  then show ?case by (simp add: yields_def)
next
  case (Suc k)
  show ?case
    unfolding iterP.simps
    by (rule yields_bind_fact [OF body [OF Suc.prems]]) (auto split: sum.splits intro: Suc.IH yields_ret)
qed

lemma yields_loop:
  assumes body: "\<And>s. J s \<Longrightarrow> yields (\<lambda>r. case r of Inl s' \<Rightarrow> J s' | Inr v \<Rightarrow> Q v) (body s)" and "J s"
  shows "yields Q (loopP body s)"
proof -
  have "Q a" if "loopP body s p = POk a q" for p a q
    by (rule yieldsD [OF yields_iter [where J = J, OF body assms(2)]]) (use that in \<open>simp_all only: loopP_def\<close>)
  then show ?thesis by (auto simp: yields_def)
qed

lemma opt_snoc_nonempty [simp]: "opt_snoc xs (Some x) \<noteq> []" "xs \<noteq> [] \<Longrightarrow> opt_snoc xs o' \<noteq> []"
  by (auto simp: opt_snoc_def split: option.splits)

lemma yields_path_rest: "yields (\<lambda>path. path_segments path \<noteq> []) (path_rest start (Some i))"
  unfolding path_rest_def
proof (rule yields_bind_fact [OF yields_loop [where J = "\<lambda>s. s \<noteq> []" and Q = "\<lambda>s. s \<noteq> []"]])
qed (rule yields_rules | simp)+

lemma meets_parse_path_some [meets_rules]: "meets maybe n parse_path_some"
proof (rule meetsI)
  fix p assume wf: "ps_wf p"
  let ?id = "parse_ident ''identifier''" and ?rest = "path_rest (p_span p)"
  let ?g = "\<lambda>path. if path_segments path = [] then noneP else retP path"
  have eq: "parse_path_some p = bindP (bindP (attemptP ?id) ?rest) ?g p"
    using wf by (simp add: parse_path_some_def parse_path_def bindP_def readP_def ps_wf_def)
  note id = meets_outcome [OF meets_parse_ident [of n "''identifier''"], of p]
  show "outcome maybe n p (parse_path_some p)"
  proof (cases "weight p \<le> n")
    case True
    show ?thesis
    proof (cases "?id p")
      case (POk i q)
      then have st: "pstep p q" and w: "weight q \<le> n"
        using id wf True pstep_weight [of p q] by (auto simp: outcome_def)
      have "bindP (?rest (Some i)) ?g q = ?rest (Some i) q"
        using yieldsD [OF yields_path_rest]
        by (cases "?rest (Some i) q") (auto simp: bindP_def retP_def)
      moreover have "outcome maybe n p (?rest (Some i) q)"
        by (rule outcome_chain [OF st meets_outcome [OF meets_path_rest] w]) simp
      ultimately show ?thesis unfolding eq using POk by (simp add: bindP_def attemptP_def)
    next
      case (PNone q)
      then have q: "pstep p q" "reported p q" "weight q \<le> n"
        using id wf True pstep_weight [of p q] by (auto simp: outcome_def)
      have "lenient n (bindP (?rest None) ?g)"
        by (rule lenient_bind lenient_meets [OF meets_path_rest])+
          (auto intro: lenient_none lenient_meets [OF meets_ret])
      then have "outcome maybe n p (bindP (?rest None) ?g q)"
        by (intro outcome_tolerated [OF q]) (simp add: lenient_def)
      then show ?thesis unfolding eq using PNone by (simp add: bindP_def attemptP_def)
    qed (use id wf True in \<open>simp_all add: outcome_def\<close>)
  qed (simp add: outcome_def)
qed

subsection \<open>The parser's reserved words and the lexer's keywords\<close>

lemma keywords_of_reserved:
  "list_all (\<lambda>(k, w). keyword_kind w = k \<and> as_ident k = None) reserved_words"
  and reserved_of_keywords: "list_all (\<lambda>(w, k). map_of reserved_words k = Some w) keyword_table"
  by code_simp+

text \<open>
  C29. The words the parser rejects as names are exactly the words the lexer does not read as
  names, and each stands for the token the lexer makes of it: the two tables are inverse.
\<close>

theorem reserved_word_keyword:
  "reserved_word k = Some w \<longleftrightarrow> keyword_kind w = k \<and> as_ident k = None"
proof
  assume "reserved_word k = Some w"
  then have "(k, w) \<in> set reserved_words" by (simp add: reserved_word_def map_of_SomeD)
  then show "keyword_kind w = k \<and> as_ident k = None"
    using keywords_of_reserved by (auto simp: list_all_iff)
next
  assume "keyword_kind w = k \<and> as_ident k = None"
  then have "map_of keyword_table w = Some k"
    by (auto simp: keyword_kind_def as_ident_def split: option.splits)
  then have "(w, k) \<in> set keyword_table" by (rule map_of_SomeD)
  then show "reserved_word k = Some w"
    using reserved_of_keywords by (auto simp: list_all_iff reserved_word_def)
qed

end
