(* ===== verification/Parser_Types.thy ===== *)
theory Parser_Types
  imports Parser_Core
begin

section \<open>align\_parser: types\<close>

text \<open>
  \<open>parse_type\<close> and \<open>parse_cast_type\<close>. The recursive call is an argument \<open>rt\<close>, so that each
  definition is not recursive itself; the recursion is tied in the theory on expressions.
\<close>

declare One_nat_def [simp del]

definition parse_cast_type :: "ty pm" where
  "parse_cast_type = bindP parse_path_some (\<lambda>path. retP (Ty_Named path [] (path_span path)))"

definition array_length :: "token \<Rightarrow> nat pm" where
  "array_length t =
     (case as_int (tk_kind t) of
        Some v \<Rightarrow>
          if tk_radix t = Some 10 \<and> 0 \<le> v \<and> v < 2 ^ 32 then retP (nat v)
          else if tk_radix t \<noteq> Some 10 then
            seqP (errorP ''a fixed-array length must be an unsuffixed decimal integer literal'' (tk_span t))
              (retP 0)
          else seqP (errorP ''fixed-array length is outside 0..=u32::MAX'' (tk_span t)) (retP 0)
      | None \<Rightarrow>
          seqP (errorP ''expected a decimal integer length in fixed-array type `[T; N]`'' (tk_span t))
            (retP 0))"

definition array_separator :: "span pm" where
  "array_separator = readP (\<lambda>p.
     if p_at p Tk_Semicolon then bindP bump (\<lambda>t. retP (tk_span t))
     else fail_here (''expected '' @ quoted '';'' @ '' in fixed-array type `[T; N]`''))"

definition parse_array_type :: "ty pm \<Rightarrow> ty pm" where
  "parse_array_type rt = readP (\<lambda>p0.
     seqP bump
     (bindP rt (\<lambda>element.
      bindP array_separator (\<lambda>separator.
      bindP bump (\<lambda>length_token.
      bindP (array_length length_token) (\<lambda>len.
      seqP (expect Tk_RBracket (quoted '']''))
      (bindP (span_from (p_span p0)) (\<lambda>sp.
      retP (Ty_FixedArray element len separator sp)))))))))"

definition starts_type :: "tok_kind \<Rightarrow> bool" where
  "starts_type k \<longleftrightarrow> k = Tk_Fn \<or> k = Tk_LParen \<or> k = Tk_LBracket \<or> as_ident k \<noteq> None"

definition fn_type_mode :: "param_mode pm" where
  "fn_type_mode = readP (\<lambda>p.
     if as_ident (p_peek p) = Some ''out'' \<and> starts_type (p_peek_at p 1) then seqP bump (retP PM_Out)
     else if as_ident (p_peek p) = Some ''borrow'' \<and> p_peek_at p 1 = Tk_Mut \<and>
             starts_type (p_peek_at p 2) then seqP bump (seqP bump (retP PM_BorrowMut))
     else if as_ident (p_peek p) = Some ''borrow'' \<and> starts_type (p_peek_at p 1)
     then seqP bump (retP PM_Borrow)
     else retP PM_ByValue)"

text \<open>\<open>while !at(close) && !at(Eof) { push(item?); if !eat(Comma) { break } }\<close>.\<close>

definition comma_list :: "tok_kind \<Rightarrow> 'a pm \<Rightarrow> 'a list pm" where
  "comma_list close element =
     loopP (\<lambda>xs. readP (\<lambda>p.
       if p_at p close \<or> p_at p Tk_Eof then retP (Inr xs)
       else bindP element (\<lambda>x. bindP (eat Tk_Comma) (\<lambda>b.
              retP (if b then Inl (xs @ [x]) else Inr (xs @ [x])))))) []"

definition parse_fn_type :: "ty pm \<Rightarrow> ty pm" where
  "parse_fn_type rt = readP (\<lambda>p0.
     seqP bump
     (seqP (expect Tk_LParen (quoted ''(''))
     (bindP (comma_list Tk_RParen
        (bindP fn_type_mode (\<lambda>mode. bindP rt (\<lambda>t. retP (Fn_Type_Param mode t))))) (\<lambda>params.
      seqP (expect Tk_RParen (quoted '')''))
      (seqP (expect Tk_Arrow (quoted ''->''))
      (bindP rt (\<lambda>ret.
       bindP (span_from (p_span p0)) (\<lambda>sp.
       retP (Ty_Fn params ret sp)))))))))"

text \<open>\<open>while eat(Comma) { if at(close) { break } push(item?) }\<close> after a first element.\<close>

definition more_elements :: "tok_kind \<Rightarrow> 'a pm \<Rightarrow> 'a \<Rightarrow> 'a list pm" where
  "more_elements close element first =
     loopP (\<lambda>xs. bindP (eat Tk_Comma) (\<lambda>b.
       if \<not> b then retP (Inr xs)
       else readP (\<lambda>p. if p_at p close then retP (Inr xs)
              else bindP element (\<lambda>x. retP (Inl (xs @ [x])))))) [first]"

definition unit_type :: "span \<Rightarrow> ty" where
  "unit_type sp = Ty_Named \<lparr>path_segments = [mk_ident ''()'' sp], path_span = sp\<rparr> [] sp"

definition parse_paren_type :: "ty pm \<Rightarrow> ty pm" where
  "parse_paren_type rt = readP (\<lambda>p0.
     seqP bump
     (bindP (eat Tk_RParen) (\<lambda>b.
      if b then bindP (span_from (p_span p0)) (\<lambda>sp. retP (unit_type sp))
      else
        bindP rt (\<lambda>first.
        bindP (more_elements Tk_RParen rt first) (\<lambda>elems.
        seqP (expect Tk_RParen (quoted '')''))
        (bindP (span_from (p_span p0)) (\<lambda>sp.
         retP (case elems of [t] \<Rightarrow> t | _ \<Rightarrow> Ty_Tuple elems sp))))))))"

definition parse_named_type :: "ty pm \<Rightarrow> ty pm" where
  "parse_named_type rt =
     bindP parse_path_some (\<lambda>path.
     bindP (eat Tk_Lt) (\<lambda>b.
     bindP (if b then bindP (comma_list Tk_Gt rt) (\<lambda>args.
                      seqP (expect Tk_Gt (quoted ''>'')) (retP args))
            else retP []) (\<lambda>args.
     bindP (span_from (path_span path)) (\<lambda>sp.
     retP (Ty_Named path args sp)))))"

definition parse_type :: "ty pm \<Rightarrow> ty pm" where
  "parse_type rt = readP (\<lambda>p.
     if p_at p Tk_LBracket then parse_array_type rt
     else if p_at p Tk_Fn then parse_fn_type rt
     else if p_at p Tk_LParen then parse_paren_type rt
     else parse_named_type rt)"

subsection \<open>The specification of the type parser\<close>

lemma meets_below: "meets maybe n m \<Longrightarrow> k \<le> n \<Longrightarrow> meets maybe k m"
  by (rule meets_weaken)

lemma meets_comma_list [meets_rules]:
  assumes "meets maybe n element" shows "meets maybe n (comma_list close element)"
  unfolding comma_list_def
  by (rule assms meets_rules outcome_bind outcome_meets [OF assms] | force)+

lemma meets_more_elements [meets_rules]:
  assumes "meets maybe (n - 1) element" shows "meets maybe n (more_elements close element first)"
  unfolding more_elements_def
  by (erule (1) notE | rule assms meets_rules outcome_bind outcome_meets [OF assms] | force)+

lemma meets_parse_cast_type [meets_rules]: "meets maybe n parse_cast_type"
  unfolding parse_cast_type_def by (rule meets_rules | force)+

lemma meets_array_length [meets_rules]: "meets maybe n (array_length t)"
  unfolding array_length_def by (rule meets_rules | force)+

lemma meets_fn_type_mode [meets_rules]: "meets maybe n fn_type_mode"
  unfolding fn_type_mode_def by (rule meets_rules | force)+

lemma meets_array_separator [meets_rules]: "meets maybe n array_separator"
  unfolding array_separator_def
  by (rule meets_rules outcome_bind outcome_bump outcome_meets [OF meets_fail_here] | force simp: p_at_def)+

lemma outcome_parse_array_type:
  assumes "meets maybe (n - 1) rt" "p_at p Tk_LBracket"
  shows "outcome maybe n p (parse_array_type rt p)"
  unfolding parse_array_type_def
  by (rule assms meets_rules | use assms in \<open>force simp: p_at_def\<close>)+

lemma outcome_parse_fn_type:
  assumes "meets maybe (n - 1) rt" "p_at p Tk_Fn"
  shows "outcome maybe n p (parse_fn_type rt p)"
proof -
  note rt = meets_below [OF assms(1)]
  show ?thesis
    unfolding parse_fn_type_def
    by (erule notE, rule TrueI | erule (1) notE | rule rt meets_rules | use assms(2) in \<open>force simp: p_at_def\<close>)+
qed

lemma outcome_parse_paren_type:
  assumes "meets maybe (n - 1) rt" "p_at p Tk_LParen"
  shows "outcome maybe n p (parse_paren_type rt p)"
proof -
  note rt = meets_below [OF assms(1)]
  show ?thesis
    unfolding parse_paren_type_def
    by (erule notE, rule TrueI | erule (1) notE | rule rt meets_rules | use assms(2) in \<open>force simp: p_at_def\<close>)+
qed

lemma meets_parse_named_type:
  assumes "meets maybe (n - 1) rt"
  shows "meets maybe n (parse_named_type rt)"
  unfolding parse_named_type_def
  by (erule (1) notE | rule assms meets_rules | force)+

lemma meets_parse_type:
  assumes "meets maybe (n - 1) rt"
  shows "meets maybe n (parse_type rt)"
  unfolding parse_type_def
  by (rule outcome_parse_array_type outcome_parse_fn_type outcome_parse_paren_type
      meets_outcome [OF meets_parse_named_type] assms meets_read outcome_if | assumption)+

end
