(* ===== verification/Templates.thy ===== *)
theory Templates
  imports Parser_Core
begin

section \<open>align\_parser: template literals\<close>

text \<open>
  \<open>split_template\<close> cuts the decoded content of a template literal into text and \<open>{...}\<close> holes. The
  scalars are walked with the byte index \<open>char_indices\<close> gives; the output strings are bytes.
  Shown: rendering the parts gives the content back, text parts are maximal and not empty, and the
  recorded offset of a hole is where its source stands in the content.
\<close>

declare One_nat_def [simp del]

text \<open>\<open>char::is_whitespace\<close>, the Unicode property \<open>White_Space\<close>.\<close>

definition is_whitespace :: "scalar \<Rightarrow> bool" where
  "is_whitespace c \<longleftrightarrow>
     0x9 \<le> c \<and> c \<le> 0xD \<or> c = 0x20 \<or> c = 0x85 \<or> c = 0xA0 \<or> c = 0x1680 \<or>
     0x2000 \<le> c \<and> c \<le> 0x200A \<or> c = 0x2028 \<or> c = 0x2029 \<or> c = 0x202F \<or> c = 0x205F \<or> c = 0x3000"

definition trim :: "scalar list \<Rightarrow> scalar list" where
  "trim cs = rev (dropWhile is_whitespace (rev (dropWhile is_whitespace cs)))"

datatype raw_part = RP_Text bytes | RP_Hole bytes nat

definition left_brace :: scalar where "left_brace = 0x7B"

definition right_brace :: scalar where "right_brace = 0x7D"

text \<open>The inner loop: what precedes the first \<open>}\<close>, whether there is one, and what follows it.\<close>

primrec scan_hole :: "scalar list \<Rightarrow> scalar list \<times> bool \<times> scalar list" where
  "scan_hole [] = ([], False, [])"
| "scan_hole (d # ds) =
     (if d = right_brace then ([], True, ds)
      else (case scan_hole ds of (src, found, rest) \<Rightarrow> (d # src, found, rest)))"

lemma scan_hole_length: "scan_hole cs = (src, found, rest) \<Longrightarrow> length rest \<le> length cs"
  by (induction cs arbitrary: src found rest) (force split: if_splits prod.splits)+

definition flush_text :: "bytes \<Rightarrow> raw_part list" where
  "flush_text buf = (if buf \<noteq> [] then [RP_Text buf] else [])"

function split_loop :: "nat \<Rightarrow> scalar list \<Rightarrow> bytes \<Rightarrow> raw_part list \<Rightarrow> raw_part list" where
  "split_loop idx [] buf parts = parts @ flush_text buf"
| "split_loop idx (c # cs) buf parts =
     (if c = left_brace then
        (case scan_hole cs of (src, found_close, rest) \<Rightarrow>
           let idx' = idx + 1 + length (encode_str src) + (if found_close then 1 else 0) in
           if found_close \<and> trim src \<noteq> [] then
             split_loop idx' rest [] (parts @ flush_text buf @ [RP_Hole (encode_str src) (idx + 1)])
           else
             split_loop idx' rest
               (buf @ encode_utf8 left_brace @ encode_str src @
                (if found_close then encode_utf8 right_brace else [])) parts)
      else split_loop (idx + len_utf8 c) cs (buf @ encode_utf8 c) parts)"
  by pat_completeness auto
termination
  by (relation "measure (\<lambda>(idx, cs, buf, parts). length cs)")
    (auto dest: scan_hole_length [OF sym])

definition split_template :: "bytes \<Rightarrow> raw_part list" where
  "split_template content =
     (case from_utf8 content of Some cs \<Rightarrow> split_loop 0 cs [] [] | None \<Rightarrow> [])"

subsection \<open>Rendering the parts gives the content back\<close>

definition render_part :: "raw_part \<Rightarrow> bytes" where
  "render_part p = (case p of RP_Text s \<Rightarrow> s | RP_Hole src off \<Rightarrow> ''{'' @ src @ ''}'')"

definition render_parts :: "raw_part list \<Rightarrow> bytes" where
  "render_parts ps = concat (map render_part ps)"

lemma render_parts_simps [simp]:
  "render_parts [] = []" "render_parts (ps @ qs) = render_parts ps @ render_parts qs"
  "render_parts [p] = render_part p" "render_parts (flush_text t) = t"
  by (simp_all add: render_parts_def flush_text_def render_part_def)

lemma brace_bytes [simp]: "encode_utf8 left_brace = ''{''" "encode_utf8 right_brace = ''}''"
  "len_utf8 left_brace = 1"
  by code_simp+

lemma scan_hole_render:
  "scan_hole cs = (src, found, rest) \<Longrightarrow>
   encode_str cs = encode_str src @ (if found then ''}'' @ encode_str rest else []) \<and> (\<not> found \<longrightarrow> rest = [])"
  by (induction cs arbitrary: src found rest) (auto split: if_splits prod.splits)

lemma scan_hole_scalars:
  "scan_hole cs = (src, found, rest) \<Longrightarrow> list_all is_scalar cs \<Longrightarrow>
   list_all is_scalar src \<and> list_all is_scalar rest \<and> right_brace \<notin> set src"
  by (induction cs arbitrary: src found rest) (fastforce split: if_splits prod.splits)+

lemma split_loop_render:
  "render_parts (split_loop idx cs buf parts) = render_parts parts @ buf @ encode_str cs"
proof (induction idx cs buf parts rule: split_loop.induct)
  case (2 idx c cs buf parts)
  show ?case
  proof (cases "c = left_brace")
    case True
    obtain src found rest where s: "scan_hole cs = (src, found, rest)" by (cases "scan_hole cs")
    note r = scan_hole_render [OF s]
    show ?thesis
    proof (cases "found \<and> trim src \<noteq> []")
      case hole: True
      then show ?thesis
        using "2.IH"(1) [OF True s [symmetric] refl refl hole] True s r by (simp add: Let_def render_part_def)
    next
      case lit: False
      then show ?thesis
        using "2.IH"(2) [OF True s [symmetric] refl refl lit] True s r
        by (cases found) (simp_all add: Let_def)
    qed
  next
    case False
    then show ?thesis using "2.IH"(3) by simp
  qed
qed simp

subsection \<open>The parts are placed\<close>

definition is_text :: "raw_part \<Rightarrow> bool" where
  "is_text p = (case p of RP_Text _ \<Rightarrow> True | RP_Hole _ _ \<Rightarrow> False)"

definition hole_source :: "bytes \<Rightarrow> bool" where
  "hole_source src \<longleftrightarrow> (\<exists>cs. from_utf8 src = Some cs \<and> right_brace \<notin> set cs \<and> trim cs \<noteq> [])"

fun placed :: "nat \<Rightarrow> raw_part list \<Rightarrow> bool" where
  "placed at [] \<longleftrightarrow> True"
| "placed at (RP_Text s # ps) \<longleftrightarrow>
     s \<noteq> [] \<and> (ps \<noteq> [] \<longrightarrow> \<not> is_text (hd ps)) \<and> placed (at + length s) ps"
| "placed at (RP_Hole src off # ps) \<longleftrightarrow>
     off = at + 1 \<and> hole_source src \<and> placed (at + length src + 2) ps"

lemma placed_append:
  "placed at ps \<Longrightarrow> placed (at + length (render_parts ps)) qs \<Longrightarrow>
   ps = [] \<or> qs = [] \<or> \<not> is_text (last ps) \<or> \<not> is_text (hd qs) \<Longrightarrow> placed at (ps @ qs)"
proof (induction at ps rule: placed.induct)
  case (2 at s ps)
  then show ?case by (cases ps) (auto simp: render_parts_def render_part_def add.assoc is_text_def)
next
  case (3 at src off ps)
  then show ?case by (cases ps) (auto simp: render_parts_def render_part_def add.assoc)
qed simp

lemma placed_flush: "placed at (flush_text buf)"
  by (simp add: flush_text_def)

lemma split_loop_placed:
  "placed 0 parts \<Longrightarrow> (parts \<noteq> [] \<longrightarrow> \<not> is_text (last parts)) \<Longrightarrow>
   idx = length (render_parts parts) + length buf \<Longrightarrow> list_all is_scalar cs \<Longrightarrow>
   placed 0 (split_loop idx cs buf parts)"
proof (induction idx cs buf parts rule: split_loop.induct)
  case (1 idx buf parts)
  then show ?case by (auto intro!: placed_append placed_flush)
next
  case (2 idx c cs buf parts)
  show ?case
  proof (cases "c = left_brace")
    case True
    obtain src found rest where s: "scan_hole cs = (src, found, rest)" by (cases "scan_hole cs")
    have sc: "list_all is_scalar src" "list_all is_scalar rest" "right_brace \<notin> set src"
      using scan_hole_scalars [OF s] "2.prems" by simp_all
    note r = scan_hole_render [OF s]
    show ?thesis
    proof (cases "found \<and> trim src \<noteq> []")
      case hole: True
      have "hole_source (encode_str src)"
        using sc hole by (simp add: hole_source_def from_utf8_encode)
      then have "placed 0 (parts @ flush_text buf @ [RP_Hole (encode_str src) (idx + 1)])"
        using "2.prems" by (intro placed_append placed_flush) (auto simp: is_text_def flush_text_def render_part_def)
      then show ?thesis
        using "2.IH"(1) [OF True s [symmetric] refl refl hole] "2.prems" True s hole sc
        by (simp add: Let_def render_part_def is_text_def)
    next
      case lit: False
      then show ?thesis
        using "2.IH"(2) [OF True s [symmetric] refl refl lit] "2.prems" True s sc
        by (cases found) (simp_all add: Let_def)
    qed
  next
    case False
    then show ?thesis using "2.IH"(3) "2.prems" by simp
  qed
qed

lemma split_template_render: "valid_utf8 content \<Longrightarrow> render_parts (split_template content) = content"
  using from_utf8_sound by (auto simp: split_template_def valid_utf8_def split_loop_render)

lemma split_template_placed: "placed 0 (split_template content)"
  using from_utf8_sound [of content]
  by (auto simp: split_template_def intro!: split_loop_placed split: option.split)

text \<open>
  C28. Splitting a template literal loses nothing: writing the text parts and the holes in their
  braces back to back gives the content, no text part is empty or next to another, and each hole
  is a non-blank expression source whose recorded byte offset is its place in the content.
\<close>

theorem split_template_roundtrip:
  assumes "valid_utf8 content"
  shows "render_parts (split_template content) = content \<and> placed 0 (split_template content)"
  using assms by (simp add: split_template_render split_template_placed)

theorem split_template_roundtrip_witness:
  "render_parts (split_template ''a{x}{}b'') = ''a{x}{}b'' \<and>
   split_template ''a{x}{}b'' = [RP_Text ''a'', RP_Hole ''x'' 2, RP_Text ''{}b'']"
proof -
  have "valid_utf8 ''a{x}{}b''" by code_simp
  from split_template_roundtrip [OF this]
  have "render_parts (split_template ''a{x}{}b'') = ''a{x}{}b''" by blast
  moreover have "split_template ''a{x}{}b'' = [RP_Text ''a'', RP_Hole ''x'' 2, RP_Text ''{}b'']"
    by code_simp
  ultimately show ?thesis by blast
qed

subsection \<open>A hole is lighter than its template\<close>

lemma str_weight_append [simp]: "str_weight (a @ b) = str_weight a + str_weight b"
  and str_weight_Nil [simp]: "str_weight [] = 0"
  by (simp_all add: str_weight_def)

lemma hole_weight_in: "RP_Hole src off \<in> set ps \<Longrightarrow> str_weight src + 2 \<le> str_weight (render_parts ps)"
  by (induction ps)
    (auto simp: render_parts_def render_part_def str_weight_def byte_weight_def is_cont_def)

lemma placed_hole_source: "placed at ps \<Longrightarrow> RP_Hole src off \<in> set ps \<Longrightarrow> hole_source src"
  by (induction at ps rule: placed.induct) auto

lemma hole_weight:
  assumes "valid_utf8 content" "RP_Hole src off \<in> set (split_template content)"
  shows "valid_utf8 src" "str_weight src + 2 \<le> str_weight content"
  using hole_weight_in [OF assms(2)] placed_hole_source [OF split_template_placed assms(2)]
    split_template_render [OF assms(1)]
  by (auto simp: hole_source_def valid_utf8_def)

end
