(* ===== verification/Lexer_Weight.thy ===== *)
theory Lexer_Weight
  imports Templates
begin

section \<open>The weight of a token stream\<close>

text \<open>
  A template hole is lexed and parsed again by the parser that met it. For that recursion to end
  the tokens of a hole have to weigh less than the string they came from. The tokens the lexer
  makes of a valid source weigh at most twice the source's weight and two more, and every string
  token holds valid UTF-8 again.
\<close>

declare One_nat_def [simp del]

subsection \<open>The potential of a position\<close>

definition conts :: "bytes \<Rightarrow> nat \<Rightarrow> nat" where
  "conts s p = length (takeWhile is_cont (drop p s))"

definition pot :: "bytes \<Rightarrow> nat \<Rightarrow> nat" where
  "pot s p = str_weight (drop p s) + conts s p"

definition clean :: "bytes \<Rightarrow> nat \<Rightarrow> bool" where
  "clean s p \<longleftrightarrow> p < length s \<longrightarrow> \<not> is_cont (s ! p)"

lemma drop_at: "p < length s \<Longrightarrow> drop p s = s ! p # drop (p + 1) s"
  using Cons_nth_drop_Suc [of p s] by (simp add: Suc_eq_plus1)

lemma conts_clean: "clean s p \<Longrightarrow> conts s p = 0"
  by (cases "p < length s") (simp_all add: clean_def conts_def drop_at)

lemma conts_cont: "p < length s \<Longrightarrow> is_cont (s ! p) \<Longrightarrow> conts s p = conts s (p + 1) + 1"
  by (simp add: conts_def drop_at)

lemma byte_weight_cont: "is_cont b \<Longrightarrow> byte_weight b = 0" "\<not> is_cont b \<Longrightarrow> 1 \<le> byte_weight b"
  by (auto simp: byte_weight_def is_cont_def)

lemma str_weight_Cons: "str_weight (b # s) = byte_weight b + str_weight s"
  by (simp add: str_weight_def)

lemma str_weight_length: "str_weight s \<le> 2 * length s"
  by (induction s) (simp_all add: str_weight_Cons, simp add: str_weight_def, simp add: byte_weight_def)

lemma str_weight_at: "p < length s \<Longrightarrow> str_weight (drop p s) = byte_weight (s ! p) + str_weight (drop (p + 1) s)"
  by (subst drop_at) (simp_all add: str_weight_Cons)

lemma str_weight_mono: "p \<le> q \<Longrightarrow> str_weight (drop q s) \<le> str_weight (drop p s)"
proof -
  assume "p \<le> q"
  then have "drop p s = take (q - p) (drop p s) @ drop q s"
    by (metis append_take_drop_id drop_drop le_add_diff_inverse2)
  then have "str_weight (drop p s) = str_weight (take (q - p) (drop p s)) + str_weight (drop q s)"
    by (metis str_weight_append)
  then show ?thesis by simp
qed

lemma pot_cont: "p < length s \<Longrightarrow> is_cont (s ! p) \<Longrightarrow> pot s p = pot s (p + 1) + 1"
  by (simp add: pot_def conts_cont str_weight_at byte_weight_cont)

lemma pot_le: "p \<le> q \<Longrightarrow> clean s q \<Longrightarrow> pot s q \<le> pot s p"
  using str_weight_mono [of p q s] by (simp add: pot_def conts_clean)

lemma pot_less:
  assumes "p < q" "clean s q" "p < length s" "clean s p"
  shows "pot s q + byte_weight (s ! p) \<le> pot s p"
  using str_weight_mono [of "p + 1" q s] assms by (simp add: pot_def conts_clean str_weight_at)

subsection \<open>Positions in a valid string\<close>

lemma encode_utf8_high: "128 \<le> c \<Longrightarrow> k < len_utf8 c \<Longrightarrow> is_scalar c \<Longrightarrow> 128 \<le> val (encode_utf8 c ! k)"
  using encode_utf8_rest [of k c]
  by (cases "k = 0") (auto simp: is_cont_def encode_utf8_def is_scalar_def)

lemma conts_encode: "conts (encode_str cs) p \<le> 3 \<and>
    (p < length (encode_str cs) \<and> is_cont (encode_str cs ! p) \<longrightarrow>
     0 < p \<and> 128 \<le> val (encode_str cs ! (p - 1)))" if "list_all is_scalar cs"
  using that
proof (induction cs arbitrary: p)
  case (Cons c cs)
  let ?n = "len_utf8 c" and ?s = "encode_str (c # cs)"
  have sc: "is_scalar c" "list_all is_scalar cs" using Cons.prems by simp_all
  have first: "\<not> is_cont (?s ! 0)" using encode_utf8_first(2) [OF sc(1)] by (simp add: nth_append)
  show ?case
  proof (cases "?n \<le> p")
    case True
    then obtain q where q: "p = ?n + q" using le_Suc_ex by blast
    have "conts ?s p = conts (encode_str cs) q" by (simp add: conts_def q)
    moreover have "q \<noteq> 0 \<Longrightarrow> ?s ! (p - 1) = encode_str cs ! (q - 1)"
      by (cases q) (simp_all add: q nth_append)
    ultimately show ?thesis using Cons.IH [OF sc(2), of q] by (auto simp: q nth_append)
  next
    case False
    have "conts (encode_str cs) 0 = 0"
      using Cons.IH [OF sc(2), of 0] by (intro conts_clean) (auto simp: clean_def)
    then have tw: "takeWhile is_cont (encode_str cs) = []" by (simp add: conts_def)
    have "conts ?s p \<le> ?n - p"
    proof -
      have "takeWhile is_cont (drop p (encode_utf8 c) @ encode_str cs) =
          takeWhile is_cont (drop p (encode_utf8 c))"
        using tw by (metis append_Nil2 takeWhile_append1 takeWhile_append2 takeWhile_eq_all_conv)
      then show ?thesis
        using False length_takeWhile_le [of is_cont "drop p (encode_utf8 c)"] by (simp add: conts_def)
    qed
    moreover have "p = 0 \<Longrightarrow> conts ?s p = 0" using first by (intro conts_clean) (simp add: clean_def)
    moreover have "?n \<le> 4" by (simp add: len_utf8_def)
    moreover have "0 < p \<and> 128 \<le> val (?s ! (p - 1))" if "is_cont (?s ! p)"
    proof -
      have "p \<noteq> 0" using first that by metis
      moreover from this False have "128 \<le> c" by (auto simp: len_utf8_def split: if_splits)
      moreover have "p - 1 < ?n" using False by simp
      ultimately show ?thesis
        using encode_utf8_high [of c "p - 1"] sc by (simp add: nth_append)
    qed
    ultimately show ?thesis by (cases "p = 0") auto
  qed
qed (simp add: conts_def)

lemma conts_valid: "valid_utf8 s \<Longrightarrow> conts s p \<le> 3"
  using conts_encode from_utf8_sound by (force simp: valid_utf8_def)

lemma clean_after_ascii:
  assumes "valid_utf8 s" "0 < p" "val (s ! (p - 1)) < 128" shows "clean s p"
proof -
  obtain cs where "list_all is_scalar cs" "s = encode_str cs"
    using assms(1) from_utf8_sound by (auto simp: valid_utf8_def)
  with conts_encode [of cs p] assms show ?thesis by (auto simp: clean_def)
qed

lemma clean_start: "valid_utf8 s \<Longrightarrow> clean s 0"
  using conts_encode [of _ 0] from_utf8_sound by (force simp: valid_utf8_def clean_def)

lemma clean_ascii_between:
  assumes "valid_utf8 s" "ascii_between s p q" "p < q" shows "clean s q"
  using clean_after_ascii [of s q] assms by (force simp: ascii_between_def)

lemma valid_utf8_append: "valid_utf8 a \<Longrightarrow> valid_utf8 b \<Longrightarrow> valid_utf8 (a @ b)"
  using from_utf8_sound [of a] from_utf8_sound [of b] from_utf8_encode
  unfolding valid_utf8_def by (metis encode_str_append list_all_append not_None_eq option.simps(3))

lemma valid_utf8_encode: "is_scalar c \<Longrightarrow> valid_utf8 (encode_utf8 c)"
  using from_utf8_encode [of "[c]"] by (simp add: valid_utf8_def)

lemma clean_boundary: "valid_utf8 s \<Longrightarrow> clean s p \<Longrightarrow> p \<le> length s \<Longrightarrow> boundary s p"
  using valid_utf8_at [of s p]
  by (cases "p < length s")
    (auto simp: clean_def boundary_def valid_utf8_append valid_utf8_encode simp: valid_utf8_def [of "[]"])

lemma boundary_clean: "boundary s p \<Longrightarrow> clean s p"
  using valid_utf8_starts [of "drop p s"] by (auto simp: boundary_def clean_def)

subsection \<open>String literals\<close>

lemma encode_utf8_head: "is_scalar c \<Longrightarrow> encode_utf8 c ! 0 = CHR 0x5C \<longleftrightarrow> c = 0x5C"
proof (cases "c < 128")
  case True
  then have "encode_utf8 c ! 0 = char_of c" by (simp add: encode_utf8_def)
  moreover have "char_of c = CHR 0x5C \<longleftrightarrow> val (char_of c) = val CHR 0x5C" by (simp only: of_char_eq_iff)
  moreover have "val (char_of c) = c" using True by simp
  ultimately show ?thesis by simp
next
  case False
  moreover assume "is_scalar c"
  ultimately have "128 \<le> val (encode_utf8 c ! 0)" by (intro encode_utf8_high) simp_all
  with False show ?thesis by auto
qed

lemma str_weight_encode: "is_scalar c \<Longrightarrow> str_weight (encode_utf8 c) = (if c = 0x5C then 2 else 1)"
proof -
  assume sc: "is_scalar c"
  obtain b r where br: "encode_utf8 c = b # r" by (cases "encode_utf8 c") simp_all
  have "byte_weight x = 0" if x: "x \<in> set r" for x
  proof -
    obtain k where "k < length r" "x = r ! k" using x by (auto simp: in_set_conv_nth)
    moreover have "len_utf8 c = length r + 1" using br length_encode_utf8 [of c] by simp
    ultimately show ?thesis
      using encode_utf8_rest [of "k + 1" c] by (simp add: br byte_weight_cont(1))
  qed
  then have "sum_list (map byte_weight r) = 0" by (simp add: sum_list_eq_0_iff)
  then have "str_weight (encode_utf8 c) = byte_weight (encode_utf8 c ! 0)"
    by (simp add: br str_weight_def)
  then show ?thesis
    using encode_utf8_first(2) [OF sc] encode_utf8_head [OF sc] by (simp add: byte_weight_def)
qed

lemma simple_escape_scalar: "simple_escape e = Some c \<Longrightarrow> c < 128 \<and> val e < 128"
  by (auto simp: simple_escape_def split: if_splits)

lemma boundary_bump:
  "boundary (lx_src lx) (lx_pos lx) \<Longrightarrow> lx_peek lx = Some b \<Longrightarrow> val b < 128 \<Longrightarrow>
   boundary (lx_src lx) (lx_pos lx + 1)"
  by (auto simp: lx_peek_Some intro: boundary_ascii)

lemma unicode_escape_weight:
  assumes eq: "lex_unicode_escape lx lit st ds = (c, lx', ds')"
    and b: "boundary (lx_src lx) (lx_pos lx)"
  shows "boundary (lx_src lx) (lx_pos lx') \<and> (\<forall>ch. c = Some ch \<longrightarrow> is_scalar ch)"
proof (cases "lx_peek lx = Some CHR ''{''")
  case False
  with eq b show ?thesis by (auto simp: lex_unicode_escape_def)
next
  case True
  let ?lx2 = "lx_eat is_hexdigit (lx_bump lx 1)"
  have b2: "boundary (lx_src lx) (lx_pos ?lx2)"
    using boundary_eat [OF boundary_bump [OF b True]] is_hexdigit_ascii by simp
  have b3: "boundary (lx_src lx) (lx_pos ?lx2 + 1)" if "lx_peek ?lx2 = Some CHR ''}''"
    using boundary_bump [of ?lx2, OF _ that] b2 by simp
  have "lx' \<in> {?lx2, close_brace ?lx2} \<or> (lx' = lx_bump ?lx2 1 \<and> lx_peek ?lx2 = Some CHR ''}'')"
    and "\<forall>ch. c = Some ch \<longrightarrow> is_scalar ch"
    using eq True by (auto simp: lex_unicode_escape_def Let_def char_from_u32_def split: if_splits option.splits)
  with b2 b3 show ?thesis by (auto simp: close_brace_def)
qed

lemma escape_weight:
  assumes e: "lex_escape lx lit ds = (c, lx', ds')" and v: "valid_utf8 (lx_src lx)"
    and b: "boundary (lx_src lx) (lx_pos lx)" and p: "lx_pos lx < length (lx_src lx)"
  shows "case c of
      Some ch \<Rightarrow> is_scalar ch \<and> pot (lx_src lx) (lx_pos lx') \<le> pot (lx_src lx) (lx_pos lx)
    | None \<Rightarrow> pot (lx_src lx) (lx_pos lx') \<le> pot (lx_src lx) (lx_pos lx) + 2"
proof -
  let ?s = "lx_src lx" and ?p = "lx_pos lx"
  obtain x where x: "lx_peek lx = Some x" "x = ?s ! ?p" using p by (simp add: lx_peek_Some)
  have fr: "?p < lx_pos lx'" using lex_escape_frame [OF e] x(1) by (auto simp: lx_frame_def)
  have le: "pot ?s (lx_pos lx') \<le> pot ?s ?p" if "boundary ?s (lx_pos lx')"
    using fr that by (intro pot_le boundary_clean) simp_all
  show ?thesis
  proof (cases "simple_escape x")
    case (Some ch)
    then have "boundary ?s (?p + 1)" "is_scalar ch"
      using simple_escape_scalar [OF Some] boundary_bump [OF b x(1)] by (auto simp: is_scalar_def)
    moreover have "c = Some ch" "lx' = lx_bump lx 1"
      using e x(1) Some by (auto simp: lex_escape_def Let_def)
    ultimately show ?thesis using le by simp
  next
    case None
    show ?thesis
    proof (cases "x = CHR ''u''")
      case True
      then have "boundary ?s (?p + 1)" using boundary_bump [OF b x(1)] by simp
      moreover have "lex_unicode_escape (lx_bump lx 1) lit ?p ds = (c, lx', ds')"
        using e None True x by (simp add: lex_escape_def Let_def)
      ultimately show ?thesis
        using unicode_escape_weight [of "lx_bump lx 1" lit ?p ds c lx' ds'] le
        by (fastforce split: option.splits)
    next
      case False
      then have "c = None" "lx_pos lx' = ?p + 1"
        using e None x by (auto simp: lex_escape_def Let_def)
      moreover have "str_weight (drop (?p + 1) ?s) + 1 \<le> str_weight (drop ?p ?s)"
        using str_weight_at [OF p] byte_weight_cont(2) [of "?s ! ?p"] boundary_clean [OF b] p
        by (simp add: clean_def)
      ultimately show ?thesis using conts_valid [OF v, of "?p + 1"] by (simp add: pot_def)
    qed
  qed
qed

lemma scalar_at_cont:
  assumes "p < length s" "is_cont (s ! p)" shows "scalar_at s p = None"
proof -
  have "char_len (s ! p) = 1" using assms(2) by (simp add: char_len_eq is_cont_def)
  then have "take (min (char_len (s ! p)) (length s - p)) (drop p s) = [s ! p]"
    using assms(1) Cons_nth_drop_Suc [of p s] by (auto simp: min_def One_nat_def take_Suc_Cons dest!: sym [of "_ # _"])
  moreover have "from_utf8 [s ! p] = None"
    using assms(2) by (subst from_utf8.simps) (simp add: decode_first_def decode_multi_def is_cont_def)
  ultimately show ?thesis by (simp add: scalar_at_def Let_def)
qed

lemma literal_scalar_weight:
  assumes l: "literal_scalar lx = (c, n)" and v: "valid_utf8 (lx_src lx)"
    and p: "lx_pos lx < length (lx_src lx)"
  shows "is_scalar c \<and> str_weight (encode_utf8 c) + pot (lx_src lx) (lx_pos lx + n) \<le> pot (lx_src lx) (lx_pos lx)"
proof (cases "is_cont (lx_src lx ! lx_pos lx)")
  case True
  then have "c = 0xFFFD" "n = 1" using l scalar_at_cont [OF p True] by (auto simp: literal_scalar_def)
  then show ?thesis using pot_cont [OF p True] by (simp add: str_weight_encode is_scalar_def)
next
  case False
  then have b: "boundary (lx_src lx) (lx_pos lx)"
    using v p by (intro clean_boundary) (simp_all add: clean_def)
  then obtain d r where d: "is_scalar d" "drop (lx_pos lx) (lx_src lx) = encode_utf8 d @ r"
    "boundary (lx_src lx) (lx_pos lx + len_utf8 d)" using p by (rule boundary_scalar)
  have "c = d" "n = len_utf8 d"
    using l scalar_at_boundary [OF d(1,2) p] by (auto simp: literal_scalar_def)
  moreover have "drop (lx_pos lx + len_utf8 d) (lx_src lx) = r"
    using d(2) by (metis append_eq_conv_conj drop_drop add.commute length_encode_utf8)
  ultimately show ?thesis
    using d b by (simp add: pot_def conts_clean boundary_clean)
qed

lemma bump_pot:
  assumes "lx_peek lx = Some b" "val b < 128" "valid_utf8 (lx_src lx)"
  shows "boundary (lx_src lx) (lx_pos lx + 1) \<and>
    pot (lx_src lx) (lx_pos lx + 1) + byte_weight b \<le> pot (lx_src lx) (lx_pos lx)"
proof -
  have pos: "lx_pos lx < length (lx_src lx)" "lx_src lx ! lx_pos lx = b" using assms(1) by (simp_all add: lx_peek_Some)
  then have c: "clean (lx_src lx) (lx_pos lx)" using assms(2) not_is_cont_ascii by (simp add: clean_def)
  have "boundary (lx_src lx) (lx_pos lx + 1)"
    using boundary_bump [OF clean_boundary [OF assms(3) c]] pos assms by simp
  then show ?thesis using pot_less [of "lx_pos lx" "lx_pos lx + 1" "lx_src lx"] pos c boundary_clean by simp
qed

lemma string_loop_weight:
  "lex_string_loop start lx s ds = (lx', s', ds') \<Longrightarrow> valid_utf8 (lx_src lx) \<Longrightarrow>
     str_weight s' + pot (lx_src lx) (lx_pos lx') \<le> str_weight s + pot (lx_src lx) (lx_pos lx) \<and>
     (valid_utf8 s \<longrightarrow> valid_utf8 s')"
proof (induction start lx s ds rule: lex_string_loop.induct)
  case (1 start lx s ds)
  note eq = "1.prems"(1) [unfolded lex_string_loop.simps [of start lx s ds]]
  let ?src = "lx_src lx" and ?p = "lx_pos lx"
  note after = bump_pot [OF _ _ "1.prems"(2)]
  consider (eol) "at_line_end lx" | (close) "\<not> at_line_end lx" "lx_peek lx = Some CHR 0x22"
    | (cut) "\<not> at_line_end lx" "lx_peek lx = Some CHR 0x5C" "at_line_end (lx_bump lx 1)"
    | (esc) "\<not> at_line_end lx" "lx_peek lx = Some CHR 0x5C" "\<not> at_line_end (lx_bump lx 1)"
    | (plain) "\<not> at_line_end lx" "lx_peek lx \<noteq> Some CHR 0x22" "lx_peek lx \<noteq> Some CHR 0x5C"
    by blast
  then show ?case
  proof cases
    case eol
    with eq show ?thesis by simp
  next
    case close
    with eq after [OF close(2)] show ?thesis by auto
  next
    case cut
    with eq after [OF cut(2)] show ?thesis by (auto simp: Let_def)
  next
    case esc
    obtain c lx2 ds2 where e: "lex_escape (lx_bump lx 1) ''string'' ds = (c, lx2, ds2)"
      by (metis prod_cases3)
    have src: "lx_src lx2 = ?src"
      using lex_escape_frame_peeked [OF esc(2,3) e] by (simp add: lx_frame_def)
    have "?p + 1 < length ?src" using esc(3) by (auto simp: at_line_end_def lx_peek_None)
    with after [OF esc(2)] have w: "case c of
        Some ch \<Rightarrow> is_scalar ch \<and> pot ?src (lx_pos lx2) + 2 \<le> pot ?src ?p
      | None \<Rightarrow> pot ?src (lx_pos lx2) \<le> pot ?src ?p"
      using escape_weight [OF e] "1.prems"(2) by (auto simp: byte_weight_def split: option.splits)
    let ?s1 = "case c of Some ch \<Rightarrow> s @ encode_utf8 ch | None \<Rightarrow> s"
    have "str_weight ?s1 + pot ?src (lx_pos lx2) \<le> str_weight s + pot ?src ?p"
      "valid_utf8 s \<Longrightarrow> valid_utf8 ?s1"
      using w by (auto simp: str_weight_encode valid_utf8_append valid_utf8_encode split: option.splits)
    with "1.IH"(1) [OF esc(1) _ esc(2) refl esc(3) e [symmetric] refl] eq esc e src "1.prems"(2)
    show ?thesis by fastforce
  next
    case plain
    obtain c n where l: "literal_scalar lx = (c, n)" by force
    have "lx_pos lx < length (lx_src lx)"
      using plain by (auto simp: at_line_end_def lx_peek_None)
    note w = literal_scalar_weight [OF l "1.prems"(2) this]
    then have "valid_utf8 s \<Longrightarrow> valid_utf8 (s @ encode_utf8 c)"
      by (simp add: valid_utf8_append valid_utf8_encode)
    with w "1.IH"(2) [OF plain l [symmetric]] eq plain l "1.prems"(2)
    show ?thesis by fastforce
  qed
qed

subsection \<open>Tokens\<close>

definition toks_weight :: "token list \<Rightarrow> nat" where
  "toks_weight ts = sum_list (map tok_weight ts)"

definition strs_valid :: "token list \<Rightarrow> bool" where
  "strs_valid ts \<longleftrightarrow> (\<forall>t\<in>set ts. \<forall>s. as_str (tk_kind t) = Some s \<longrightarrow> valid_utf8 s)"

text \<open>One turn of the lexer: what the new token weighs is paid for by what was consumed.\<close>

definition paid :: "lexer \<Rightarrow> lexer \<Rightarrow> bool" where
  "paid lx lx' \<longleftrightarrow> toks_weight (lx_tokens lx') + 2 * pot (lx_src lx) (lx_pos lx') \<le>
     toks_weight (lx_tokens lx) + 2 * pot (lx_src lx) (lx_pos lx) \<and>
     (strs_valid (lx_tokens lx) \<longrightarrow> strs_valid (lx_tokens lx'))"

lemma toks_weight_simps [simp]:
  "toks_weight [] = 0" "toks_weight (ts @ us) = toks_weight ts + toks_weight us"
  "toks_weight [t] = tok_weight t"
  by (simp_all add: toks_weight_def)

lemma strs_valid_simps [simp]:
  "strs_valid []" "strs_valid (ts @ us) \<longleftrightarrow> strs_valid ts \<and> strs_valid us"
  "strs_valid [t] \<longleftrightarrow> (\<forall>s. as_str (tk_kind t) = Some s \<longrightarrow> valid_utf8 s)"
  by (auto simp: strs_valid_def)

lemma tok_weight_plain: "as_str (tk_kind t) = None \<Longrightarrow> tok_weight t = 1"
  by (simp add: tok_weight_def)

text \<open>At most one token, not a string, for an ASCII byte and a clean end.\<close>

lemma paid_plain:
  assumes "lx_tokens lx' = lx_tokens lx \<or>
      (\<exists>t. lx_tokens lx' = lx_tokens lx @ [t] \<and> as_str (tk_kind t) = None)"
    and "pot (lx_src lx) (lx_pos lx') + 1 \<le> pot (lx_src lx) (lx_pos lx)"
  shows "paid lx lx'"
  using assms by (auto simp: paid_def tok_weight_plain)

lemma lex_string_paid:
  assumes "lex_string lx (lx_pos lx) ds = (lx', ds')" "lx_peek lx = Some CHR 0x22"
    and v: "valid_utf8 (lx_src lx)"
  shows "paid lx lx'"
proof -
  obtain lx1 s ds1 where l: "lex_string_loop (lx_pos lx) (lx_bump lx 1) [] ds = (lx1, s, ds1)"
    by (metis prod_cases3)
  have p: "lx_pos lx < length (lx_src lx)" "lx_src lx ! lx_pos lx = CHR 0x22"
    using assms(2) by (simp_all add: lx_peek_Some)
  then have "clean (lx_src lx) (lx_pos lx)" "clean (lx_src lx) (lx_pos lx + 1)"
    using not_is_cont_ascii [of "CHR 0x22"] clean_after_ascii [OF v, of "lx_pos lx + 1"]
    by (simp_all add: clean_def)
  then have "pot (lx_src lx) (lx_pos lx + 1) + 1 \<le> pot (lx_src lx) (lx_pos lx)"
    using pot_less [of "lx_pos lx" "lx_pos lx + 1" "lx_src lx"] p by (simp add: byte_weight_def is_cont_def)
  moreover have "str_weight s + pot (lx_src lx) (lx_pos lx1) \<le> pot (lx_src lx) (lx_pos lx + 1)" "valid_utf8 s"
    using string_loop_weight [OF l] v by (simp_all add: valid_utf8_def [of "[]"])
  moreover have "lx_tokens lx1 = lx_tokens lx" using lex_string_loop_frame [OF l] by simp
  ultimately show ?thesis
    using assms(1) l by (auto simp: lex_string_def paid_def lx_push_def tok_weight_def as_str_def)
qed

lemma keyword_not_str: "as_str (keyword_kind t) = None"
  by (auto simp: keyword_kind_def keyword_table_def as_str_def split: option.splits if_splits)

lemma symbol_kind_ascii:
  assumes "symbol_kind c two three = Some (k, n)"
  shows "as_str k = None \<and> val c < 128 \<and>
    (2 \<le> n \<longrightarrow> (\<exists>x. two = Some x \<and> val x < 128)) \<and> (3 \<le> n \<longrightarrow> (\<exists>x. three = Some x \<and> val x < 128))"
  using assms unfolding symbol_kind_def as_str_def by (auto split: if_splits)

definition one_plain :: "lexer \<Rightarrow> lexer \<Rightarrow> bool" where
  "one_plain lx lx' \<longleftrightarrow> lx_tokens lx' = lx_tokens lx \<or>
     (\<exists>t. lx_tokens lx' = lx_tokens lx @ [t] \<and> as_str (tk_kind t) = None)"

lemma one_plain_push: "lx_tokens lx' = lx_tokens lx \<Longrightarrow> as_str k = None \<Longrightarrow> one_plain lx (lx_push lx' k st)"
  by (simp add: one_plain_def lx_push_def)

lemma paid_ascii:
  assumes "one_plain lx lx'" "ascii_between (lx_src lx) (lx_pos lx) (lx_pos lx')"
    "lx_pos lx < lx_pos lx'" "lx_pos lx < length (lx_src lx)" and v: "valid_utf8 (lx_src lx)"
  shows "paid lx lx'"
proof (rule paid_plain)
  have nc: "\<not> is_cont (lx_src lx ! lx_pos lx)"
    using assms(2,3) not_is_cont_ascii [of "lx_src lx ! lx_pos lx"] by (simp add: ascii_between_def)
  show "pot (lx_src lx) (lx_pos lx') + 1 \<le> pot (lx_src lx) (lx_pos lx)"
    using pot_less [OF assms(3) clean_ascii_between [OF v assms(2,3)] assms(4)] nc byte_weight_cont(2) [OF nc]
    by (simp add: clean_def)
qed (use assms(1) in \<open>simp add: one_plain_def\<close>)

lemma ascii_eat_ident: "ascii_between s p (eat_while is_ident_continue s p)"
  by (auto intro!: ascii_between_eat dest: ascii_classes)

lemma ascii_between_join: "ascii_between s p q \<Longrightarrow> ascii_between s q r \<Longrightarrow> ascii_between s p r"
  by (auto simp: ascii_between_def) (metis not_le)

text \<open>A number's token.\<close>

definition one_number :: "lexer \<Rightarrow> lexer \<Rightarrow> bool" where
  "one_number lx lx' \<longleftrightarrow> lx_tokens lx' = lx_tokens lx \<or>
     (\<exists>t. lx_tokens lx' = lx_tokens lx @ [t] \<and> ((\<exists>n. tk_kind t = Tk_Int n) \<or> (\<exists>x. tk_kind t = Tk_Float x)))"

lemma one_number_plain: "one_number lx lx' \<Longrightarrow> one_plain lx lx'"
  by (auto simp: one_number_def one_plain_def as_str_def)

lemma lex_radix_number_plain:
  assumes "lex_radix_number lx (lx_pos lx) radix name ds = Some (lx', ds')"
    "lx_peek lx = Some CHR ''0''" "lx_ahead lx 1 = Some x" "val x < 128"
  shows "one_number lx lx' \<and> ascii_between (lx_src lx) (lx_pos lx) (lx_pos lx')"
proof -
  let ?lx' = "lx_eat is_ident_continue (lx_bump lx 2)"
  have lt: "lx_pos lx + 1 < length (lx_src lx)" "lx_src lx ! (lx_pos lx + 1) = x"
    "lx_src lx ! lx_pos lx = CHR ''0''"
    using assms(2,3) by (auto simp: lx_ahead_def get_at_Some_iff lx_peek_Some)
  have "k = lx_pos lx \<or> k = lx_pos lx + 1" if "lx_pos lx \<le> k" "k < lx_pos lx + 2" for k
    using that by linarith
  with lt assms(4) have "ascii_between (lx_src lx) (lx_pos lx) (lx_pos lx + 2)"
    by (fastforce simp: ascii_between_def)
  then have "ascii_between (lx_src lx) (lx_pos lx) (lx_pos ?lx')"
    by (rule ascii_between_join) (simp add: ascii_eat_ident)
  moreover have "lx_pos lx' = lx_pos ?lx' \<and> one_number lx lx'"
    using assms(1) unfolding lex_radix_number_def Let_def
    by (auto simp: one_number_def lx_push_def as_str_def split: option.splits if_splits prod.splits)
  ultimately show ?thesis by simp
qed

lemma push_number_plain:
  assumes "push_number lx1 st fl t ds = (lx', ds')" "lx_tokens lx1 = lx_tokens lx"
  shows "one_number lx lx' \<and> lx_pos lx' = lx_pos lx1 \<and> lx_src lx' = lx_src lx1"
  using assms by (auto simp: push_number_def one_number_def lx_push_def as_str_def split: option.splits if_splits)

lemma number_suffix_plain:
  assumes "number_suffix lx1 st t ds = Some (lx', ds')"
  shows "lx_tokens lx' = lx_tokens lx1 \<and> ascii_between (lx_src lx1) (lx_pos lx1) (lx_pos lx')"
  using assms ascii_eat_ident
  by (auto simp: number_suffix_def Let_def ascii_between_refl split: option.splits if_splits)

lemma lex_number_plain:
  assumes n: "lex_number lx (lx_pos lx) ds = Some (lx', ds')"
  shows "one_number lx lx' \<and> ascii_between (lx_src lx) (lx_pos lx) (lx_pos lx')"
proof (cases "if lx_peek lx = Some CHR ''0'' then radix_prefix (lx_ahead lx 1) else None")
  case (Some p)
  obtain radix name where p: "p = (radix, name)" by force
  from Some obtain x where "lx_peek lx = Some CHR ''0''" "lx_ahead lx 1 = Some x" "val x < 128"
    by (auto simp: radix_prefix_def split: if_splits)
  from lex_radix_number_plain [OF _ this] Some p n show ?thesis by (simp add: lex_number_def)
next
  case None
  obtain lx1 frac where s1: "scan_fraction (eat_digits lx) = (lx1, frac)" by force
  obtain lx2 ex where s2: "scan_exponent lx1 = (lx2, ex)" by force
  have st: "ascii_step lx lx2"
    using scan_fraction_step [of "eat_digits lx"] scan_exponent_step [of lx1] s1 s2
      ascii_step_eat_digits [of lx] by (auto intro: ascii_step_trans)
  from n None s1 s2 obtain raw lx3 ds3 where
    pn: "push_number lx2 (lx_pos lx) (frac \<or> ex) (filter (\<lambda>c. c \<noteq> CHR ''_'') raw) ds = (lx3, ds3)" and
    sf: "number_suffix lx3 (lx_pos lx) (filter (\<lambda>c. c \<noteq> CHR ''_'') raw) ds3 = Some (lx', ds')"
    by (auto simp: lex_number_def Let_def split: option.splits prod.splits)
  have "one_number lx lx3" "lx_pos lx3 = lx_pos lx2" "lx_src lx3 = lx_src lx"
    using push_number_plain [OF pn, of lx] st by (auto simp: ascii_step_def lx_frame_def)
  then show ?thesis
    using number_suffix_plain [OF sf] st
    by (auto simp: one_number_def ascii_step_def intro: ascii_between_join)
qed

lemma lex_char_body_pot:
  assumes "lex_char_body lx st ds = (c, lx', ds')" and v: "valid_utf8 (lx_src lx)"
  shows "pot (lx_src lx) (lx_pos lx') \<le> pot (lx_src lx) (lx_pos lx) \<and> lx_src lx' = lx_src lx \<and>
    lx_tokens lx' = lx_tokens lx"
proof -
  consider (cut) "lx_peek lx = Some CHR 0x5C" "at_line_end (lx_bump lx 1)"
    | (esc) "lx_peek lx = Some CHR 0x5C" "\<not> at_line_end (lx_bump lx 1)"
    | (eol) "lx_peek lx \<noteq> Some CHR 0x5C" "at_line_end lx"
    | (plain) "lx_peek lx \<noteq> Some CHR 0x5C" "\<not> at_line_end lx"
    by blast
  then show ?thesis
  proof cases
    case cut
    with assms bump_pot [OF cut(1)] show ?thesis by (auto simp: lex_char_body_def Let_def)
  next
    case esc
    obtain d lx2 ds2 where e: "lex_escape (lx_bump lx 1) ''character'' ds = (d, lx2, ds2)"
      by (metis prod_cases3)
    have "lx_pos lx + 1 < length (lx_src lx)" using esc(2) by (auto simp: at_line_end_def lx_peek_None)
    with bump_pot [OF esc(1)] v escape_weight [OF e]
    have "pot (lx_src lx) (lx_pos lx2) \<le> pot (lx_src lx) (lx_pos lx)"
      by (auto simp: byte_weight_def split: option.splits)
    moreover have "lx_src lx2 = lx_src lx \<and> lx_tokens lx2 = lx_tokens lx"
      using lex_escape_frame_peeked [OF esc(1,2) e] by (simp add: lx_frame_def)
    ultimately show ?thesis using assms esc e by (auto simp: lex_char_body_def)
  next
    case eol
    with assms show ?thesis by (simp add: lex_char_body_def)
  next
    case plain
    obtain d n where l: "literal_scalar lx = (d, n)" by force
    have "lx_pos lx < length (lx_src lx)" using plain by (auto simp: at_line_end_def lx_peek_None)
    with literal_scalar_weight [OF l v] assms plain l show ?thesis by (auto simp: lex_char_body_def)
  qed
qed

lemma lex_char_paid:
  assumes "lex_char lx (lx_pos lx) ds = (lx', ds')" "lx_peek lx = Some CHR 0x27"
    and v: "valid_utf8 (lx_src lx)"
  shows "paid lx lx'"
proof -
  obtain c lx1 ds1 where b: "lex_char_body (lx_bump lx 1) (lx_pos lx) ds = (c, lx1, ds1)"
    by (metis prod_cases3)
  have w: "pot (lx_src lx) (lx_pos lx1) + 1 \<le> pot (lx_src lx) (lx_pos lx)"
    "lx_src lx1 = lx_src lx" "lx_tokens lx1 = lx_tokens lx"
    using lex_char_body_pot [OF b] bump_pot [OF assms(2)] v by (auto simp: byte_weight_def is_cont_def)
  have "lx_pos lx' = lx_pos lx1 \<or> lx_pos lx' = lx_pos lx1 + 1 \<and> lx_peek lx1 = Some CHR 0x27"
    and one: "one_plain lx lx'"
    using assms(1) b w by (auto simp: lex_char_def one_plain_def lx_push_def as_str_def
        split: option.splits if_splits)
  then have "pot (lx_src lx) (lx_pos lx') \<le> pot (lx_src lx) (lx_pos lx1)"
    using bump_pot [of lx1] v w(2) by auto
  with w one show ?thesis by (intro paid_plain) (simp_all add: one_plain_def)
qed

lemma symbol_ascii:
  assumes k: "symbol_kind c (lx_ahead lx 1) (lx_ahead lx 2) = Some (k, n)" and c: "lx_peek lx = Some c"
  shows "ascii_between (lx_src lx) (lx_pos lx) (lx_pos lx + n)"
proof -
  note len = symbol_kind_len [OF k] and asc = symbol_kind_ascii [OF k]
  have "val (lx_src lx ! i) < 128" if "lx_pos lx \<le> i" "i < lx_pos lx + n" for i
  proof -
    have "i = lx_pos lx \<or> i = lx_pos lx + 1 \<and> 2 \<le> n \<or> i = lx_pos lx + 2 \<and> 3 \<le> n"
      using that len by linarith
    then show ?thesis using asc c by (auto simp: lx_ahead_def get_at_Some_iff lx_peek_Some)
  qed
  then show ?thesis by (simp add: ascii_between_def)
qed

lemma lex_symbol_paid:
  assumes s: "lex_symbol lx (lx_pos lx) ds = Some (lx', ds')" and v: "valid_utf8 (lx_src lx)"
    and p: "lx_pos lx < length (lx_src lx)"
  shows "paid lx lx'"
proof -
  obtain c where c: "lx_peek lx = Some c" "c = lx_src lx ! lx_pos lx" using p by (simp add: lx_peek_Some)
  show ?thesis
  proof (cases "symbol_kind c (lx_ahead lx 1) (lx_ahead lx 2)")
    case None
    obtain d n where l: "literal_scalar lx = (d, n)" by force
    from literal_scalar_weight [OF l v p] str_weight_encode [of d]
    have "pot (lx_src lx) (lx_pos lx + n) + 1 \<le> pot (lx_src lx) (lx_pos lx)"
      by (auto split: if_splits)
    moreover have "lx' = lx_bump lx n"
      using s c None l by (auto simp: lex_symbol_def Let_def literal_scalar_def split: option.splits)
    ultimately show ?thesis by (intro paid_plain) simp_all
  next
    case (Some kn)
    obtain k n where kn: "kn = (k, n)" by force
    note some = Some [unfolded kn]
    have lx': "lx' = lx_push (lx_bump lx n) k (lx_pos lx)" using s c some by (simp add: lex_symbol_def)
    have "one_plain lx lx'" using symbol_kind_ascii [OF some] by (simp add: lx' one_plain_push)
    moreover have "lx_pos lx < lx_pos lx'" using symbol_kind_len [OF some] by (simp add: lx')
    ultimately show ?thesis using p v symbol_ascii [OF some c(1)] by (intro paid_ascii) (simp_all add: lx')
  qed
qed

lemma lex_ident_paid:
  assumes "lex_ident lx (lx_pos lx) = Some lx'" "lx_pos lx < lx_pos lx'" "lx_pos lx < length (lx_src lx)"
    "valid_utf8 (lx_src lx)"
  shows "paid lx lx'"
  using assms ascii_eat_ident [of "lx_src lx" "lx_pos lx"]
  by (intro paid_ascii)
    (auto simp: lex_ident_def Let_def keyword_not_str intro!: one_plain_push split: option.splits)

lemma lex_token_paid:
  assumes t: "lex_token lx ds = Some (lx', ds')" and v: "valid_utf8 (lx_src lx)"
  shows "paid lx lx'"
proof -
  have p: "lx_pos lx < length (lx_src lx)" and gt: "lx_pos lx < lx_pos lx'"
    using lex_token_Some [OF t] by (auto simp: lexed_def)
  obtain c where c: "lx_peek lx = Some c" using p by (simp add: lx_peek_Some)
  consider (num) "lex_number lx (lx_pos lx) ds = Some (lx', ds')"
    | (chr) "lex_char lx (lx_pos lx) ds = (lx', ds')" "c = CHR 0x27"
    | (str) "lex_string lx (lx_pos lx) ds = (lx', ds')" "c = CHR 0x22"
    | (ident) "lex_ident lx (lx_pos lx) = Some lx'"
    | (sym) "lex_symbol lx (lx_pos lx) ds = Some (lx', ds')"
    using t c by (auto simp: lex_token_def Let_def split: if_splits)
  then show ?thesis
  proof cases
    case num
    from lex_number_plain [OF num] gt p v show ?thesis by (intro paid_ascii) (simp_all add: one_number_plain)
  qed (use c gt p v in \<open>auto intro: lex_char_paid lex_string_paid lex_ident_paid lex_symbol_paid\<close>)
qed

subsection \<open>The whole stream\<close>

lemma skip_ws_pot: "valid_utf8 s \<Longrightarrow> pot s (skip_ws s p) \<le> pot s p"
proof (induction s p rule: skip_ws.induct)
  case (1 s p)
  consider (ws) "p < length s" "is_inline_ws (s ! p)"
    | (comment) "p < length s" "\<not> is_inline_ws (s ! p)" "s ! p = CHR ''/''"
        "get_at s (p + 1) = Some CHR ''/''"
    | (stop) "skip_ws s p = p"
    by (metis skip_ws.simps)
  then show ?case
  proof cases
    case ws
    then have "clean s (p + 1)"
      using "1.prems" by (intro clean_after_ascii) (auto simp: is_inline_ws_def)
    then have "pot s (p + 1) \<le> pot s p" by (intro pot_le) simp_all
    moreover have "skip_ws s p = skip_ws s (p + 1)" using ws by (subst skip_ws.simps) (simp add: Suc_eq_plus1)
    ultimately show ?thesis using 1 ws by (simp add: Suc_eq_plus1)
  next
    case comment
    let ?e = "eat_while (\<lambda>c. \<not> is_newline c) s p"
    have "clean s ?e"
      using eat_while_stop [of "\<lambda>c. \<not> is_newline c" s p] not_is_cont_ascii
      by (auto simp: clean_def is_newline_def)
    then have "pot s ?e \<le> pot s p" using eat_while_ge by (intro pot_le) simp_all
    moreover have "skip_ws s p = skip_ws s ?e" using comment by (subst skip_ws.simps) simp
    ultimately show ?thesis using 1 comment by simp
  qed simp
qed

lemma insert_end_weight:
  "toks_weight (lx_tokens (maybe_insert_end lx)) \<le> toks_weight (lx_tokens lx) + 1"
  "strs_valid (lx_tokens (maybe_insert_end lx)) = strs_valid (lx_tokens lx)"
  "lx_pos (maybe_insert_end lx) = lx_pos lx" "lx_src (maybe_insert_end lx) = lx_src lx"
  by (rule maybe_insert_end_cases [of lx]; auto simp: tok_weight_def as_str_def)+

lemma lex_run_loop_weight:
  assumes r: "lex_run_loop (lx_init f s) ds = Some (lx, ds')" and v: "valid_utf8 s"
  shows "toks_weight (lx_tokens lx) \<le> 2 * str_weight s \<and> strs_valid (lx_tokens lx)"
proof -
  let ?I = "\<lambda>lx d. lx_src lx = s \<and> toks_weight (lx_tokens lx) + 2 * pot s (lx_pos lx) \<le> 2 * str_weight s \<and>
    strs_valid (lx_tokens lx)"
  have "?I lx ds' \<and> lx_pos lx \<ge> length (lx_src lx)"
  proof (rule lex_run_loop_invariant [OF r, where I = ?I], goal_cases)
    case 1
    then show ?case using clean_start [OF v] by (simp add: pot_def conts_clean)
  next
    case (2 lx d)
    then show ?case using skip_ws_pot [OF v, of "lx_pos lx"] by simp
  next
    case (3 lx d)
    then have "pot s (lx_pos lx + 1) + 1 \<le> pot s (lx_pos lx)"
      using bump_pot [OF 3(2)] v by (simp add: byte_weight_def is_cont_def)
    with 3 insert_end_weight [of "lx_bump lx 1"] show ?case by simp
  next
    case (4 lx d lx' d')
    then show ?case
      using lex_token_paid [OF 4(3)] v by (simp add: paid_def lexed_def lx_frame_def)
  qed
  then show ?thesis by simp
qed

lemma tokenize_weight:
  assumes "tokenize f s ds = Some (toks, ds')" and v: "valid_utf8 s"
  shows "toks_weight toks \<le> 2 * str_weight s + 2" and "stream_ok toks"
proof -
  obtain lx where r: "lex_run_loop (lx_init f s) ds = Some (lx, ds')" and
    toks: "toks = lx_tokens (maybe_insert_end lx) @
      [\<lparr>tk_kind = Tk_Eof, tk_span = lx_span lx (lx_pos lx) (lx_pos lx), tk_radix = None\<rparr>]"
    using assms(1) by (rule tokenize_loop)
  note w = lex_run_loop_weight [OF r v]
  show "toks_weight toks \<le> 2 * str_weight s + 2"
    using w insert_end_weight(1) [of lx] by (simp add: toks tok_weight_def as_str_def)
  have "no_eof (lx_tokens (maybe_insert_end lx))" "strs_valid (lx_tokens (maybe_insert_end lx))"
    using lex_run_loop_frame [OF r] w insert_end_weight(2) [of lx] by simp_all
  then show "stream_ok toks" by (simp add: stream_ok_def toks no_eof_def strs_valid_def as_str_def)
qed

end
