(* ===== verification/Parser_Expr.thy ===== *)
theory Parser_Expr
  imports Parser_Types Lexer_Weight
begin

section \<open>align\_parser: expressions and statements\<close>

text \<open>
  The expression, block, statement and pattern parsers. They call each other recursively through
  \<open>parse_expr\<close>, \<open>parse_prefix\<close>, \<open>parse_if\<close> and \<open>parse_type\<close>; those calls go through a record of
  methods \<open>R\<close>, and \<open>tie\<close> makes the next record from one. \<open>knot n\<close> allows \<open>n\<close> nested calls.
\<close>

declare One_nat_def [simp del]

record calls =
  c_expr :: "nat \<Rightarrow> expr pm"
  c_prefix :: "expr pm"
  c_if :: "expr pm"
  c_type :: "ty pm"

subsection \<open>Scoped state\<close>

definition MAX_EXPR_DEPTH :: nat where "MAX_EXPR_DEPTH = 128"

text \<open>\<open>std::mem::replace(&mut self.no_struct_literal, b)\<close> around a call, restored before \<open>?\<close>.\<close>

definition with_nsl :: "bool \<Rightarrow> 'a pm \<Rightarrow> 'a pm" where
  "with_nsl b m p =
     (let restore = (\<lambda>q. q\<lparr>ps_no_struct_literal := ps_no_struct_literal p\<rparr>)
      in case m (p\<lparr>ps_no_struct_literal := b\<rparr>) of
           POk a q \<Rightarrow> POk a (restore q) | PNone q \<Rightarrow> PNone (restore q)
         | PPanic \<Rightarrow> PPanic | PFuel \<Rightarrow> PFuel)"

text \<open>The depth guard shared by \<open>parse_expr\<close> and \<open>parse_prefix\<close>.\<close>

definition guard_depth :: "'a pm \<Rightarrow> 'a pm" where
  "guard_depth m p =
     (if MAX_EXPR_DEPTH < ps_depth p + 1 then fail_here ''expression nests too deeply'' p
      else
        (let leave = (\<lambda>q. q\<lparr>ps_depth := ps_depth q - 1\<rparr>)
         in case m (p\<lparr>ps_depth := ps_depth p + 1\<rparr>) of
              POk a q \<Rightarrow> POk a (leave q) | PNone q \<Rightarrow> PNone (leave q)
            | PPanic \<Rightarrow> PPanic | PFuel \<Rightarrow> PFuel))"

text \<open>A lookahead that walks the token list; \<open>None\<close> is a walk longer than the list.\<close>

definition scanP :: "(parser \<Rightarrow> 'a option) \<Rightarrow> 'a pm" where
  "scanP f p = (case f p of Some a \<Rightarrow> POk a p | None \<Rightarrow> PFuel)"

primrec bumps :: "nat \<Rightarrow> unit pm" where
  "bumps 0 = retP ()"
| "bumps (Suc n) = seqP bump (bumps n)"

text \<open>A method for every element, in order.\<close>

primrec mapP :: "('a \<Rightarrow> 'b pm) \<Rightarrow> 'a list \<Rightarrow> 'b list pm" where
  "mapP f [] = retP []"
| "mapP f (x # xs) = bindP (f x) (\<lambda>y. bindP (mapP f xs) (\<lambda>ys. retP (y # ys)))"

text \<open>The expression whose span runs from a start to the previous token.\<close>

definition ending_here :: "span \<Rightarrow> expr_kind \<Rightarrow> expr pm" where
  "ending_here start k = bindP (span_from start) (\<lambda>sp. retP (Expr k sp))"

definition parse_delimited_expr :: "calls \<Rightarrow> nat \<Rightarrow> expr pm" where
  "parse_delimited_expr R min_bp = with_nsl False (c_expr R min_bp)"

subsection \<open>Binary operators\<close>

definition single_binops :: "(tok_kind \<times> bin_op \<times> nat) list" where
  "single_binops =
     [(Tk_OrOr, Op_Or, 1), (Tk_AndAnd, Op_And, 2), (Tk_EqEq, Op_Eq, 3), (Tk_NotEq, Op_Ne, 3),
      (Tk_Lt, Op_Lt, 3), (Tk_Le, Op_Le, 3), (Tk_Gt, Op_Gt, 3), (Tk_Ge, Op_Ge, 3),
      (Tk_Plus, Op_Add, 4), (Tk_Minus, Op_Sub, 4), (Tk_Pipe, Op_BitOr, 4), (Tk_Caret, Op_BitXor, 4),
      (Tk_Star, Op_Mul, 5), (Tk_Slash, Op_Div, 5), (Tk_Percent, Op_Rem, 5), (Tk_Amp, Op_BitAnd, 5)]"

definition binop :: "parser \<Rightarrow> (bin_op \<times> nat \<times> nat) option" where
  "binop p =
     (if p_peek p = Tk_Lt \<and> p_peek_at p 1 = Tk_Lt then Some (Op_Shl, 5, 2)
      else if p_peek p = Tk_Gt \<and> p_peek_at p 1 = Tk_Gt then Some (Op_Shr, 5, 2)
      else map_option (\<lambda>(op, bp). (op, bp, 1)) (map_of single_binops (p_peek p)))"

subsection \<open>Patterns\<close>

definition at_value_pattern :: "parser \<Rightarrow> bool" where
  "at_value_pattern p \<longleftrightarrow>
     as_int (p_peek p) \<noteq> None \<or> as_char (p_peek p) \<noteq> None \<or> as_str (p_peek p) \<noteq> None \<or>
     p_peek p = Tk_Minus \<and> as_int (p_peek_at p 1) \<noteq> None"

definition i128_checked_neg :: "int \<Rightarrow> int option" where
  "i128_checked_neg v = (if v = - (2 ^ 127) then None else Some (- v))"

definition negative_literal :: "(literal_pat \<times> span) pm" where
  "negative_literal = readP (\<lambda>p.
     let minus_span = p_prev_span p in
     case as_int (p_peek p) of
       Some v \<Rightarrow>
         (let sp = merge minus_span (p_span p)
          in seqP bump (case i128_checked_neg v of
               None \<Rightarrow> failP (''integer literal out of range: -'' @ show_int v) sp
             | Some w \<Rightarrow> retP (LP_Int w, sp)))
     | None \<Rightarrow> fail_here (''expected integer literal after '' @ quoted ''-'' @ '' in pattern''))"

definition positive_literal :: "(literal_pat \<times> span) pm" where
  "positive_literal = readP (\<lambda>p.
     case as_int (p_peek p) of
       Some v \<Rightarrow> seqP bump (retP (LP_Int v, p_span p))
     | None \<Rightarrow>
         (case as_char (p_peek p) of
            Some c \<Rightarrow> seqP bump (retP (LP_Char c, p_span p))
          | None \<Rightarrow>
              (case as_str (p_peek p) of
                 Some s \<Rightarrow> seqP bump (retP (LP_Str s, p_span p))
               | None \<Rightarrow> fail_here
                   ''expected integer, character, or string literal in pattern'')))"

definition parse_pattern_literal :: "(literal_pat \<times> span) pm" where
  "parse_pattern_literal =
     bindP (eat Tk_Minus) (\<lambda>b. if b then negative_literal else positive_literal)"

definition range_pattern :: "literal_pat \<Rightarrow> span \<Rightarrow> bool \<Rightarrow> value_pattern pm" where
  "range_pattern start_lit start_span inclusive =
     bindP parse_pattern_literal (\<lambda>(end_lit, end_span).
     retP (VP_Range start_lit end_lit inclusive (merge start_span end_span)))"

definition parse_single_value_pattern :: "value_pattern pm" where
  "parse_single_value_pattern =
     bindP parse_pattern_literal (\<lambda>(start_lit, start_span).
     bindP (eat Tk_DotDotEq) (\<lambda>b.
     if b then range_pattern start_lit start_span True
     else bindP (eat Tk_DotDot) (\<lambda>b'.
       if b' then
         bindP prev_spanP (\<lambda>sp.
         seqP (errorP ''half-open range patterns (`..`) are not supported in match; use inclusive range `..=`'' sp)
           (range_pattern start_lit start_span False))
       else retP (VP_Single start_lit start_span))))"

text \<open>\<open>while self.eat(Pipe) { self.skip_ends(); push(element?) }\<close>.\<close>

definition pipe_list :: "'a pm \<Rightarrow> 'a list \<Rightarrow> 'a list pm" where
  "pipe_list element =
     loopP (\<lambda>xs. bindP (eat Tk_Pipe) (\<lambda>b.
       if b then seqP skip_ends (bindP element (\<lambda>x. retP (Inl (xs @ [x]))))
       else retP (Inr xs)))"

definition value_patterns :: "match_pattern pm" where
  "value_patterns =
     bindP parse_single_value_pattern (\<lambda>first.
     bindP (pipe_list parse_single_value_pattern [first]) (\<lambda>patterns.
     bindP (span_from (value_pattern_span first)) (\<lambda>sp.
     retP (MP_Value patterns sp))))"

definition or_pattern_name :: "ident pm" where
  "or_pattern_name = parse_ident ''a variant name in an or-pattern''"

text \<open>\<open>loop { skip_ends; if at(close) || at(Eof) { break } push(element?); if !eat(Comma) { break } }\<close>.\<close>

definition line_comma_list :: "tok_kind \<Rightarrow> 'a pm \<Rightarrow> 'a list pm" where
  "line_comma_list close element =
     loopP (\<lambda>xs. seqP skip_ends (readP (\<lambda>p.
       if p_at p close \<or> p_at p Tk_Eof then retP (Inr xs)
       else bindP element (\<lambda>x. bindP (eat Tk_Comma) (\<lambda>b.
              retP (if b then Inl (xs @ [x]) else Inr (xs @ [x]))))))) []"

definition discard_or_tail :: "unit pm" where
  "discard_or_tail = readP (\<lambda>p.
     if p_at p Tk_Pipe then
       seqP (errorP ''an or-pattern cannot bind a payload; list bare variant names (`A | B`) or use separate arms''
              (p_span p))
         (bindP (pipe_list (attemptP or_pattern_name) []) (\<lambda>_. retP ()))
     else retP ())"

definition payload_bindings :: "ident list pm" where
  "payload_bindings =
     bindP (eat Tk_LParen) (\<lambda>b.
     if b then
       bindP (line_comma_list Tk_RParen (parse_ident ''a payload binding'')) (\<lambda>bindings.
       seqP (expect Tk_RParen (quoted '')'')) (seqP discard_or_tail (retP bindings)))
     else retP [])"

definition name_pattern :: "match_pattern pm" where
  "name_pattern =
     bindP (parse_ident ''match pattern (a variant name, literal, or `_`)'') (\<lambda>i.
     if id_name i = ''_'' then retP (MP_Wildcard (id_span i))
     else readP (\<lambda>p.
       if p_at p Tk_Pipe then
         bindP (pipe_list or_pattern_name [i]) (\<lambda>variants.
         bindP (span_from (id_span i)) (\<lambda>sp. retP (MP_Or variants sp)))
       else bindP payload_bindings (\<lambda>bindings. retP (MP_Variant i bindings))))"

definition parse_arm_pattern :: "match_pattern pm" where
  "parse_arm_pattern = readP (\<lambda>p. if at_value_pattern p then value_patterns else name_pattern)"

subsection \<open>Lookahead\<close>

text \<open>The index after the group of parentheses that opens at \<open>i\<close>; \<open>Some None\<close> is the \<open>return false\<close> at
  the end of the file. The first number bounds the walk.\<close>

primrec group_end :: "nat \<Rightarrow> parser \<Rightarrow> nat \<Rightarrow> nat \<Rightarrow> nat option option" where
  "group_end 0 p i depth = None"
| "group_end (Suc n) p i depth =
     (if p_peek_at p i = Tk_LParen then group_end n p (i + 1) (depth + 1)
      else if p_peek_at p i = Tk_RParen then
        (if depth - 1 = 0 then Some (Some (i + 1)) else group_end n p (i + 1) (depth - 1))
      else if p_peek_at p i = Tk_Eof then Some None
      else group_end n p (i + 1) depth)"

definition binding_at :: "parser \<Rightarrow> nat \<Rightarrow> bool" where
  "binding_at p i \<longleftrightarrow>
     identifier_at p i \<and> (p_peek_at p (i + 1) = Tk_ColonEq \<or> p_peek_at p (i + 1) = Tk_Colon)"

definition looks_like_aligned_binding :: "parser \<Rightarrow> bool option" where
  "looks_like_aligned_binding p =
     (if as_ident (p_peek p) \<noteq> Some ''align'' then Some False
      else if p_peek_at p 1 \<noteq> Tk_LParen then Some False
      else
        (case group_end (length (ps_tokens p) + 1) p 1 0 of
           None \<Rightarrow> None
         | Some None \<Rightarrow> Some False
         | Some (Some i) \<Rightarrow> Some (p_peek_at p i = Tk_Mut \<or> binding_at p i)))"

text \<open>The number of names of a parenthesized name list, and the index after it.\<close>

primrec name_list_end :: "nat \<Rightarrow> parser \<Rightarrow> nat \<Rightarrow> nat \<Rightarrow> (nat \<times> nat) option option" where
  "name_list_end 0 p i count = None"
| "name_list_end (Suc n) p i count =
     (if \<not> identifier_at p i then Some None
      else if p_peek_at p (i + 1) = Tk_RParen then Some (Some (count + 1, i + 2))
      else if p_peek_at p (i + 1) \<noteq> Tk_Comma then Some None
      else if p_peek_at p (i + 2) = Tk_RParen then Some (Some (count + 1, i + 3))
      else name_list_end n p (i + 2) (count + 1))"

definition looks_like_destructure :: "parser \<Rightarrow> bool option" where
  "looks_like_destructure p =
     (if \<not> p_at p Tk_LParen then Some False
      else
        (case name_list_end (length (ps_tokens p) + 1) p 1 0 of
           None \<Rightarrow> None
         | Some None \<Rightarrow> Some False
         | Some (Some (count, i)) \<Rightarrow> Some (2 \<le> count \<and> p_peek_at p i = Tk_ColonEq)))"

primrec path_scan :: "nat \<Rightarrow> parser \<Rightarrow> nat \<Rightarrow> nat \<Rightarrow> (nat \<times> nat) option" where
  "path_scan 0 p segs i = None"
| "path_scan (Suc n) p segs i =
     (if p_peek_at p i = Tk_Dot \<and> noninitial_path_segment_at p (i + 1)
      then path_scan n p (segs + 1) (i + 2) else Some (segs, i))"

definition struct_lit_path_len :: "parser \<Rightarrow> nat option option" where
  "struct_lit_path_len p =
     (case path_scan (length (ps_tokens p) + 1) p 1 1 of
        None \<Rightarrow> None
      | Some (segs, i) \<Rightarrow>
          Some (if p_peek_at p i = Tk_LBrace \<and> identifier_at p (i + 1) \<and> p_peek_at p (i + 2) = Tk_Colon
                then Some segs else None))"

subsection \<open>Attributes\<close>

fun is_power_of_two :: "nat \<Rightarrow> bool" where
  "is_power_of_two n \<longleftrightarrow>
     (if n = 0 then False else if n = 1 then True else even n \<and> is_power_of_two (n div 2))"

declare is_power_of_two.simps [simp del]

definition check_alignment :: "int \<Rightarrow> span \<Rightarrow> nat option pm" where
  "check_alignment n sp =
     (if n \<le> 0 \<or> \<not> is_power_of_two (nat n) then
        seqP (errorP (''an alignment must be a positive power of two, got '' @ show_int n) sp) (retP None)
      else if n < 2 ^ 32 \<and> n \<le> 2 ^ 29 then retP (Some (nat n))
      else seqP (errorP (''alignment '' @ show_int n @ '' is too large'') sp) (retP None))"

definition parse_align_attr :: "nat option pm" where
  "parse_align_attr =
     seqP bump
     (seqP (expect Tk_LParen (quoted ''('' @ '' after `align`''))
     (readP (\<lambda>p.
        case as_int (p_peek p) of
          Some n \<Rightarrow>
            seqP bump (seqP (expect Tk_RParen (quoted '')'')) (check_alignment n (p_span p)))
        | None \<Rightarrow>
            seqP (errorP ''`align(N)` needs an integer alignment'' (p_span p))
              (seqP (eat Tk_RParen) (retP None)))))"

subsection \<open>Statements and blocks\<close>

definition optional_type :: "calls \<Rightarrow> ty option pm" where
  "optional_type R =
     bindP (eat Tk_Colon) (\<lambda>b. if b then bindP (c_type R) (\<lambda>t. retP (Some t)) else retP None)"

definition parse_let :: "calls \<Rightarrow> nat option \<Rightarrow> stmt pm" where
  "parse_let R align = readP (\<lambda>p0.
     bindP (if p_at p0 Tk_Mut \<and> p_peek_at p0 1 \<noteq> Tk_ColonEq \<and> p_peek_at p0 1 \<noteq> Tk_Colon
            then eat Tk_Mut else retP False) (\<lambda>is_mut.
     bindP (parse_ident ''variable name'') (\<lambda>name.
     bindP (optional_type R) (\<lambda>t.
     seqP (expect Tk_ColonEq (quoted '':=''))
     (bindP (c_expr R 0) (\<lambda>init.
      seqP expect_stmt_end
      (retP (S_Let is_mut name t init align))))))))"

definition tuple_names :: "ident option list pm" where
  "tuple_names =
     loopP (\<lambda>names.
       bindP (parse_ident (''binding name or '' @ quoted ''_'')) (\<lambda>i.
       let names' = names @ [if id_name i = ''_'' then None else Some i] in
       bindP (eat Tk_RParen) (\<lambda>b.
       if b then retP (Inr names')
       else seqP (expect Tk_Comma (quoted '',''))
         (bindP (eat Tk_RParen) (\<lambda>b'. retP (if b' then Inr names' else Inl names')))))) []"

definition parse_let_tuple :: "calls \<Rightarrow> stmt pm" where
  "parse_let_tuple R = readP (\<lambda>p0.
     seqP bump
     (bindP tuple_names (\<lambda>names.
      seqP (expect Tk_ColonEq (quoted '':=''))
      (bindP (c_expr R 0) (\<lambda>init.
       seqP expect_stmt_end
       (bindP (span_from (p_span p0)) (\<lambda>sp.
        retP (S_LetTuple names init sp))))))))"

text \<open>The optional value of \<open>return\<close> and \<open>break\<close>.\<close>

definition exit_value :: "calls \<Rightarrow> expr option pm" where
  "exit_value R = readP (\<lambda>p.
     if p_at_stmt_end p \<or> p_at p Tk_RBrace then retP None
     else bindP (c_expr R 0) (\<lambda>e. retP (Some e)))"

definition parse_return :: "calls \<Rightarrow> stmt pm" where
  "parse_return R =
     seqP bump (bindP (exit_value R) (\<lambda>v. seqP expect_stmt_end (retP (S_Return v))))"

definition parse_break :: "calls \<Rightarrow> stmt pm" where
  "parse_break R = readP (\<lambda>p0.
     seqP bump (bindP (exit_value R) (\<lambda>v. seqP expect_stmt_end (retP (S_Break v (p_span p0))))))"

definition foreign_loop_hint :: "bytes \<Rightarrow> string" where
  "foreign_loop_hint kw =
     (if kw = ''continue''
      then ''there is no `continue`; guard the rest of the iteration with an `if`''
      else ''traverse data with a pipeline (`map`/`where`/`reduce`), or use `loop { ... break }` for control flow'')"

definition foreign_loop_word :: "tok_kind \<Rightarrow> bytes option" where
  "foreign_loop_word k =
     (case as_ident k of
        Some w \<Rightarrow> if w = ''for'' \<or> w = ''while'' \<or> w = ''continue'' then Some w else None
      | None \<Rightarrow> None)"

text \<open>A statement that starts with an expression: an assignment, an expression statement, or the
  tail of the block.\<close>

definition expr_stmt :: "calls \<Rightarrow> stmt list \<Rightarrow> (stmt list + stmt list \<times> expr option) pm" where
  "expr_stmt R stmts =
     bindP (c_expr R 0) (\<lambda>e.
     bindP (eat Tk_Eq) (\<lambda>b.
     if b then
       bindP (c_expr R 0) (\<lambda>value.
       seqP expect_stmt_end (retP (Inl (stmts @ [S_Assign e value]))))
     else
       bindP eat_stmt_end (\<lambda>b'.
       if b' then
         seqP skip_ends (readP (\<lambda>q.
           if p_at q Tk_RBrace then retP (Inr (stmts, Some e))
           else retP (Inl (stmts @ [S_Expr e]))))
       else retP (Inr (stmts, Some e)))))"

definition let_stmt :: "calls \<Rightarrow> bool \<Rightarrow> bool \<Rightarrow> stmt pm" where
  "let_stmt R tuple aligned =
     (if tuple then parse_let_tuple R
      else if aligned then bindP parse_align_attr (parse_let R)
      else parse_let R None)"

definition block_turn :: "calls \<Rightarrow> stmt list \<Rightarrow> (stmt list + stmt list \<times> expr option) pm" where
  "block_turn R stmts =
     seqP skip_ends
     (readP (\<lambda>p.
        if p_at p Tk_RBrace \<or> p_at p Tk_Eof then retP (Inr (stmts, None))
        else case foreign_loop_word (p_peek p) of
          Some kw \<Rightarrow>
            failP (''`'' @ kw @ ''` does not exist in Align: '' @ foreign_loop_hint kw) (p_span p)
        | None \<Rightarrow>
            bindP (scanP looks_like_destructure) (\<lambda>tuple.
            bindP (if tuple then retP False else scanP looks_like_aligned_binding) (\<lambda>aligned.
            if tuple \<or> aligned \<or> p_at p Tk_Mut \<or> binding_at p 0 then
              bindP (let_stmt R tuple aligned) (\<lambda>s. retP (Inl (stmts @ [s])))
            else if p_at p Tk_Return then
              bindP (parse_return R) (\<lambda>s. retP (Inl (stmts @ [s])))
            else if p_at p Tk_Break then
              bindP (parse_break R) (\<lambda>s. retP (Inl (stmts @ [s])))
            else expr_stmt R stmts))))"

definition parse_block :: "calls \<Rightarrow> block pm" where
  "parse_block R = readP (\<lambda>p0.
     seqP (expect Tk_LBrace (quoted ''{''))
     (bindP (loopP (block_turn R) []) (\<lambda>(stmts, tail).
      seqP (expect Tk_RBrace (quoted ''}''))
      (bindP (span_from (p_span p0)) (\<lambda>sp.
       retP (Block stmts tail sp))))))"

subsection \<open>Template holes\<close>

definition u32_add :: "nat \<Rightarrow> nat \<Rightarrow> nat" where
  "u32_add a b = (a + b) mod 2 ^ 32"

definition remap :: "nat \<Rightarrow> span \<Rightarrow> span" where
  "remap base s = span_new (span_file s) (u32_add (span_lo s) base) (u32_add (span_hi s) base)"

definition remap_token :: "nat \<Rightarrow> token \<Rightarrow> token" where
  "remap_token base t = t\<lparr>tk_span := remap base (tk_span t)\<rparr>"

definition remap_diag :: "nat \<Rightarrow> diagnostic \<Rightarrow> diagnostic" where
  "remap_diag base d = d\<lparr>diag_span := map_option (remap base) (diag_span d)\<rparr>"

text \<open>After the hole's expression: nothing but terminators may be left.\<close>

definition hole_rest :: "bool \<Rightarrow> unit pm" where
  "hole_rest is_some =
     seqP skip_ends (readP (\<lambda>p.
       if is_some \<and> p_peek p \<noteq> Tk_Eof
       then errorP ''a template hole must be a single expression'' (p_span p) else retP ()))"

definition parse_hole_expr :: "calls \<Rightarrow> bytes \<Rightarrow> span \<Rightarrow> nat \<Rightarrow> expr pm" where
  "parse_hole_expr R src str_span off p =
     (let base = u32_add (u32_add (span_lo str_span) 1) (u32_cast off)
      in case tokenize (span_file str_span) src [] of
           None \<Rightarrow> PPanic
         | Some (ts, hole_diags) \<Rightarrow>
             (let sub = \<lparr>ps_tokens = map (remap_token base) ts, ps_pos = 0,
                    ps_diags = ps_diags p @ map (remap_diag base) hole_diags,
                    ps_no_struct_literal = False, ps_depth = 0, ps_rejected = ps_rejected p\<rparr>;
                  hole_span = span_new (span_file str_span) base (u32_add base (u32_cast (length src)))
              in case bindP (attemptP (c_expr R 0)) (\<lambda>e. seqP (hole_rest (e \<noteq> None)) (retP e)) sub of
                   POk e q \<Rightarrow>
                     POk (case e of Some x \<Rightarrow> x | None \<Rightarrow> Expr E_Unit hole_span)
                       (p\<lparr>ps_diags := ps_diags q\<rparr>)
                 | PNone q \<Rightarrow> PNone (p\<lparr>ps_diags := ps_diags q\<rparr>)
                 | PPanic \<Rightarrow> PPanic
                 | PFuel \<Rightarrow> PFuel))"

definition parse_part :: "calls \<Rightarrow> span \<Rightarrow> raw_part \<Rightarrow> template_part pm" where
  "parse_part R str_span rp =
     (case rp of
        RP_Text s \<Rightarrow> retP (TP_Text s)
      | RP_Hole src off \<Rightarrow> bindP (parse_hole_expr R src str_span off) (\<lambda>e. retP (TP_Hole e)))"

definition template_expr :: "calls \<Rightarrow> span \<Rightarrow> expr pm" where
  "template_expr R sp =
     seqP bump
     (readP (\<lambda>p.
        case as_str (p_peek p) of
          Some content \<Rightarrow>
            seqP bump
            (bindP (mapP (parse_part R (p_span p)) (split_template content)) (\<lambda>parts.
             ending_here sp (E_Template parts)))
        | None \<Rightarrow> failP ''expected a string literal after `template`'' (p_span p)))"

subsection \<open>Primary expressions\<close>

definition follows_name :: "tok_kind list" where
  "follows_name =
     [Tk_LParen, Tk_LBracket, Tk_Lt, Tk_Gt, Tk_Dot, Tk_RParen, Tk_RBracket, Tk_RBrace, Tk_Semicolon,
      Tk_End, Tk_Eof, Tk_Comma, Tk_Question, Tk_Eq, Tk_Plus, Tk_Minus, Tk_Star, Tk_Slash, Tk_Percent,
      Tk_EqEq, Tk_NotEq, Tk_Le, Tk_Ge, Tk_AndAnd, Tk_OrOr, Tk_Amp, Tk_Pipe, Tk_Caret, Tk_As]"

text \<open>A reserved word that was rejected as a name before, where no keyword construct can start.\<close>

definition recovered_name :: "parser \<Rightarrow> bytes option" where
  "recovered_name p =
     (case reserved_word (p_peek p) of
        Some word \<Rightarrow>
          if word \<in> set (ps_rejected p) \<and> p_peek p \<notin> {Tk_True, Tk_False} \<and>
             \<not> (p_peek p \<in> {Tk_If, Tk_Match} \<and>
                p_peek_at p 1 \<in> {Tk_LParen, Tk_LBracket, Tk_Minus, Tk_Dot}) \<and>
             p_peek_at p 1 \<in> set follows_name
          then Some word else None
      | None \<Rightarrow> None)"

definition literal_kind :: "tok_kind \<Rightarrow> expr_kind option" where
  "literal_kind k =
     (case k of Tk_Int v \<Rightarrow> Some (E_Int v) | Tk_Float v \<Rightarrow> Some (E_Float v) | Tk_Char v \<Rightarrow> Some (E_Char v)
      | Tk_Str s \<Rightarrow> Some (E_Str s) | Tk_True \<Rightarrow> Some (E_Bool True) | Tk_False \<Rightarrow> Some (E_Bool False)
      | _ \<Rightarrow> None)"

definition name_expr :: "ident \<Rightarrow> expr" where
  "name_expr i = Expr (E_Path \<lparr>path_segments = [i], path_span = id_span i\<rparr>) (id_span i)"

text \<open>\<open>for _ in 1..segs { expect('.'); push(segment?) }\<close>.\<close>

primrec more_segments :: "nat \<Rightarrow> ident list \<Rightarrow> ident list pm" where
  "more_segments 0 segments = retP segments"
| "more_segments (Suc n) segments =
     seqP (expect Tk_Dot (quoted ''.''))
     (bindP (parse_noninitial_path_segment ''type name'') (\<lambda>i. more_segments n (segments @ [i])))"

definition field_init_turn :: "calls \<Rightarrow> field_init list \<Rightarrow> (field_init list + field_init list) pm" where
  "field_init_turn R inits =
     seqP skip_ends
     (readP (\<lambda>p.
        if p_at p Tk_RBrace \<or> p_at p Tk_Eof then retP (Inr inits)
        else
          bindP (parse_referenced_ident ''field name'') (\<lambda>fname.
          seqP (expect Tk_Colon (quoted '':''))
          (bindP (parse_delimited_expr R 0) (\<lambda>value.
           bindP (span_from (p_span p)) (\<lambda>sp.
           seqP (eat Tk_Comma) (retP (Inl (inits @ [Field_Init fname value sp])))))))))"

definition parse_struct_lit :: "calls \<Rightarrow> nat \<Rightarrow> expr pm" where
  "parse_struct_lit R segs = readP (\<lambda>p0.
     bindP (parse_ident ''type name'') (\<lambda>i.
     bindP (more_segments (segs - 1) [i]) (\<lambda>segments.
     bindP (span_from (p_span p0)) (\<lambda>name_span.
     seqP (expect Tk_LBrace (quoted ''{''))
     (bindP (loopP (field_init_turn R) []) (\<lambda>inits.
      seqP (expect Tk_RBrace (quoted ''}''))
      (ending_here (p_span p0)
         (E_StructLit \<lparr>path_segments = segments, path_span = name_span\<rparr> inits))))))))"

definition ident_expr :: "calls \<Rightarrow> expr pm" where
  "ident_expr R = readP (\<lambda>p.
     bindP (if ps_no_struct_literal p then retP None else scanP struct_lit_path_len) (\<lambda>segs.
     case segs of
       Some n \<Rightarrow> parse_struct_lit R n
     | None \<Rightarrow> bindP (parse_ident ''identifier'') (\<lambda>i. retP (name_expr i))))"

definition lambda_params :: "calls \<Rightarrow> lambda_param list pm" where
  "lambda_params R = readP (\<lambda>p.
     if p_at p Tk_LBrace then retP []
     else
       loopP (\<lambda>params.
         bindP (parse_ident ''lambda parameter'') (\<lambda>name.
         bindP (optional_type R) (\<lambda>t.
         bindP (eat Tk_Comma) (\<lambda>b.
         let params' = params @ [\<lparr>lp_name = name, lp_ty = t\<rparr>] in
         retP (if b then Inl params' else Inr params'))))) [])"

definition lambda_expr :: "calls \<Rightarrow> span \<Rightarrow> expr pm" where
  "lambda_expr R sp =
     seqP bump
     (bindP (lambda_params R) (\<lambda>params.
      bindP (parse_block R) (\<lambda>body.
      ending_here sp (E_Lambda params body))))"

text \<open>A keyword and its block: \<open>loop\<close>, \<open>unsafe\<close> and \<open>task_group\<close>.\<close>

definition keyword_block :: "calls \<Rightarrow> span \<Rightarrow> (block \<Rightarrow> expr_kind) \<Rightarrow> expr pm" where
  "keyword_block R sp mk = seqP bump (bindP (parse_block R) (\<lambda>b. ending_here sp (mk b)))"

definition arena_expr :: "calls \<Rightarrow> span \<Rightarrow> expr pm" where
  "arena_expr R sp =
     seqP bump
     (readP (\<lambda>p.
        bindP (if identifier_at p 0 then attemptP (parse_ident ''arena binding'') else retP None) (\<lambda>name.
        bindP (parse_block R) (\<lambda>b.
        ending_here sp (case name of Some n \<Rightarrow> E_NamedArena n b | None \<Rightarrow> E_Arena b)))))"

definition float_options :: "ident list pm" where
  "float_options = readP (\<lambda>p.
     if p_at p Tk_RParen then retP []
     else
       loopP (\<lambda>os.
         bindP (parse_ident ''floating-point relaxation option'') (\<lambda>i.
         bindP (eat Tk_Comma) (\<lambda>b. retP (if b then Inl (os @ [i]) else Inr (os @ [i]))))) [])"

definition float_expr :: "calls \<Rightarrow> span \<Rightarrow> expr pm" where
  "float_expr R sp =
     seqP bump
     (bindP (eat Tk_LParen) (\<lambda>b.
      if \<not> b then fail_here ''expected `(` after `float`''
      else
        bindP float_options (\<lambda>os.
        bindP (eat Tk_RParen) (\<lambda>b'.
        if \<not> b' then fail_here ''expected `)` after floating-point relaxation options''
        else bindP (parse_block R) (\<lambda>blk. ending_here sp (E_FloatScope os blk))))))"

definition paren_expr :: "calls \<Rightarrow> span \<Rightarrow> expr pm" where
  "paren_expr R sp =
     seqP bump
     (bindP (eat Tk_RParen) (\<lambda>b.
      if b then ending_here sp E_Unit
      else
        bindP (parse_delimited_expr R 0) (\<lambda>first.
        bindP (more_elements Tk_RParen (parse_delimited_expr R 0) first) (\<lambda>elems.
        seqP (expect Tk_RParen (quoted '')''))
        (bindP (span_from sp) (\<lambda>sp'.
         retP (case elems of [e] \<Rightarrow> e | _ \<Rightarrow> Expr (E_Tuple elems) sp')))))))"

definition array_expr :: "calls \<Rightarrow> span \<Rightarrow> expr pm" where
  "array_expr R sp =
     seqP bump
     (bindP (loopP (\<lambda>xs. seqP skip_ends (readP (\<lambda>p.
          if p_at p Tk_RBracket \<or> p_at p Tk_Eof then retP (Inr xs)
          else
            bindP (parse_delimited_expr R 0) (\<lambda>x.
            seqP skip_ends
            (bindP (eat Tk_Comma) (\<lambda>b. retP (if b then Inl (xs @ [x]) else Inr (xs @ [x])))))))) []) (\<lambda>elems.
      seqP skip_ends
      (seqP (expect Tk_RBracket (quoted '']''))
      (ending_here sp (E_ArrayLit elems)))))"

definition parse_match_arm :: "calls \<Rightarrow> match_arm list \<Rightarrow> (match_arm list + match_arm list) pm" where
  "parse_match_arm R arms =
     seqP skip_ends
     (readP (\<lambda>p.
        if p_at p Tk_RBrace \<or> p_at p Tk_Eof then retP (Inr arms)
        else
          bindP parse_arm_pattern (\<lambda>pattern.
          seqP (expect Tk_FatArrow (quoted ''=>''))
          (bindP (c_expr R 0) (\<lambda>body.
           bindP (span_from (p_span p)) (\<lambda>sp.
           seqP (eat Tk_Comma) (retP (Inl (arms @ [Match_Arm pattern body sp])))))))))"

definition parse_match :: "calls \<Rightarrow> expr pm" where
  "parse_match R = readP (\<lambda>p0.
     seqP bump
     (bindP (with_nsl True (c_expr R 0)) (\<lambda>scrutinee.
      seqP (expect Tk_LBrace (quoted ''{''))
      (bindP (loopP (parse_match_arm R) []) (\<lambda>arms.
       seqP (expect Tk_RBrace (quoted ''}''))
       (ending_here (p_span p0) (E_Match scrutinee arms)))))))"

definition block_expr :: "calls \<Rightarrow> expr pm" where
  "block_expr R = bindP (parse_block R) (\<lambda>b. retP (Expr (E_Block b) (block_span b)))"

definition else_branch :: "calls \<Rightarrow> expr option pm" where
  "else_branch R =
     bindP (eat Tk_Else) (\<lambda>b.
     if b then readP (\<lambda>p.
       bindP (if p_at p Tk_If then c_if R else block_expr R) (\<lambda>e. retP (Some e)))
     else retP None)"

definition parse_if :: "calls \<Rightarrow> expr pm" where
  "parse_if R = readP (\<lambda>p0.
     seqP bump
     (bindP (with_nsl True (c_expr R 0)) (\<lambda>cond.
      bindP (parse_block R) (\<lambda>then_block.
      bindP (else_branch R) (\<lambda>els.
      ending_here (p_span p0) (E_If cond then_block els))))))"

definition parse_primary :: "calls \<Rightarrow> expr pm" where
  "parse_primary R = readP (\<lambda>p.
     let sp = p_span p; k = p_peek p in
     case recovered_name p of
       Some word \<Rightarrow> seqP bump (retP (name_expr (mk_ident word sp)))
     | None \<Rightarrow>
     case literal_kind k of
       Some lit \<Rightarrow> seqP bump (retP (Expr lit sp))
     | None \<Rightarrow>
     if as_ident k \<noteq> None then ident_expr R
     else if k = Tk_Dot \<and> identifier_at p 1 then
       seqP bump
       (bindP (parse_referenced_ident ''field name'') (\<lambda>field. ending_here sp (E_FieldShorthand field)))
     else if k = Tk_Template then template_expr R sp
     else if k = Tk_Fn then lambda_expr R sp
     else if k = Tk_If then parse_if R
     else if k = Tk_Loop then keyword_block R sp E_Loop
     else if k = Tk_Arena then arena_expr R sp
     else if k = Tk_FloatScope then float_expr R sp
     else if k = Tk_Unsafe then keyword_block R sp E_Unsafe
     else if k = Tk_TaskGroup then keyword_block R sp E_TaskGroup
     else if k = Tk_Match then parse_match R
     else if k = Tk_LParen then paren_expr R sp
     else if k = Tk_LBrace then block_expr R
     else if k = Tk_LBracket then array_expr R sp
     else failP ''expected expression'' sp)"

subsection \<open>Postfix, prefix, cast and binary expressions\<close>

definition call_suffix :: "calls \<Rightarrow> expr \<Rightarrow> expr pm" where
  "call_suffix R e =
     seqP bump
     (bindP (comma_list Tk_RParen (parse_delimited_expr R 0)) (\<lambda>args.
      seqP (expect Tk_RParen (quoted '')''))
      (ending_here (span_of e) (E_Call e args))))"

definition field_suffix :: "expr \<Rightarrow> expr pm" where
  "field_suffix e =
     seqP bump
     (bindP (parse_noninitial_path_segment ''field or method name'') (\<lambda>field.
      retP (Expr (E_FieldAccess e field) (merge (span_of e) (id_span field)))))"

definition u32_or_max :: "int \<Rightarrow> nat" where
  "u32_or_max v = (if 0 \<le> v \<and> v < 2 ^ 32 then nat v else 2 ^ 32 - 1)"

definition tuple_suffix :: "expr \<Rightarrow> expr pm" where
  "tuple_suffix e =
     seqP bump
     (bindP bump (\<lambda>t.
      case as_int (tk_kind t) of
        Some v \<Rightarrow> retP (Expr (E_TupleIndex e (u32_or_max v)) (merge (span_of e) (tk_span t)))
      | None \<Rightarrow> (\<lambda>p. PPanic)))"

definition slice_end :: "calls \<Rightarrow> expr option pm" where
  "slice_end R = readP (\<lambda>p. if p_at p Tk_RBracket then retP None
     else bindP (parse_delimited_expr R 0) (\<lambda>x. retP (Some x)))"

text \<open>The rest of \<open>recv[start..end]\<close>, from the two dots.\<close>

definition slice_rest :: "calls \<Rightarrow> expr \<Rightarrow> expr option \<Rightarrow> expr pm" where
  "slice_rest R e start =
     seqP bump
     (bindP (slice_end R) (\<lambda>end_expr.
      seqP (expect Tk_RBracket (quoted '']''))
      (ending_here (span_of e) (E_SliceRange e start end_expr))))"

definition bracket_suffix :: "calls \<Rightarrow> expr \<Rightarrow> expr pm" where
  "bracket_suffix R e =
     seqP bump
     (readP (\<lambda>p.
        if p_at p Tk_DotDot then slice_rest R e None
        else
          bindP (parse_delimited_expr R 0) (\<lambda>first.
          readP (\<lambda>q.
            if p_at q Tk_DotDot then slice_rest R e (Some first)
            else seqP (expect Tk_RBracket (quoted '']''))
                   (ending_here (span_of e) (E_Index e first))))))"

definition postfix_turn :: "calls \<Rightarrow> expr \<Rightarrow> (expr + expr) pm" where
  "postfix_turn R e = readP (\<lambda>p.
     let again = (\<lambda>m. bindP m (\<lambda>e'. retP (Inl e'))) in
     if p_at p Tk_LParen then again (call_suffix R e)
     else if p_at p Tk_Question then again (seqP bump (ending_here (span_of e) (E_Try e)))
     else if p_at p Tk_Dot \<and> noninitial_path_segment_at p 1 then again (field_suffix e)
     else if p_at p Tk_Dot \<and> as_int (p_peek_at p 1) \<noteq> None then again (tuple_suffix e)
     else if p_at p Tk_LBracket then again (bracket_suffix R e)
     else retP (Inr e))"

definition parse_postfix :: "calls \<Rightarrow> expr pm" where
  "parse_postfix R = bindP (parse_primary R) (loopP (postfix_turn R))"

definition prefix_op :: "tok_kind \<Rightarrow> un_op option" where
  "prefix_op k =
     (if k = Tk_Minus then Some Un_Neg else if k = Tk_Bang then Some Un_Not
      else if k = Tk_Tilde then Some Un_BitNot else None)"

definition parse_prefix_inner :: "calls \<Rightarrow> expr pm" where
  "parse_prefix_inner R = readP (\<lambda>p.
     case prefix_op (p_peek p) of
       Some op \<Rightarrow>
         seqP bump (bindP (c_prefix R) (\<lambda>e.
           retP (Expr (E_Unary op e) (merge (p_span p) (span_of e)))))
     | None \<Rightarrow> parse_postfix R)"

definition parse_prefix :: "calls \<Rightarrow> expr pm" where
  "parse_prefix R = guard_depth (parse_prefix_inner R)"

definition parse_cast :: "calls \<Rightarrow> expr pm" where
  "parse_cast R =
     bindP (parse_prefix R)
       (loopP (\<lambda>e. bindP (eat Tk_As) (\<lambda>b.
          if b then bindP parse_cast_type (\<lambda>t.
            retP (Inl (Expr (E_Cast e t) (merge (span_of e) (ty_span t)))))
          else retP (Inr e))))"

definition binary_turn :: "calls \<Rightarrow> nat \<Rightarrow> expr \<Rightarrow> (expr + expr) pm" where
  "binary_turn R min_bp lhs = readP (\<lambda>p.
     case binop p of
       None \<Rightarrow> retP (Inr lhs)
     | Some (op, bp, n) \<Rightarrow>
         if bp < min_bp then retP (Inr lhs)
         else
           seqP (bumps n)
           (bindP (c_expr R (bp + 1)) (\<lambda>rhs.
            retP (Inl (Expr (E_Binary op lhs rhs) (merge (span_of lhs) (span_of rhs)))))))"

definition else_unwrap :: "calls \<Rightarrow> nat \<Rightarrow> expr \<Rightarrow> expr pm" where
  "else_unwrap R min_bp lhs = readP (\<lambda>p.
     if min_bp = 0 \<and> p_at p Tk_Else then
       seqP bump
       (readP (\<lambda>q.
          bindP (if p_at q Tk_LBrace then block_expr R else c_expr R 0) (\<lambda>fallback.
          retP (Expr (E_ElseUnwrap lhs fallback) (merge (span_of lhs) (span_of fallback))))))
     else retP lhs)"

definition parse_expr_inner :: "calls \<Rightarrow> nat \<Rightarrow> expr pm" where
  "parse_expr_inner R min_bp =
     bindP (parse_cast R) (\<lambda>e.
     bindP (loopP (binary_turn R min_bp) e) (\<lambda>lhs. else_unwrap R min_bp lhs))"

definition parse_expr :: "calls \<Rightarrow> nat \<Rightarrow> expr pm" where
  "parse_expr R min_bp = guard_depth (parse_expr_inner R min_bp)"

subsection \<open>Tying the recursion\<close>

definition tie :: "calls \<Rightarrow> calls" where
  "tie R = \<lparr>c_expr = parse_expr R, c_prefix = parse_prefix R, c_if = parse_if R,
     c_type = parse_type (c_type R)\<rparr>"

primrec knot :: "nat \<Rightarrow> calls" where
  "knot 0 = \<lparr>c_expr = (\<lambda>_ _. PFuel), c_prefix = (\<lambda>_. PFuel), c_if = (\<lambda>_. PFuel),
     c_type = (\<lambda>_. PFuel)\<rparr>"
| "knot (Suc n) = tie (knot n)"

end
