(* ===== verification/Parser_Expr_Props.thy ===== *)
theory Parser_Expr_Props
  imports Parser_Expr
begin

section \<open>The expression parser meets its specification\<close>

text \<open>
  Every method keeps the parser's invariant, never panics, and reports an error whenever it
  returns \<open>None\<close>; and \<open>n\<close> nested calls are enough when the remaining tokens weigh at most \<open>n\<close>. The
  locale \<open>parser_calls\<close> is what the methods rely on of the recursive calls; it is interpreted on
  \<open>knot\<close>.
\<close>

declare One_nat_def [simp del]

lemma meets_forget: "meets C n m \<Longrightarrow> meets maybe n m"
  using meets_weaken [of C n m maybe n] by simp

subsection \<open>Scoped state and lookahead\<close>

lemma meets_with_nsl [meets_rules]:
  assumes "meets C n m" shows "meets C n (with_nsl b m)"
  unfolding meets_def
proof
  fix p :: parser
  let ?p = "p\<lparr>ps_no_struct_literal := b\<rparr>"
  have "outcome C n ?p (m ?p)" using assms by (rule meets_outcome)
  moreover have "ps_wf ?p = ps_wf p" "weight ?p = weight p" by (simp_all add: ps_wf_def weight_def)
  ultimately show "outcome C n p (with_nsl b m p)"
    by (auto simp: outcome_def with_nsl_def Let_def pstep_def reported_def ps_wf_def
        split: presult.splits)
qed

lemma meets_guard_depth [meets_rules]:
  assumes "meets C n m" shows "meets C n (guard_depth m)"
  unfolding meets_def
proof
  fix p :: parser
  let ?p = "p\<lparr>ps_depth := ps_depth p + 1\<rparr>"
  have "outcome C n ?p (m ?p)" using assms by (rule meets_outcome)
  moreover have "ps_wf ?p = ps_wf p" "weight ?p = weight p" by (simp_all add: ps_wf_def weight_def)
  moreover have "outcome C n p (fail_here msg p)" for msg by (rule meets_outcome [OF meets_fail_here])
  ultimately show "outcome C n p (guard_depth m p)"
    unfolding guard_depth_def
    by (auto simp: outcome_def Let_def pstep_def reported_def ps_wf_def split: presult.splits)
qed

lemma meets_scan [meets_rules]:
  "(\<And>p. ps_wf p \<Longrightarrow> f p \<noteq> None) \<Longrightarrow> meets maybe n (scanP f)"
  by (fastforce simp: meets_def outcome_def scanP_def pstep_refl split: option.split)

lemma peek_at_eof:
  assumes "ps_wf p" "length (ps_tokens p) \<le> ps_pos p + i + 1" shows "p_peek_at p i = Tk_Eof"
proof -
  have "min (ps_pos p + i) (length (ps_tokens p) - 1) = length (ps_tokens p) - 1" using assms by linarith
  then show ?thesis
    using assms(1) last_conv_nth [of "ps_tokens p"] by (simp add: p_peek_at_def ps_wf_def stream_ok_def)
qed

lemma not_identifier_eof [simp]: "\<not> is_identifier Tk_Eof"
  by (simp add: is_identifier_def)

text \<open>A walk that stops at \<open>Eof\<close> is no longer than the list.\<close>

lemma group_end_total:
  "ps_wf p \<Longrightarrow> length (ps_tokens p) - i < n \<Longrightarrow> group_end n p i depth \<noteq> None"
proof (induction n arbitrary: i depth)
  case (Suc n)
  show ?case
  proof (cases "i < length (ps_tokens p)")
    case True
    then have "length (ps_tokens p) - (i + 1) < n" using Suc.prems by simp
    with Suc show ?thesis by auto
  next
    case False
    then show ?thesis using peek_at_eof [OF Suc.prems(1), of i] by simp
  qed
qed simp

lemma name_list_end_total:
  "ps_wf p \<Longrightarrow> length (ps_tokens p) - i < n \<Longrightarrow> name_list_end n p i count \<noteq> None"
proof (induction n arbitrary: i count)
  case (Suc n)
  show ?case
  proof (cases "i < length (ps_tokens p)")
    case True
    then have "length (ps_tokens p) - (i + 2) < n" using Suc.prems by simp
    with Suc show ?thesis by auto
  next
    case False
    then show ?thesis using peek_at_eof [OF Suc.prems(1), of i] by (simp add: identifier_at_def)
  qed
qed simp

lemma path_scan_total:
  "ps_wf p \<Longrightarrow> length (ps_tokens p) - i < n \<Longrightarrow> path_scan n p segs i \<noteq> None"
proof (induction n arbitrary: i segs)
  case (Suc n)
  show ?case
  proof (cases "i < length (ps_tokens p)")
    case True
    then have "length (ps_tokens p) - (i + 2) < n" using Suc.prems by simp
    with Suc show ?thesis by auto
  next
    case False
    then show ?thesis using peek_at_eof [OF Suc.prems(1), of i] by simp
  qed
qed simp

lemma scans_total:
  assumes "ps_wf p"
  shows "looks_like_destructure p \<noteq> None" "looks_like_aligned_binding p \<noteq> None"
    "struct_lit_path_len p \<noteq> None"
proof -
  have lt: "length (ps_tokens p) - 1 < length (ps_tokens p) + 1" by linarith
  show "looks_like_destructure p \<noteq> None" "looks_like_aligned_binding p \<noteq> None"
    "struct_lit_path_len p \<noteq> None"
    using name_list_end_total [OF assms lt, of 0] group_end_total [OF assms lt, of 0]
      path_scan_total [OF assms lt, of 1]
    by (auto simp: looks_like_destructure_def looks_like_aligned_binding_def struct_lit_path_len_def
        simp del: name_list_end.simps group_end.simps path_scan.simps split: option.splits)
qed

lemmas meets_scans [meets_rules] = scans_total [THEN meets_scan]

subsection \<open>Methods without recursion\<close>

lemma bumps_meets [meets_rules]: "meets maybe n (bumps k)"
proof (induction k arbitrary: n)
  case (Suc k)
  show ?case by (simp, (rule Suc meets_rules | force)+)
qed (simp add: meets_ret)

lemma ending_here_meets [meets_rules]: "meets maybe n (ending_here sp k)"
  unfolding ending_here_def by (rule meets_rules | force)+

lemma negative_literal_meets [meets_rules]: "meets maybe n negative_literal"
  unfolding negative_literal_def
  by (rule meets_rules outcome_meets [OF meets_fail_here] | force)+

lemma positive_literal_meets [meets_rules]: "meets always n positive_literal"
  unfolding positive_literal_def
  by (rule meets_rules outcome_meets [OF meets_fail_here] | force)+

lemma parse_pattern_literal_meets [meets_rules]: "meets always n parse_pattern_literal"
  unfolding parse_pattern_literal_def
  by (erule (1) notE | rule meets_rules | force)+

lemma range_pattern_meets [meets_rules]: "meets maybe n (range_pattern l sp i)"
  unfolding range_pattern_def by (rule meets_rules | force)+

lemma parse_single_value_pattern_meets [meets_rules]: "meets always n parse_single_value_pattern"
  unfolding parse_single_value_pattern_def by (rule meets_rules | force)+

lemma pipe_list_meets [meets_rules]:
  assumes "meets maybe (n - 1) m" shows "meets maybe n (pipe_list m xs)"
  unfolding pipe_list_def
  by (erule (1) notE | rule assms meets_rules | force)+

lemma value_patterns_meets [meets_rules]: "meets always n value_patterns"
  unfolding value_patterns_def
  by (rule meets_rules parse_single_value_pattern_meets [THEN meets_forget] | force)+

lemma or_pattern_name_meets [meets_rules]: "meets always n or_pattern_name"
  unfolding or_pattern_name_def by (rule meets_rules)

lemma line_comma_list_meets [meets_rules]:
  assumes "meets maybe n m" shows "meets maybe n (line_comma_list close m)"
  unfolding line_comma_list_def
  by (rule assms outcome_bind outcome_meets [OF assms] meets_rules | force)+

lemma discard_or_tail_meets [meets_rules]: "meets maybe n discard_or_tail"
  unfolding discard_or_tail_def
  by (rule meets_rules meets_attempt [OF or_pattern_name_meets, THEN meets_forget]
     outcome_meets [OF meets_error] | force)+

lemma payload_bindings_meets [meets_rules]: "meets maybe n payload_bindings"
  unfolding payload_bindings_def
  by (erule (1) notE | rule meets_rules meets_parse_ident [THEN meets_forget] | force)+

lemma name_pattern_meets [meets_rules]: "meets always n name_pattern"
  unfolding name_pattern_def
  by (rule meets_rules or_pattern_name_meets [THEN meets_forget] outcome_bind
      outcome_meets [OF payload_bindings_meets]
      outcome_meets [OF pipe_list_meets [OF or_pattern_name_meets [THEN meets_forget]]] | force)+

lemma parse_arm_pattern_meets [meets_rules]: "meets always n parse_arm_pattern"
  unfolding parse_arm_pattern_def
  by (rule meets_rules outcome_meets [OF name_pattern_meets] outcome_meets [OF value_patterns_meets])+

lemma check_alignment_meets [meets_rules]: "meets maybe n (check_alignment v sp)"
  unfolding check_alignment_def by (rule meets_rules | force)+

lemma align_value_meets [meets_rules]: "meets maybe n (readP (\<lambda>p. case as_int (p_peek p) of
          Some n \<Rightarrow>
            seqP bump (seqP (expect Tk_RParen (quoted '')'')) (check_alignment n (p_span p)))
        | None \<Rightarrow>
            seqP (errorP ''`align(N)` needs an integer alignment'' (p_span p))
              (seqP (eat Tk_RParen) (retP None))))"
  by (rule meets_rules outcome_meets [OF meets_error] | force)+

lemma parse_align_attr_meets [meets_rules]: "meets maybe n parse_align_attr"
  unfolding parse_align_attr_def by (rule meets_rules | force)+

lemma tuple_names_meets [meets_rules]: "meets maybe n tuple_names"
  unfolding tuple_names_def by (rule meets_rules | force)+

lemma float_options_meets [meets_rules]: "meets maybe n float_options"
  unfolding float_options_def
  by (rule meets_rules outcome_meets [OF meets_loop] | force)+

lemma more_segments_meets [meets_rules]: "meets maybe n (more_segments k segs)"
proof (induction k arbitrary: n segs)
  case (Suc k)
  show ?case by (simp, (rule Suc meets_rules meets_parse_noninitial [THEN meets_forget] | force)+)
qed (simp add: meets_ret)

lemma field_suffix_outcome:
  "p_at p Tk_Dot \<Longrightarrow> outcome always n p (field_suffix e p)"
  unfolding field_suffix_def
  by (rule meets_rules meets_parse_noninitial [THEN meets_forget] | force simp: p_at_def)+

lemma map_meets:
  "(\<And>x. x \<in> set xs \<Longrightarrow> meets maybe n (f x)) \<Longrightarrow> meets maybe n (mapP f xs)"
proof (induction xs)
  case (Cons x xs)
  note m = Cons.prems [OF list.set_intros(1)] and ms = Cons.IH [OF Cons.prems [OF list.set_intros(2)]]
  show ?case by (simp, (rule m ms meets_rules | force)+)
qed (simp add: meets_ret)

lemma tuple_suffix_outcome:
  assumes "p_at p Tk_Dot" "as_int (p_peek_at p 1) \<noteq> None"
  shows "outcome always n p (tuple_suffix e p)"
proof (cases "ps_wf p")
  case True
  let ?q = "p\<lparr>ps_pos := ps_pos p + 1\<rparr>"
  have lt: "ps_pos p + 1 < length (ps_tokens p)"
    using ps_wf_not_eof [OF True] assms(1) by (simp add: p_at_def)
  then have wq: "ps_wf ?q" using True by (simp add: ps_wf_def)
  have "p_peek ?q = p_peek_at p 1" using lt by (auto simp: p_peek_def p_peek_at_def min_def)
  with assms(2) obtain v where v: "as_int (p_peek ?q) = Some v" by auto
  then have ne: "p_peek ?q \<noteq> Tk_Eof" by auto
  have "bump p = POk (ps_tokens p ! ps_pos p) ?q"
    using True assms(1) by (simp add: bump_def readP_def ps_wf_def p_at_def)
  moreover have "bump ?q = POk (ps_tokens p ! (ps_pos p + 1)) (p\<lparr>ps_pos := ps_pos p + 1 + 1\<rparr>)"
    using lt ne by (simp add: bump_def readP_def)
  moreover have "as_int (tk_kind (ps_tokens p ! (ps_pos p + 1))) = Some v" using v by (simp add: p_peek_def)
  moreover have "ps_wf (p\<lparr>ps_pos := ps_pos p + 1 + 1\<rparr>)"
    using ps_wf_not_eof [OF wq ne] wq by (simp add: ps_wf_def)
  ultimately show ?thesis
    by (simp add: tuple_suffix_def seqP_def bindP_def retP_def outcome_def pstep_def)
qed (simp add: outcome_def)

lemma outcome_str:
  assumes "\<And>c. as_str (p_peek p) = Some c \<Longrightarrow> 1 + 2 * str_weight c \<le> n \<Longrightarrow> valid_utf8 c \<Longrightarrow>
      outcome C n p (f c p)"
    and "outcome C n p (m p)"
  shows "outcome C n p ((case as_str (p_peek p) of None \<Rightarrow> m | Some c \<Rightarrow> f c) p)"
proof (cases "as_str (p_peek p)")
  case (Some c)
  have "1 + 2 * str_weight c \<le> weight p \<and> valid_utf8 c" if "ps_wf p"
  proof -
    let ?t = "ps_tokens p ! ps_pos p"
    have "drop (ps_pos p) (ps_tokens p) = ?t # drop (ps_pos p + 1) (ps_tokens p)"
      using that Cons_nth_drop_Suc [of "ps_pos p" "ps_tokens p"] by (simp add: ps_wf_def Suc_eq_plus1)
    moreover have "tok_weight ?t = 1 + 2 * str_weight c" using Some by (simp add: tok_weight_def p_peek_def)
    moreover have "?t \<in> set (ps_tokens p)" using that by (simp add: ps_wf_def)
    then have "valid_utf8 c" using that Some by (auto simp: ps_wf_def stream_ok_def p_peek_def)
    ultimately show ?thesis by (simp add: weight_def)
  qed
  with Some assms(1) show ?thesis by (fastforce simp: outcome_def)
qed (simp add: assms(2))

subsection \<open>Template holes\<close>

lemma stream_ok_remap: "stream_ok ts \<Longrightarrow> stream_ok (map (remap_token b) ts)"
  by (auto simp: stream_ok_def remap_token_def last_map map_butlast [symmetric])

lemma toks_weight_remap: "toks_weight (map (remap_token b) ts) = toks_weight ts"
  by (induction ts) (simp_all add: toks_weight_def tok_weight_def remap_token_def)

lemma hole_rest_meets [meets_rules]: "meets maybe n (hole_rest b)"
  unfolding hole_rest_def by (rule meets_rules outcome_meets [OF meets_error] | force)+

lemma tokenize_defined: "\<exists>ts ds'. tokenize f s ds = Some (ts, ds')"
  using lex_run_loop_total [of "lx_init f s" ds] by (auto simp: tokenize_def lex_run_def Let_def)

lemma hole_meets:
  assumes R: "meets maybe K (c_expr R 0)" and v: "valid_utf8 src" and K: "2 * str_weight src + 2 \<le> K"
  shows "meets maybe n (parse_hole_expr R src sp off)"
  unfolding meets_def
proof
  fix p :: parser
  let ?base = "u32_add (u32_add (span_lo sp) 1) (u32_cast off)"
  let ?m = "bindP (attemptP (c_expr R 0)) (\<lambda>e. seqP (hole_rest (e \<noteq> None)) (retP e))"
  obtain ts ds where t: "tokenize (span_file sp) src [] = Some (ts, ds)"
    using tokenize_defined by blast
  let ?sub = "\<lparr>ps_tokens = map (remap_token ?base) ts, ps_pos = 0,
      ps_diags = ps_diags p @ map (remap_diag ?base) ds,
      ps_no_struct_literal = False, ps_depth = 0, ps_rejected = ps_rejected p\<rparr>"
  note w = tokenize_weight [OF t v]
  have "stream_ok (ps_tokens ?sub)" using stream_ok_remap [OF w(2)] by simp
  then have wf: "ps_wf ?sub" by (auto simp: ps_wf_def stream_ok_def)
  have "weight ?sub \<le> K" using w(1) K toks_weight_remap [of ?base ts] by (simp add: weight_def toks_weight_def)
  moreover have "meets maybe K ?m"
    by (rule R meets_rules | force)+
  ultimately have "outcome maybe K ?sub (?m ?sub)" "weight ?sub \<le> K" by (simp_all add: meets_outcome)
  then show "outcome maybe n p (parse_hole_expr R src sp off p)"
    using wf t
    by (auto simp: outcome_def parse_hole_expr_def Let_def pstep_def reported_def ps_wf_def
        split: presult.splits)
qed

subsection \<open>Lookahead keeps the state\<close>

lemma outcome_bind_scan:
  assumes "ps_wf p \<Longrightarrow> f p \<noteq> None" "\<And>a. f p = Some a \<Longrightarrow> outcome C n p (g a p)"
  shows "outcome C n p (bindP (scanP f) g p)"
  using assms by (cases "f p") (auto simp: outcome_def bindP_def scanP_def)

lemma outcome_bind_ret: "outcome C n p (g a p) \<Longrightarrow> outcome C n p (bindP (retP a) g p)"
  by (simp add: bindP_def retP_def)

lemma outcome_bind_if:
  "(b \<Longrightarrow> outcome C n p (bindP m g p)) \<Longrightarrow> (\<not> b \<Longrightarrow> outcome C n p (bindP m' g p)) \<Longrightarrow>
   outcome C n p (bindP (if b then m else m') g p)"
  by simp

lemma outcome_expect: "p_at p k \<Longrightarrow> k \<noteq> Tk_Eof \<Longrightarrow> outcome always n p (expect k what p)"
  using outcome_bump [of p n]
  by (auto simp: outcome_def expect_def eat_def bindP_def seqP_def readP_def retP_def p_at_def ps_wf_def
      split: presult.splits)

lemma destructure_paren: "looks_like_destructure p = Some True \<Longrightarrow> p_at p Tk_LParen"
  by (auto simp: looks_like_destructure_def split: if_splits)

lemma try_suffix_outcome:
  "p_at p Tk_Question \<Longrightarrow> outcome always n p (seqP bump (ending_here sp kd) p)"
  by (rule meets_rules | force simp: p_at_def)+

lemma binop_width: "binop p = Some (op, bp, m) \<Longrightarrow> 0 < m \<and> p_peek p \<noteq> Tk_Eof"
  by (auto simp: binop_def single_binops_def split: if_splits)

lemma bumps_outcome: "0 < m \<Longrightarrow> p_peek p \<noteq> Tk_Eof \<Longrightarrow> outcome always n p (bumps m p)"
  by (cases m) (simp_all, (rule meets_rules | force)+)

lemma outcome_pair [meets_rules]:
  "(\<And>a b. x = (a, b) \<Longrightarrow> outcome C n p (f a b p)) \<Longrightarrow> outcome C n p ((case x of (a, b) \<Rightarrow> f a b) p)"
  by (cases x) simp

subsection \<open>Methods that call back\<close>

text \<open>What the methods rely on: calls with at most weight \<open>k\<close> left meet the specification.\<close>

locale parser_calls =
  fixes R :: calls and k :: nat
  assumes expr_call: "meets maybe k (c_expr R bp)"
    and prefix_call: "meets maybe k (c_prefix R)"
    and type_call: "meets maybe k (c_type R)"
    and if_call: "p_at p Tk_If \<Longrightarrow> outcome maybe k p (c_if R p)"
begin

lemmas below = expr_call [THEN meets_below] prefix_call [THEN meets_below] type_call [THEN meets_below]

lemma if_below: "p_at p Tk_If \<Longrightarrow> n \<le> k \<Longrightarrow> outcome maybe n p (c_if R p)"
  using if_call by (rule outcome_weaken) simp_all

lemma delimited_meets: "n \<le> k \<Longrightarrow> meets maybe n (parse_delimited_expr R bp)"
  unfolding parse_delimited_expr_def by (rule below meets_rules | assumption)+

lemma optional_type_meets: "n \<le> k \<Longrightarrow> meets maybe n (optional_type R)"
  unfolding optional_type_def by (erule (1) notE | rule below meets_rules | force)+

lemma parse_let_meets: "n \<le> k \<Longrightarrow> meets always n (parse_let R a)"
  unfolding parse_let_def
  by (rule below optional_type_meets outcome_bind meets_rules outcome_meets | force)+

lemma parse_let_tuple_outcome:
  "n - 1 \<le> k \<Longrightarrow> p_at p Tk_LParen \<Longrightarrow> outcome always n p (parse_let_tuple R p)"
  unfolding parse_let_tuple_def
  by (rule below meets_rules | force simp: p_at_def)+

lemma exit_value_meets: "n \<le> k \<Longrightarrow> meets maybe n (exit_value R)"
  unfolding exit_value_def by (rule below outcome_bind meets_rules outcome_meets | force)+

lemma parse_return_outcome:
  "n - 1 \<le> k \<Longrightarrow> p_at p Tk_Return \<Longrightarrow> outcome always n p (parse_return R p)"
  unfolding parse_return_def by (rule exit_value_meets meets_rules | force simp: p_at_def)+

lemma parse_break_outcome:
  "n - 1 \<le> k \<Longrightarrow> p_at p Tk_Break \<Longrightarrow> outcome always n p (parse_break R p)"
  unfolding parse_break_def by (rule exit_value_meets meets_rules | force simp: p_at_def)+

lemma expr_stmt_meets: "n \<le> k \<Longrightarrow> meets isl n (expr_stmt R stmts)"
  unfolding expr_stmt_def
  by (erule (1) notE | rule below meets_rules | force)+

lemma let_stmt_outcome:
  "n \<le> k \<Longrightarrow> (tuple \<Longrightarrow> p_at p Tk_LParen) \<Longrightarrow> outcome always n p (let_stmt R tuple aligned p)"
  unfolding let_stmt_def
  by (rule outcome_if parse_let_tuple_outcome outcome_meets [OF parse_let_meets] outcome_bind
      outcome_meets [OF parse_align_attr_meets] meets_rules parse_let_meets
    | force)+

lemma block_turn_meets: "n \<le> k \<Longrightarrow> meets isl n (block_turn R stmts)"
  unfolding block_turn_def
  by (rule outcome_bind_if outcome_bind_scan outcome_bind_ret scans_total
      outcome_bind [OF let_stmt_outcome] outcome_bind [OF parse_return_outcome]
      outcome_bind [OF parse_break_outcome] outcome_meets [OF expr_stmt_meets]
      outcome_meets [OF meets_fail] meets_rules
    | force intro: destructure_paren)+

lemma parse_block_meets: "n \<le> k \<Longrightarrow> meets maybe n (parse_block R)"
  unfolding parse_block_def
  by (rule block_turn_meets outcome_meets [OF meets_expect] meets_rules | force)+

lemma parse_block_outcome: "n - 1 \<le> k \<Longrightarrow> p_at p Tk_LBrace \<Longrightarrow> outcome maybe n p (parse_block R p)"
  unfolding parse_block_def
  by (rule block_turn_meets outcome_expect meets_rules | force)+

lemma block_expr_meets: "n \<le> k \<Longrightarrow> meets maybe n (block_expr R)"
  unfolding block_expr_def by (rule parse_block_meets meets_rules | force)+

lemma block_expr_outcome: "n - 1 \<le> k \<Longrightarrow> p_at p Tk_LBrace \<Longrightarrow> outcome maybe n p (block_expr R p)"
  unfolding block_expr_def by (rule outcome_bind parse_block_outcome meets_rules | force)+

lemma part_meets:
  assumes "meets maybe k (c_expr R 0)" "valid_utf8 content" "2 * str_weight content \<le> k + 2"
    "part \<in> set (split_template content)"
  shows "meets maybe n (parse_part R sp part)"
proof (cases part)
  case (RP_Text s)
  then show ?thesis by (simp add: parse_part_def meets_ret)
next
  case (RP_Hole src off)
  note w = hole_weight [OF assms(2) assms(4) [unfolded RP_Hole]]
  have hole: "meets maybe n (parse_hole_expr R src sp off)" for n
    by (rule hole_meets [OF assms(1) w(1)]) (use w(2) assms(3) in linarith)
  show ?thesis unfolding RP_Hole parse_part_def raw_part.case by (rule hole meets_rules | force)+
qed

lemma template_outcome:
  "n - 1 \<le> k \<Longrightarrow> p_at p Tk_Template \<Longrightarrow> outcome maybe n p (template_expr R sp p)"
  unfolding template_expr_def
  by (rule outcome_str part_meets expr_call map_meets meets_rules outcome_meets [OF meets_fail]
    | force simp: p_at_def)+

lemma field_init_turn_meets: "n \<le> k \<Longrightarrow> meets isl n (field_init_turn R fs)"
  unfolding field_init_turn_def
  by (rule delimited_meets outcome_bind outcome_meets [OF meets_parse_referenced_ident] meets_rules | force)+

lemma parse_struct_lit_outcome: "n - 1 \<le> k \<Longrightarrow> meets maybe n (parse_struct_lit R segs)"
  unfolding parse_struct_lit_def
  by (rule field_init_turn_meets outcome_bind outcome_meets [OF meets_parse_ident] meets_rules | force)+

lemma ident_expr_meets: "n - 1 \<le> k \<Longrightarrow> meets maybe n (ident_expr R)"
  unfolding ident_expr_def
  by (rule outcome_bind_if outcome_bind_scan outcome_bind_ret scans_total outcome_bind
      outcome_meets [OF meets_parse_ident] outcome_meets [OF parse_struct_lit_outcome] meets_rules | force)+

lemma lambda_params_meets: "n \<le> k \<Longrightarrow> meets maybe n (lambda_params R)"
  unfolding lambda_params_def
  by (rule optional_type_meets outcome_meets [OF meets_loop] meets_rules | force)+

lemma lambda_outcome: "n - 1 \<le> k \<Longrightarrow> p_at p Tk_Fn \<Longrightarrow> outcome maybe n p (lambda_expr R sp p)"
  unfolding lambda_expr_def
  by (rule lambda_params_meets parse_block_meets meets_rules | force simp: p_at_def)+

lemma keyword_block_outcome:
  "n - 1 \<le> k \<Longrightarrow> p_peek p \<noteq> Tk_Eof \<Longrightarrow> outcome maybe n p (keyword_block R sp mk p)"
  unfolding keyword_block_def by (rule parse_block_meets meets_rules | force)+

lemma arena_outcome: "n - 1 \<le> k \<Longrightarrow> p_at p Tk_Arena \<Longrightarrow> outcome maybe n p (arena_expr R sp p)"
  unfolding arena_expr_def
  by (rule parse_block_meets outcome_bind_if outcome_bind_ret outcome_bind
      outcome_meets [OF meets_attempt [OF meets_parse_ident, THEN meets_forget]]
      outcome_meets [OF parse_block_meets] meets_rules
    | force simp: p_at_def)+

lemma float_outcome: "n - 1 \<le> k \<Longrightarrow> p_at p Tk_FloatScope \<Longrightarrow> outcome maybe n p (float_expr R sp p)"
  unfolding float_expr_def by (rule parse_block_meets meets_rules | force simp: p_at_def)+

lemma paren_outcome: "n - 1 \<le> k \<Longrightarrow> p_at p Tk_LParen \<Longrightarrow> outcome maybe n p (paren_expr R sp p)"
  unfolding paren_expr_def by (rule delimited_meets meets_rules | force simp: p_at_def)+

lemma array_outcome: "n - 1 \<le> k \<Longrightarrow> p_at p Tk_LBracket \<Longrightarrow> outcome maybe n p (array_expr R sp p)"
  unfolding array_expr_def
  by (rule delimited_meets outcome_bind outcome_meets [OF delimited_meets] meets_rules
    | force simp: p_at_def)+

lemma parse_match_arm_meets: "n \<le> k \<Longrightarrow> meets isl n (parse_match_arm R arms)"
  unfolding parse_match_arm_def
  by (rule below outcome_bind outcome_meets [OF parse_arm_pattern_meets] meets_rules | force)+

lemma parse_match_outcome: "n - 1 \<le> k \<Longrightarrow> p_at p Tk_Match \<Longrightarrow> outcome maybe n p (parse_match R p)"
  unfolding parse_match_def
  by (rule below parse_match_arm_meets meets_rules | force simp: p_at_def)+

lemma else_branch_meets: "n \<le> k \<Longrightarrow> meets maybe n (else_branch R)"
  unfolding else_branch_def
  by (erule (1) notE | rule outcome_bind_if outcome_bind [OF if_below]
      outcome_bind [OF outcome_meets [OF block_expr_meets]] meets_rules | force)+

lemma parse_if_outcome: "n - 1 \<le> k \<Longrightarrow> p_at p Tk_If \<Longrightarrow> outcome maybe n p (parse_if R p)"
  unfolding parse_if_def
  by (rule below parse_block_meets else_branch_meets meets_rules | force simp: p_at_def)+

lemma recovered_name_not_eof: "recovered_name p = Some w \<Longrightarrow> p_peek p \<noteq> Tk_Eof"
  by (auto simp: recovered_name_def)

lemma literal_kind_not_eof: "literal_kind x = Some l \<Longrightarrow> x \<noteq> Tk_Eof"
  by (auto simp: literal_kind_def)

lemma parse_primary_meets: "n - 1 \<le> k \<Longrightarrow> meets maybe n (parse_primary R)"
  unfolding parse_primary_def Let_def
  by (rule outcome_meets [OF ident_expr_meets] template_outcome lambda_outcome parse_if_outcome
      keyword_block_outcome arena_outcome float_outcome parse_match_outcome paren_outcome
      block_expr_outcome array_outcome outcome_meets [OF meets_fail]
      meets_parse_referenced_ident [THEN meets_forget] meets_rules
    | force simp: p_at_def dest: recovered_name_not_eof literal_kind_not_eof)+

lemma call_suffix_outcome: "n - 1 \<le> k \<Longrightarrow> p_at p Tk_LParen \<Longrightarrow> outcome always n p (call_suffix R e p)"
  unfolding call_suffix_def by (rule delimited_meets meets_rules | force simp: p_at_def)+

lemma slice_end_meets: "n \<le> k \<Longrightarrow> meets maybe n (slice_end R)"
  unfolding slice_end_def
  by (rule outcome_bind [OF outcome_meets [OF delimited_meets]] meets_rules | force)+

lemma slice_rest_outcome:
  "n - 1 \<le> k \<Longrightarrow> p_at p Tk_DotDot \<Longrightarrow> outcome maybe n p (slice_rest R e st p)"
  unfolding slice_rest_def by (rule slice_end_meets meets_rules | force simp: p_at_def)+

lemma bracket_suffix_outcome:
  "n - 1 \<le> k \<Longrightarrow> p_at p Tk_LBracket \<Longrightarrow> outcome always n p (bracket_suffix R e p)"
  unfolding bracket_suffix_def
  by (rule delimited_meets outcome_bind outcome_meets [OF delimited_meets] slice_rest_outcome
      outcome_meets [OF meets_expect] meets_rules
    | force simp: p_at_def)+

lemma postfix_turn_meets: "n - 1 \<le> k \<Longrightarrow> meets isl n (postfix_turn R e)"
  unfolding postfix_turn_def Let_def
  by (rule outcome_bind [OF call_suffix_outcome] outcome_bind [OF field_suffix_outcome]
      outcome_bind [OF tuple_suffix_outcome] outcome_bind [OF bracket_suffix_outcome]
      outcome_bind [OF try_suffix_outcome] meets_rules | force simp: p_at_def)+

lemma parse_postfix_meets: "n - 1 \<le> k \<Longrightarrow> meets maybe n (parse_postfix R)"
  unfolding parse_postfix_def by (rule parse_primary_meets postfix_turn_meets meets_rules | force)+

lemma parse_prefix_meets: "n - 1 \<le> k \<Longrightarrow> meets maybe n (parse_prefix R)"
  unfolding parse_prefix_def parse_prefix_inner_def
  by (rule below outcome_meets [OF parse_postfix_meets] meets_rules
    | force simp: prefix_op_def split: if_splits)+

lemma parse_cast_meets: "n - 1 \<le> k \<Longrightarrow> meets maybe n (parse_cast R)"
  unfolding parse_cast_def by (rule parse_prefix_meets meets_rules | force)+

lemma binary_turn_meets: "n - 1 \<le> k \<Longrightarrow> meets isl n (binary_turn R bp lhs)"
  unfolding binary_turn_def
  by (rule below bumps_outcome meets_rules | clarify | force dest: binop_width)+

lemma else_unwrap_meets: "n - 1 \<le> k \<Longrightarrow> meets maybe n (else_unwrap R bp lhs)"
  unfolding else_unwrap_def
  by (rule outcome_bind_if outcome_bind [OF outcome_meets [OF block_expr_meets]]
      outcome_bind [OF outcome_meets [OF below(1)]] meets_rules | force simp: p_at_def)+

lemma parse_expr_meets: "n - 1 \<le> k \<Longrightarrow> meets maybe n (parse_expr R bp)"
  unfolding parse_expr_def parse_expr_inner_def
  by (rule parse_cast_meets binary_turn_meets else_unwrap_meets meets_rules | force)+

end

subsection \<open>The knot\<close>

lemma tie_calls:
  assumes "parser_calls R k" shows "parser_calls (tie R) (k + 1)"
proof -
  have "meets maybe (k + 1) (parse_type (c_type R))"
    by (rule meets_parse_type) (use parser_calls.type_call [OF assms] in simp)
  moreover note parser_calls.parse_expr_meets [OF assms, of "k + 1"]
    parser_calls.parse_prefix_meets [OF assms, of "k + 1"] parser_calls.parse_if_outcome [OF assms, of "k + 1"]
  ultimately show ?thesis by (simp add: parser_calls_def tie_def)
qed

lemma weight_pos: "ps_wf p \<Longrightarrow> 0 < weight p"
  using weight_strict [of "p\<lparr>ps_pos := ps_pos p + 1\<rparr>" p] by (simp add: ps_wf_def)

lemma knot_calls: "parser_calls (knot n) n"
proof (induction n)
  case 0
  then show ?case
    using weight_pos by (auto simp: parser_calls_def meets_def outcome_def)
next
  case (Suc n)
  have "parser_calls (tie (knot n)) (n + 1)" by (rule tie_calls [OF Suc.IH])
  then show ?case by (simp only: knot.simps Suc_eq_plus1 [symmetric])
qed

interpretation tied: parser_calls "knot n" n for n
  by (rule knot_calls)

end
