(* ===== verification/Parser_Items.thy ===== *)
theory Parser_Items
  imports Parser_Expr_Props
begin

section \<open>align\_parser: items and files\<close>

text \<open>
  Declarations and the file. The recursive expression methods come in through \<open>R\<close>, as before;
  \<open>parse_file_with n\<close> is the file parser with \<open>knot n\<close>. Shown at the end: on the tokens of a valid
  source the parser returns, without a panic and with the end of the file reached.
\<close>

declare One_nat_def [simp del]

subsection \<open>Declarations\<close>

definition type_param_decl :: "type_param pm" where
  "type_param_decl =
     bindP (parse_ident ''a type parameter name'') (\<lambda>name.
     bindP (eat Tk_Colon) (\<lambda>b.
     bindP (if b then bindP (parse_ident ''a bound (Eq, Ord, or Num)'') (\<lambda>i. retP (Some i))
            else retP None) (\<lambda>bound.
     retP \<lparr>tp_name = name, tp_bound = bound\<rparr>)))"

definition type_params_decl :: "type_param list pm" where
  "type_params_decl =
     bindP (eat Tk_Lt) (\<lambda>b.
     if b then
       bindP (comma_list Tk_Gt type_param_decl) (\<lambda>ps.
       seqP (expect Tk_Gt (quoted ''>'')) (retP ps))
     else retP [])"

definition parse_test :: "calls \<Rightarrow> vis \<Rightarrow> test_decl pm" where
  "parse_test R v = readP (\<lambda>p0.
     let start = p_span p0 in
     seqP bump
     (bindP bump (\<lambda>name_token.
      case as_str (tk_kind name_token) of
        None \<Rightarrow> failP ''a test declaration requires a string name'' (tk_span name_token)
      | Some name \<Rightarrow>
          seqP (if v = Vis_Pub then errorP ''a test declaration is private and cannot be `pub`'' start
                else retP ())
          (readP (\<lambda>p.
             let body =
               bindP (parse_block R) (\<lambda>b.
               retP \<lparr>td_name = name, td_name_span = tk_span name_token, td_body = b,
                     td_span = merge start (block_span b)\<rparr>) in
             if p_at p Tk_LBrace then body
             else
               seqP (errorP (''a test declaration must be `test '' @ [CHR 0x22] @ ''name'' @ [CHR 0x22] @ '' { ... }` with no parameters, type parameters, return type, expression body, attributes, or declaration name'')
                      (p_span p))
               (seqP (skip_until {Tk_LBrace, Tk_End, Tk_Semicolon, Tk_Eof})
               (readP (\<lambda>q. if p_at_stmt_end q \<or> p_at q Tk_Eof then noneP else body))))))))"

definition parse_resource :: "vis \<Rightarrow> resource_decl pm" where
  "parse_resource v = readP (\<lambda>p0.
     seqP bump
     (bindP (parse_ident ''resource name'') (\<lambda>name.
      bindP type_params_decl (\<lambda>tps.
      seqP (expect Tk_Eq (quoted ''=''))
      (bindP parse_path (\<lambda>drop_hook.
       seqP eat_stmt_end
       (bindP (span_from (p_span p0)) (\<lambda>sp.
        retP \<lparr>rd_vis = v, rd_name = name, rd_type_params = tps, rd_drop_hook = drop_hook,
              rd_span = sp\<rparr>))))))))"

definition parse_const :: "calls \<Rightarrow> vis \<Rightarrow> item pm" where
  "parse_const R v = readP (\<lambda>p0.
     bindP (parse_ident ''constant name'') (\<lambda>name.
     bindP (optional_type R) (\<lambda>t.
     seqP (expect Tk_ColonEq (quoted '':=''))
     (readP (\<lambda>p1.
        bindP (c_expr R 0) (\<lambda>e.
        bindP (span_from (p_span p1)) (\<lambda>value_span.
        seqP eat_stmt_end
        (bindP (span_from (p_span p0)) (\<lambda>sp.
         retP (It_Const \<lparr>cd_vis = v, cd_name = name, cd_ty = t,
                cd_value = Expr (kind_of e) value_span, cd_span = sp\<rparr>))))))))))"

text \<open>\<open>layout(C)\<close>: whether the layout is \<open>C\<close>.\<close>

definition parse_layout_attr :: "bool \<Rightarrow> bool pm" where
  "parse_layout_attr c_repr =
     seqP bump
     (seqP (expect Tk_LParen (quoted ''('' @ '' after `layout`''))
     (bindP (readP (\<lambda>p.
        if as_ident (p_peek p) = Some ''C'' then seqP bump (retP True)
        else
          seqP (errorP ''`layout(C)` is the only supported layout attribute'' (p_span p))
          (seqP (if \<not> p_at p Tk_RParen \<and> \<not> p_at p Tk_Eof then seqP bump (retP ()) else retP ())
            (retP c_repr)))) (\<lambda>c.
      seqP (expect Tk_RParen (quoted '')'')) (retP c))))"

definition parse_type_attrs :: "(nat option \<times> bool) pm" where
  "parse_type_attrs =
     loopP (\<lambda>(align, c_repr). readP (\<lambda>p.
       if as_ident (p_peek p) = Some ''align'' \<and> p_peek_at p 1 = Tk_LParen then
         bindP parse_align_attr (\<lambda>a.
         retP (Inl (case a of Some v \<Rightarrow> Some v | None \<Rightarrow> align, c_repr)))
       else if as_ident (p_peek p) = Some ''layout'' \<and> p_peek_at p 1 = Tk_LParen then
         bindP (parse_layout_attr c_repr) (\<lambda>c. retP (Inl (align, c)))
       else retP (Inr (align, c_repr)))) (None, False)"

text \<open>\<open>loop { skip_ends; if at('}') || at(Eof) { break } push(element?); eat(Comma) }\<close>.\<close>

definition brace_list :: "'a pm \<Rightarrow> 'a list pm" where
  "brace_list element =
     loopP (\<lambda>xs. seqP skip_ends (readP (\<lambda>p.
       if p_at p Tk_RBrace \<or> p_at p Tk_Eof then retP (Inr xs)
       else bindP element (\<lambda>x. seqP (eat Tk_Comma) (retP (Inl (xs @ [x]))))))) []"

definition parse_field_def :: "calls \<Rightarrow> field_def pm" where
  "parse_field_def R = readP (\<lambda>p0.
     bindP (parse_ident ''field name'') (\<lambda>name.
     seqP (expect Tk_Colon (quoted '':''))
     (bindP (c_type R) (\<lambda>t.
      bindP (span_from (p_span p0)) (\<lambda>sp.
      retP \<lparr>fl_name = name, fl_ty = t, fl_span = sp\<rparr>)))))"

definition parse_variant_def :: "calls \<Rightarrow> variant_def pm" where
  "parse_variant_def R = readP (\<lambda>p0.
     bindP (parse_ident ''variant name'') (\<lambda>name.
     bindP (eat Tk_LParen) (\<lambda>b.
     bindP (if b then
              bindP (line_comma_list Tk_RParen (c_type R)) (\<lambda>ts.
              seqP (expect Tk_RParen (quoted '')'')) (retP ts))
            else retP []) (\<lambda>payload.
     bindP (span_from (p_span p0)) (\<lambda>sp.
     retP \<lparr>vd_name = name, vd_payload = payload, vd_span = sp\<rparr>)))))"

definition error_if :: "bool \<Rightarrow> string \<Rightarrow> span \<Rightarrow> unit pm" where
  "error_if b msg sp = (if b then errorP msg sp else retP ())"

definition parse_type_decl :: "calls \<Rightarrow> vis \<Rightarrow> nat option \<Rightarrow> bool \<Rightarrow> item pm" where
  "parse_type_decl R v align c_repr = readP (\<lambda>p0.
     let start = p_span p0 in
     bindP (parse_ident ''type name'') (\<lambda>name.
     bindP type_params_decl (\<lambda>tps.
     seqP (expect Tk_LBrace (quoted ''{''))
     (seqP skip_ends
     (readP (\<lambda>p.
        if p_at p Tk_RBrace \<or> p_peek_at p 1 = Tk_Colon then
          bindP (brace_list (parse_field_def R)) (\<lambda>fs.
          seqP (expect Tk_RBrace (quoted ''}''))
          (bindP (span_from start) (\<lambda>sp.
           retP (It_Struct \<lparr>sd_vis = v, sd_name = name, sd_type_params = tps, sd_fields = fs,
                  sd_align = align, sd_c_repr = c_repr, sd_span = sp\<rparr>))))
        else
          seqP (error_if (align \<noteq> None) ''`align(N)` applies to a struct, not a sum type'' start)
          (seqP (error_if c_repr ''`layout(C)` applies to a struct, not a sum type'' start)
          (bindP (brace_list (parse_variant_def R)) (\<lambda>vs.
           seqP (expect Tk_RBrace (quoted ''}''))
           (bindP (span_from start) (\<lambda>sp.
            retP (It_Enum \<lparr>ed_vis = v, ed_name = name, ed_type_params = tps, ed_variants = vs,
                   ed_span = sp\<rparr>))))))))))))"

definition param_mode_at :: "param_mode pm" where
  "param_mode_at = readP (\<lambda>p.
     if as_ident (p_peek p) = Some ''out'' \<and> identifier_at p 1 \<and> p_peek_at p 2 = Tk_Colon
     then seqP bump (retP PM_Out)
     else if as_ident (p_peek p) = Some ''borrow'' \<and> p_peek_at p 1 = Tk_Mut \<and> identifier_at p 2 \<and>
             p_peek_at p 3 = Tk_Colon
     then seqP bump (seqP bump (retP PM_BorrowMut))
     else if as_ident (p_peek p) = Some ''borrow'' \<and> identifier_at p 1 \<and> p_peek_at p 2 = Tk_Colon
     then seqP bump (retP PM_Borrow)
     else retP PM_ByValue)"

definition parse_param :: "calls \<Rightarrow> param_mode pm \<Rightarrow> param pm" where
  "parse_param R mode_parser =
     bindP mode_parser (\<lambda>mode.
     bindP (parse_ident ''parameter name'') (\<lambda>name.
     seqP (expect Tk_Colon (quoted '':''))
     (bindP (c_type R) (\<lambda>t.
      retP \<lparr>pm_mode = mode, pm_name = name, pm_ty = t\<rparr>))))"

definition return_type :: "calls \<Rightarrow> ty option pm" where
  "return_type R =
     bindP (eat Tk_Arrow) (\<lambda>b. if b then bindP (c_type R) (\<lambda>t. retP (Some t)) else retP None)"

definition parse_fn_body :: "calls \<Rightarrow> fn_body pm" where
  "parse_fn_body R =
     bindP (eat Tk_Eq) (\<lambda>b.
     if b then bindP (c_expr R 0) (\<lambda>e. seqP eat_stmt_end (retP (FB_Expr e)))
     else bindP (parse_block R) (\<lambda>blk. retP (FB_Block blk)))"

definition parse_fn :: "calls \<Rightarrow> vis \<Rightarrow> fn_decl pm" where
  "parse_fn R v = readP (\<lambda>p0.
     seqP bump
     (bindP (parse_ident ''function name'') (\<lambda>name.
      bindP type_params_decl (\<lambda>tps.
      seqP (expect Tk_LParen (quoted ''(''))
      (bindP (comma_list Tk_RParen (parse_param R param_mode_at)) (\<lambda>params.
       seqP (expect Tk_RParen (quoted '')''))
       (bindP (return_type R) (\<lambda>ret.
        bindP (parse_fn_body R) (\<lambda>body.
        bindP (span_from (p_span p0)) (\<lambda>sp.
        retP \<lparr>fd_vis = v, fd_name = name, fd_type_params = tps, fd_params = params, fd_ret = ret,
              fd_body = body, fd_span = sp\<rparr>))))))))))"

definition parse_link_clause :: "bytes option pm" where
  "parse_link_clause =
     seqP bump
     (seqP (expect Tk_LParen (quoted ''('' @ '' after `link`''))
     (bindP (readP (\<lambda>p.
        case as_str (p_peek p) of
          Some s \<Rightarrow> seqP bump (retP (Some s))
        | None \<Rightarrow>
            seqP (errorP (''`link('' @ [CHR 0x22] @ ''name'' @ [CHR 0x22] @ '')` needs a library-name string (e.g. `link('' @ [CHR 0x22] @ ''z'' @ [CHR 0x22] @ '')`)'') (p_span p))
            (seqP (if \<not> p_at p Tk_RParen \<and> \<not> p_at p Tk_Eof then seqP bump (retP ()) else retP ())
              (retP None)))) (\<lambda>name.
      seqP (expect Tk_RParen (quoted '')'')) (retP name))))"

definition parse_extern_sig :: "calls \<Rightarrow> extern_sig pm" where
  "parse_extern_sig R = readP (\<lambda>p0.
     seqP (expect Tk_Fn (quoted ''fn''))
     (bindP (parse_ident ''function name'') (\<lambda>name.
      seqP (expect Tk_LParen (quoted ''(''))
      (bindP (comma_list Tk_RParen (parse_param R (retP PM_ByValue))) (\<lambda>params.
       seqP (expect Tk_RParen (quoted '')''))
       (bindP (return_type R) (\<lambda>ret.
        seqP eat_stmt_end
        (bindP (span_from (p_span p0)) (\<lambda>sp.
         retP \<lparr>es_name = name, es_params = params, es_ret = ret, es_span = sp\<rparr>)))))))))"

definition extern_sigs :: "calls \<Rightarrow> extern_sig list pm" where
  "extern_sigs R =
     bindP (eat Tk_LBrace) (\<lambda>b.
     if b then
       bindP (loopP (\<lambda>xs. seqP skip_ends (readP (\<lambda>p.
          if p_at p Tk_RBrace \<or> p_at p Tk_Eof then retP (Inr xs)
          else bindP (parse_extern_sig R) (\<lambda>x. retP (Inl (xs @ [x])))))) []) (\<lambda>fns.
       seqP (expect Tk_RBrace (quoted ''}'')) (retP fns))
     else bindP (parse_extern_sig R) (\<lambda>x. retP [x]))"

definition parse_extern :: "calls \<Rightarrow> extern_block pm" where
  "parse_extern R = readP (\<lambda>p0.
     seqP bump
     (readP (\<lambda>p1.
        case as_str (p_peek p1) of
          None \<Rightarrow> failP (''expected an ABI string after `extern` (e.g. `extern '' @ [CHR 0x22] @ ''C'' @ [CHR 0x22] @ ''`)'') (p_span p1)
        | Some abi \<Rightarrow>
            seqP bump
            (readP (\<lambda>p2.
               bindP (if as_ident (p_peek p2) = Some ''link'' \<and> p_peek_at p2 1 = Tk_LParen
                      then parse_link_clause else retP None) (\<lambda>link.
               bindP (extern_sigs R) (\<lambda>fns.
               bindP (span_from (p_span p0)) (\<lambda>sp.
               retP \<lparr>eb_abi = abi, eb_link = link, eb_fns = fns, eb_span = sp\<rparr>))))))))"

definition item_after_vis :: "calls \<Rightarrow> bool \<Rightarrow> item pm" where
  "item_after_vis R is_pub =
     (let v = (if is_pub then Vis_Pub else Vis_Private) in
     readP (\<lambda>p.
       if p_at p Tk_Extern then
         seqP (error_if is_pub
                ''`pub` is not allowed on an `extern` declaration (a foreign symbol is already global)''
                (p_span p))
           (bindP (parse_extern R) (\<lambda>x. retP (It_Extern x)))
       else if as_ident (p_peek p) = Some ''test'' \<and> as_str (p_peek_at p 1) \<noteq> None then
         bindP (parse_test R v) (\<lambda>x. retP (It_Test x))
       else if p_at p Tk_Fn then bindP (parse_fn R v) (\<lambda>x. retP (It_Fn x))
       else if as_ident (p_peek p) = Some ''resource'' \<and> identifier_at p 1 then
         bindP (parse_resource v) (\<lambda>x. retP (It_Resource x))
       else if p_at p Tk_Mut then
         failP ''a top-level constant is immutable; `mut` is not allowed here'' (p_span p)
       else if (as_ident (p_peek p) = Some ''align'' \<or> as_ident (p_peek p) = Some ''layout'') \<and>
               p_peek_at p 1 = Tk_LParen then
         bindP parse_type_attrs (\<lambda>(align, c_repr). parse_type_decl R v align c_repr)
       else if as_ident (p_peek p) \<noteq> None \<and> (p_peek_at p 1 = Tk_LBrace \<or> p_peek_at p 1 = Tk_Lt) then
         parse_type_decl R v None False
       else if as_ident (p_peek p) \<noteq> None \<and> (p_peek_at p 1 = Tk_ColonEq \<or> p_peek_at p 1 = Tk_Colon) then
         parse_const R v
       else
         failP (''expected `fn`, a type declaration, or a constant (`NAME := '' @
           [CHR 0xE2, CHR 0x80, CHR 0xA6] @ ''`) at top level'') (p_span p)))"

definition parse_item :: "calls \<Rightarrow> item pm" where
  "parse_item R = bindP (eat Tk_Pub) (item_after_vis R)"

subsection \<open>Files\<close>

definition parse_module :: "path option pm" where
  "parse_module = readP (\<lambda>p.
     if p_at p Tk_Module then
       seqP bump (bindP parse_path (\<lambda>path. seqP eat_stmt_end (retP (Some path))))
     else retP None)"

definition parse_imports :: "path list pm" where
  "parse_imports =
     loopP (\<lambda>xs. seqP skip_ends (readP (\<lambda>p.
       if p_at p Tk_Import then
         seqP bump (bindP parse_path (\<lambda>path. seqP eat_stmt_end (retP (Inl (xs @ [path])))))
       else retP (Inr xs)))) []"

definition items_turn :: "calls \<Rightarrow> item list \<Rightarrow> (item list + item list) pm" where
  "items_turn R xs =
     seqP skip_ends (readP (\<lambda>p.
       if p_at p Tk_Eof then retP (Inr xs)
       else
         bindP (attemptP (parse_item R)) (\<lambda>r.
         case r of
           Some x \<Rightarrow> retP (Inl (xs @ [x]))
         | None \<Rightarrow>
             seqP bump (seqP (skip_until {Tk_Fn, Tk_Eof, Tk_End, Tk_Semicolon}) (retP (Inl xs))))))"

definition parse_file_items :: "calls \<Rightarrow> ast_file pm" where
  "parse_file_items R =
     seqP skip_ends
     (bindP parse_module (\<lambda>m.
      bindP parse_imports (\<lambda>imports.
      bindP (loopP (items_turn R) []) (\<lambda>xs.
      retP \<lparr>af_module = m, af_imports = imports, af_items = xs\<rparr>))))"

definition parser_new :: "token list \<Rightarrow> diagnostics \<Rightarrow> parser" where
  "parser_new ts ds = \<lparr>ps_tokens = ts, ps_pos = 0, ps_diags = ds, ps_no_struct_literal = False,
     ps_depth = 0, ps_rejected = []\<rparr>"

subsection \<open>Declarations meet the specification\<close>

lemma type_param_decl_meets [meets_rules]: "meets always n type_param_decl"
  unfolding type_param_decl_def
  by (erule (1) notE | rule meets_rules meets_parse_ident [THEN meets_forget] | force)+

lemma type_params_decl_meets [meets_rules]: "meets maybe n type_params_decl"
  unfolding type_params_decl_def
  by (erule (1) notE | rule meets_rules type_param_decl_meets [THEN meets_forget] | force)+

lemma layout_value_meets [meets_rules]: "meets maybe n (readP (\<lambda>p.
        if as_ident (p_peek p) = Some ''C'' then seqP bump (retP True)
        else
          seqP (errorP ''`layout(C)` is the only supported layout attribute'' (p_span p))
          (seqP (if \<not> p_at p Tk_RParen \<and> \<not> p_at p Tk_Eof then seqP bump (retP ()) else retP ())
            (retP c_repr))))"
  by (rule meets_rules outcome_meets [OF meets_error] | force)+

lemma parse_layout_attr_outcome:
  "p_peek p \<noteq> Tk_Eof \<Longrightarrow> outcome always n p (parse_layout_attr c p)"
  unfolding parse_layout_attr_def by (rule meets_rules | force)+

lemma parse_align_attr_outcome: "p_peek p \<noteq> Tk_Eof \<Longrightarrow> outcome always n p (parse_align_attr p)"
  unfolding parse_align_attr_def by (rule meets_rules | force)+

lemma parse_type_attrs_meets [meets_rules]: "meets maybe n parse_type_attrs"
  unfolding parse_type_attrs_def
  by (rule meets_rules outcome_bind [OF parse_align_attr_outcome] outcome_bind [OF parse_layout_attr_outcome]
    | force)+

lemma brace_list_meets [meets_rules]:
  assumes "meets always n m" shows "meets maybe n (brace_list m)"
  unfolding brace_list_def
  by (rule assms outcome_bind outcome_meets [OF assms] meets_rules | force)+

lemma error_if_meets [meets_rules]: "meets maybe n (error_if b msg sp)"
  unfolding error_if_def by (rule meets_rules)+ simp

lemma param_mode_at_meets [meets_rules]: "meets maybe n param_mode_at"
  unfolding param_mode_at_def by (rule meets_rules | force)+

lemma link_name_meets [meets_rules]: "meets maybe n (readP (\<lambda>p.
        case as_str (p_peek p) of
          Some s \<Rightarrow> seqP bump (retP (Some s))
        | None \<Rightarrow>
            seqP (errorP msg (p_span p))
            (seqP (if \<not> p_at p Tk_RParen \<and> \<not> p_at p Tk_Eof then seqP bump (retP ()) else retP ())
              (retP None))))"
  by (rule meets_rules outcome_meets [OF meets_error] | force)+

lemma parse_link_clause_meets [meets_rules]: "meets maybe n parse_link_clause"
  unfolding parse_link_clause_def by (rule meets_rules | force)+

lemma parse_module_meets [meets_rules]: "meets maybe n parse_module"
  unfolding parse_module_def by (rule meets_rules | force simp: p_at_def)+

lemma parse_imports_meets [meets_rules]: "meets maybe n parse_imports"
  unfolding parse_imports_def by (rule meets_rules | force simp: p_at_def)+

lemma parse_resource_outcome:
  "p_peek p \<noteq> Tk_Eof \<Longrightarrow> outcome always n p (parse_resource v p)"
  unfolding parse_resource_def
  by (rule meets_rules meets_parse_ident [THEN meets_forget] | force)+

lemma lenient_read:
  "(\<And>p. ps_wf p \<Longrightarrow> tolerates n p (f p p)) \<Longrightarrow> lenient n (readP f)"
  by (auto simp: lenient_def tolerates_def readP_def ps_wf_def)

lemma lenient_none_or:
  assumes "lenient n m" shows "lenient n (readP (\<lambda>q. if c q then noneP else m))"
  using assms by (intro lenient_read) (auto simp: lenient_def tolerates_def noneP_def pstep_refl)

lemma outcome_error_if:
  assumes "\<And>q. ps_tokens q = ps_tokens p \<Longrightarrow> ps_pos q = ps_pos p \<Longrightarrow> outcome C n q (m q)"
  shows "outcome C n p (seqP (error_if b msg sp) m p)"
proof (cases b)
  case True
  let ?q = "p\<lparr>ps_diags := diag_error (ps_diags p) msg sp\<rparr>"
  have "outcome C n p (m ?q)" if "ps_wf p" "weight p \<le> n"
    by (rule outcome_chain [OF pstep_error [OF that(1)] assms]) (use that in \<open>simp_all add: weight_def\<close>)
  then have "outcome C n p (m ?q)" by (auto simp: outcome_def)
  with True show ?thesis by (simp add: error_if_def seqP_def bindP_def errorP_def)
next
  case False
  with assms [of p] show ?thesis by (simp add: error_if_def seqP_def bindP_def retP_def)
qed

text \<open>After a failed item at least one token is skipped, so the loop over items moves on.\<close>

lemma outcome_recover:
  assumes m: "meets always n m" and p: "p_peek p \<noteq> Tk_Eof" and ks: "Tk_Eof \<in> ks"
  shows "outcome isl n p (bindP (attemptP m) (\<lambda>r. case r of
      Some x \<Rightarrow> retP (Inl (xs @ [x]))
    | None \<Rightarrow> seqP bump (seqP (skip_until ks) (retP (Inl xs)))) p)" (is "outcome isl n p ?r")
proof (cases "ps_wf p \<and> weight p \<le> n")
  case True
  note o = meets_outcome [OF m, of p]
  let ?skip = "seqP bump (seqP (skip_until ks) (retP (Inl xs)))"
  show ?thesis
  proof (cases "m p")
    case (PNone q)
    with o True have st: "pstep p q" and w: "weight q \<le> n"
      using pstep_weight [of p q] by (auto simp: outcome_def)
    have "outcome isl n p (?skip q)"
    proof (cases "ps_pos p < ps_pos q")
      case True
      have "meets maybe n ?skip" by (rule meets_rules | use ks in force)+
      then show ?thesis by (rule outcome_chain [OF st meets_outcome w]) (use True in simp)
    next
      case False
      then have ne: "p_peek q \<noteq> Tk_Eof" using st p by (auto simp: pstep_def p_peek_def)
      have "outcome always n q (?skip q)" by (rule meets_rules ne | use ks in force)+
      then show ?thesis by (rule outcome_chain [OF st _ w]) simp
    qed
    with PNone show ?thesis by (simp add: bindP_def attemptP_def)
  qed (use o True in \<open>simp_all add: outcome_def bindP_def attemptP_def retP_def\<close>)
qed (auto simp: outcome_def)

context parser_calls
begin

lemma test_body_meets:
  assumes "meets maybe n body"
  shows "meets maybe n (readP (\<lambda>p.
     if p_at p Tk_LBrace then body
     else seqP (errorP msg (p_span p))
       (seqP (skip_until {Tk_LBrace, Tk_End, Tk_Semicolon, Tk_Eof})
       (readP (\<lambda>q. if p_at_stmt_end q \<or> p_at q Tk_Eof then noneP else body)))))"
proof (rule meets_read, rule outcome_if)
  fix p
  show "outcome maybe n p (body p)" by (rule meets_outcome [OF assms])
  have "lenient n (seqP (skip_until {Tk_LBrace, Tk_End, Tk_Semicolon, Tk_Eof})
       (readP (\<lambda>q. if p_at_stmt_end q \<or> p_at q Tk_Eof then noneP else body)))"
    by (rule lenient_seq lenient_none_or lenient_meets [OF assms] lenient_meets [OF meets_skip_until] | simp)+
  then show "outcome maybe n p (seqP (errorP msg (p_span p)) (seqP (skip_until {Tk_LBrace, Tk_End, Tk_Semicolon, Tk_Eof})
       (readP (\<lambda>q. if p_at_stmt_end q \<or> p_at q Tk_Eof then noneP else body))) p)"
    by (intro meets_outcome meets_error_then)
qed

lemma parse_test_outcome:
  "n - 1 \<le> k \<Longrightarrow> p_peek p \<noteq> Tk_Eof \<Longrightarrow> outcome always n p (parse_test R v p)"
  unfolding parse_test_def Let_def
  by (rule test_body_meets parse_block_meets meets_rules | force)+

lemma parse_const_meets: "n - 1 \<le> k \<Longrightarrow> meets always n (parse_const R v)"
  unfolding parse_const_def
  by (rule below optional_type_meets outcome_bind outcome_meets [OF meets_parse_ident]
      outcome_meets [OF expr_call [THEN meets_below]] meets_rules
    | force)+

lemma parse_field_def_meets: "n - 1 \<le> k \<Longrightarrow> meets always n (parse_field_def R)"
  unfolding parse_field_def_def
  by (rule below outcome_bind outcome_meets [OF meets_parse_ident] meets_rules | force)+

lemma parse_variant_def_meets: "n - 1 \<le> k \<Longrightarrow> meets always n (parse_variant_def R)"
  unfolding parse_variant_def_def
  by (rule below outcome_bind outcome_meets [OF meets_parse_ident] meets_rules | force)+

lemma parse_type_decl_meets: "n - 1 \<le> k \<Longrightarrow> meets always n (parse_type_decl R v a c)"
  unfolding parse_type_decl_def Let_def
  by (rule parse_field_def_meets parse_variant_def_meets outcome_bind outcome_meets [OF meets_parse_ident]
      outcome_meets [OF brace_list_meets] outcome_meets [OF error_if_meets] meets_rules
    | force)+

lemma parse_param_meets:
  "n - 1 \<le> k \<Longrightarrow> meets maybe n m \<Longrightarrow> meets maybe n (parse_param R m)"
  unfolding parse_param_def
  by (assumption | rule below meets_rules | force)+

lemma return_type_meets: "n - 1 \<le> k \<Longrightarrow> meets maybe n (return_type R)"
  unfolding return_type_def by (erule (1) notE | rule below meets_rules | force)+

lemma parse_fn_body_meets: "n \<le> k \<Longrightarrow> meets maybe n (parse_fn_body R)"
  unfolding parse_fn_body_def by (erule (1) notE | rule below parse_block_meets meets_rules | force)+

lemma parse_fn_outcome:
  "n - 1 \<le> k \<Longrightarrow> p_at p Tk_Fn \<Longrightarrow> outcome always n p (parse_fn R v p)"
  unfolding parse_fn_def
  by (rule parse_param_meets return_type_meets parse_fn_body_meets
      meets_parse_ident [THEN meets_forget] meets_rules
    | force simp: p_at_def)+

lemma parse_extern_sig_meets: "n - 1 \<le> k \<Longrightarrow> meets always n (parse_extern_sig R)"
  unfolding parse_extern_sig_def
  by (rule parse_param_meets return_type_meets outcome_meets [OF meets_expect] meets_rules
      meets_parse_ident [THEN meets_forget] | force)+

lemma extern_sigs_meets: "n - 1 \<le> k \<Longrightarrow> meets maybe n (extern_sigs R)"
  unfolding extern_sigs_def
  by (rule parse_extern_sig_meets outcome_bind outcome_meets [OF parse_extern_sig_meets]
      meets_rules | force)+

lemma parse_extern_outcome:
  "n - 1 \<le> k \<Longrightarrow> p_at p Tk_Extern \<Longrightarrow> outcome always n p (parse_extern R p)"
  unfolding parse_extern_def
  by (rule extern_sigs_meets outcome_bind_if outcome_bind_ret outcome_bind
      outcome_meets [OF parse_link_clause_meets] outcome_meets [OF extern_sigs_meets]
      outcome_meets [OF meets_fail] meets_rules
    | force simp: p_at_def)+

lemma extern_item_outcome:
  assumes "n - 1 \<le> k" "p_at p Tk_Extern"
  shows "outcome always n p (seqP (error_if b msg sp) (bindP (parse_extern R) (\<lambda>x. retP (It_Extern x))) p)"
proof (rule outcome_error_if)
  fix q :: parser assume "ps_tokens q = ps_tokens p" "ps_pos q = ps_pos p"
  then have "p_at q Tk_Extern" using assms(2) by (simp add: p_at_def p_peek_def)
  then show "outcome always n q (bindP (parse_extern R) (\<lambda>x. retP (It_Extern x)) q)"
    using assms(1) by (intro outcome_bind [OF parse_extern_outcome] meets_ret) simp_all
qed

lemma item_after_vis_meets: "n - 1 \<le> k \<Longrightarrow> meets always n (item_after_vis R b)"
  unfolding item_after_vis_def Let_def
  by (rule extern_item_outcome outcome_bind [OF parse_test_outcome]
      outcome_bind [OF parse_fn_outcome] outcome_bind [OF parse_resource_outcome]
      outcome_bind [OF outcome_meets [OF parse_type_attrs_meets]]
      outcome_meets [OF parse_type_decl_meets] outcome_meets [OF parse_const_meets]
      parse_type_decl_meets outcome_meets [OF meets_fail] meets_rules
    | force)+

lemma parse_item_meets: "n - 1 \<le> k \<Longrightarrow> meets always n (parse_item R)"
  unfolding parse_item_def
  by (rule item_after_vis_meets item_after_vis_meets [THEN meets_forget] meets_rules | force)+

lemma items_turn_meets: "n - 1 \<le> k \<Longrightarrow> meets isl n (items_turn R xs)"
  unfolding items_turn_def
  by (rule outcome_recover parse_item_meets meets_rules | force simp: p_at_def)+

lemma parse_file_items_meets: "n - 1 \<le> k \<Longrightarrow> meets maybe n (parse_file_items R)"
  unfolding parse_file_items_def
  by (rule items_turn_meets meets_rules | force)+

end

subsection \<open>Methods that do not return None\<close>

definition plain :: "'a pm \<Rightarrow> bool" where
  "plain m \<longleftrightarrow> (\<forall>p q. m p \<noteq> PNone q)"

named_theorems plain_rules \<open>syntax-directed rules for methods without an \<open>Option\<close>\<close>

lemma plain_ret [plain_rules]: "plain (retP a)"
  and plain_attempt [plain_rules]: "plain (attemptP m)"
  and plain_bump [plain_rules]: "plain bump"
  and plain_error [plain_rules]: "plain (errorP msg sp)"
  by (auto simp: plain_def retP_def attemptP_def bump_def readP_def errorP_def split: presult.splits)

lemma plain_bind [plain_rules]: "plain m \<Longrightarrow> (\<And>a. plain (f a)) \<Longrightarrow> plain (bindP m f)"
  by (auto simp: plain_def bindP_def split: presult.splits)

lemma plain_seq [plain_rules]: "plain m \<Longrightarrow> plain k \<Longrightarrow> plain (seqP m k)"
  unfolding seqP_def by (rule plain_bind)

lemma plain_read [plain_rules]: "(\<And>p. plain (f p)) \<Longrightarrow> plain (readP f)"
  by (auto simp: plain_def readP_def)

lemma plain_if [plain_rules]: "plain m \<Longrightarrow> plain k \<Longrightarrow> plain (if b then m else k)"
  by simp

lemma plain_option [plain_rules]:
  "plain m \<Longrightarrow> (\<And>x. plain (f x)) \<Longrightarrow> plain (case o' of None \<Rightarrow> m | Some x \<Rightarrow> f x)"
  by (cases o') simp_all

lemma plain_loop [plain_rules]:
  assumes "\<And>s. plain (body s)" shows "plain (loopP body s)"
proof -
  have it: "plain (iterP k body s)" for k s
  proof (induction k arbitrary: s)
    case (Suc k)
    show ?case unfolding iterP.simps
      by (rule plain_bind [OF assms]) (auto split: sum.split intro: Suc.IH plain_ret)
  qed (simp add: plain_def)
  have "loopP body s p \<noteq> PNone q" for p q
    using it by (simp only: plain_def loopP_def) blast
  then show ?thesis by (simp add: plain_def)
qed

lemma plain_methods [plain_rules]:
  "plain (eat k)" "plain eat_stmt_end" "plain skip_ends" "plain (skip_until ks)" "plain (span_from sp)"
  unfolding eat_def eat_stmt_end_def skip_ends_def skip_until_def span_from_def prev_spanP_def
  by (rule plain_rules)+

lemma plain_parse_path [plain_rules]: "plain parse_path"
  unfolding parse_path_def path_rest_def by (rule plain_rules)+

lemma plain_parse_file_items: "plain (parse_file_items R)"
  unfolding parse_file_items_def parse_module_def parse_imports_def items_turn_def
  by (rule plain_rules)+

subsection \<open>The file parser\<close>

lemma iter_exit:
  assumes "\<And>s p v q. body s p = POk (Inr v) q \<Longrightarrow> Q q" "iterP k body s p = POk v q"
  shows "Q q"
  using assms(2)
proof (induction k arbitrary: s p)
  case (Suc k)
  then show ?case
    using assms(1) by (auto simp: bindP_def retP_def split: presult.splits sum.splits)
qed simp

lemma items_turn_exit:
  assumes "items_turn R xs p = POk (Inr v) q" shows "p_peek q = Tk_Eof"
  using assms
  by (auto simp: items_turn_def seqP_def bindP_def readP_def retP_def p_at_def
      split: presult.splits if_splits option.splits)

lemma parse_file_items_exit:
  assumes "parse_file_items R p = POk file q" shows "p_peek q = Tk_Eof"
  using assms iter_exit [of "items_turn R" "\<lambda>q. p_peek q = Tk_Eof", OF items_turn_exit]
  by (auto simp: parse_file_items_def seqP_def bindP_def retP_def loopP_def
      simp del: iterP.simps split: presult.splits)

lemma file_parser_outcome:
  assumes "ps_wf p" "weight p \<le> n"
  shows "\<exists>file q. parse_file_items (knot n) p = POk file q \<and> pstep p q \<and> p_peek q = Tk_Eof"
proof -
  have "outcome maybe n p (parse_file_items (knot n) p)"
    by (rule meets_outcome [OF tied.parse_file_items_meets]) simp
  then show ?thesis
    using assms plain_parse_file_items [of "knot n"] parse_file_items_exit [of "knot n" p]
    by (auto simp: outcome_def plain_def split: presult.splits)
qed

end
