(* ===== verification/Depth_Cap.thy ===== *)
theory Depth_Cap
  imports Parser_Items
begin

section \<open>align\_parser: the depth ceiling\<close>

text \<open>
  \<open>cap_expr_depths\<close> cuts every expression of a parsed file that nests deeper than
  \<open>MAX_EXPR_DEPTH\<close> and reports it; \<open>discard_expr_tree\<close> takes the cut trees apart with a work list. A
  walk over the tree is a function from the diagnostics to the new tree and the diagnostics,
  put together from the walks over its parts.
\<close>

declare One_nat_def [simp del]

subsection \<open>Walks\<close>

type_synonym 'a walk = "diagnostics \<Rightarrow> 'a \<times> diagnostics"

definition walk0 :: "'a \<Rightarrow> 'a walk" where
  "walk0 a ds = (a, ds)"

definition walk1 :: "('a \<Rightarrow> 'b) \<Rightarrow> 'a walk \<Rightarrow> 'b walk" where
  "walk1 c m ds = (case m ds of (x, ds1) \<Rightarrow> (c x, ds1))"

definition walk2 :: "('a \<Rightarrow> 'b \<Rightarrow> 'c) \<Rightarrow> 'a walk \<Rightarrow> 'b walk \<Rightarrow> 'c walk" where
  "walk2 c m n ds = (case m ds of (x, ds1) \<Rightarrow> (case n ds1 of (y, ds2) \<Rightarrow> (c x y, ds2)))"

definition walk3 :: "('a \<Rightarrow> 'b \<Rightarrow> 'c \<Rightarrow> 'd) \<Rightarrow> 'a walk \<Rightarrow> 'b walk \<Rightarrow> 'c walk \<Rightarrow> 'd walk" where
  "walk3 c m n k = walk2 (\<lambda>f z. f z) (walk2 c m n) k"

primrec walk_list :: "('a \<Rightarrow> 'a walk) \<Rightarrow> 'a list \<Rightarrow> 'a list walk" where
  "walk_list f [] = walk0 []"
| "walk_list f (x # xs) = walk2 (#) (f x) (walk_list f xs)"

primrec walk_opt :: "('a \<Rightarrow> 'a walk) \<Rightarrow> 'a option \<Rightarrow> 'a option walk" where
  "walk_opt f None = walk0 None"
| "walk_opt f (Some x) = walk1 Some (f x)"

subsection \<open>Capping\<close>

definition is_leaf_expr :: "expr_kind \<Rightarrow> bool" where
  "is_leaf_expr k =
     (case k of E_Unit \<Rightarrow> True | E_Int _ \<Rightarrow> True | E_Float _ \<Rightarrow> True | E_Char _ \<Rightarrow> True | E_Str _ \<Rightarrow> True
      | E_Bool _ \<Rightarrow> True | E_Path _ \<Rightarrow> True | E_FieldShorthand _ \<Rightarrow> True | _ \<Rightarrow> False)"

fun cap_field :: "(expr \<Rightarrow> expr walk) \<Rightarrow> field_init \<Rightarrow> field_init walk" where
  "cap_field ce (Field_Init i e sp) = walk1 (\<lambda>e'. Field_Init i e' sp) (ce e)"

fun cap_arm :: "(expr \<Rightarrow> expr walk) \<Rightarrow> match_arm \<Rightarrow> match_arm walk" where
  "cap_arm ce (Match_Arm p e sp) = walk1 (\<lambda>e'. Match_Arm p e' sp) (ce e)"

fun cap_part :: "(expr \<Rightarrow> expr walk) \<Rightarrow> template_part \<Rightarrow> template_part walk" where
  "cap_part ce (TP_Hole e) = walk1 TP_Hole (ce e)"
| "cap_part ce (TP_Text s) = walk0 (TP_Text s)"

text \<open>The children of a node, by the walks \<open>ce\<close> and \<open>cb\<close> for the expressions and blocks below it.\<close>

fun cap_kind :: "(expr \<Rightarrow> expr walk) \<Rightarrow> (block \<Rightarrow> block walk) \<Rightarrow> expr_kind \<Rightarrow> expr_kind walk" where
  "cap_kind ce cb E_Unit = walk0 E_Unit"
| "cap_kind ce cb (E_Int v) = walk0 (E_Int v)"
| "cap_kind ce cb (E_Float v) = walk0 (E_Float v)"
| "cap_kind ce cb (E_Char v) = walk0 (E_Char v)"
| "cap_kind ce cb (E_Str v) = walk0 (E_Str v)"
| "cap_kind ce cb (E_Bool v) = walk0 (E_Bool v)"
| "cap_kind ce cb (E_Path v) = walk0 (E_Path v)"
| "cap_kind ce cb (E_FieldShorthand v) = walk0 (E_FieldShorthand v)"
| "cap_kind ce cb (E_Unary op e) = walk1 (E_Unary op) (ce e)"
| "cap_kind ce cb (E_Cast e t) = walk1 (\<lambda>e'. E_Cast e' t) (ce e)"
| "cap_kind ce cb (E_Try e) = walk1 E_Try (ce e)"
| "cap_kind ce cb (E_FieldAccess e i) = walk1 (\<lambda>e'. E_FieldAccess e' i) (ce e)"
| "cap_kind ce cb (E_TupleIndex e i) = walk1 (\<lambda>e'. E_TupleIndex e' i) (ce e)"
| "cap_kind ce cb (E_Binary op l r) = walk2 (E_Binary op) (ce l) (ce r)"
| "cap_kind ce cb (E_Call c args) = walk2 E_Call (ce c) (walk_list ce args)"
| "cap_kind ce cb (E_If c t els) = walk3 E_If (ce c) (cb t) (walk_opt ce els)"
| "cap_kind ce cb (E_Block b) = walk1 E_Block (cb b)"
| "cap_kind ce cb (E_Arena b) = walk1 E_Arena (cb b)"
| "cap_kind ce cb (E_NamedArena i b) = walk1 (E_NamedArena i) (cb b)"
| "cap_kind ce cb (E_FloatScope os b) = walk1 (E_FloatScope os) (cb b)"
| "cap_kind ce cb (E_Unsafe b) = walk1 E_Unsafe (cb b)"
| "cap_kind ce cb (E_TaskGroup b) = walk1 E_TaskGroup (cb b)"
| "cap_kind ce cb (E_Loop b) = walk1 E_Loop (cb b)"
| "cap_kind ce cb (E_Lambda ps b) = walk1 (E_Lambda ps) (cb b)"
| "cap_kind ce cb (E_StructLit p fs) = walk1 (E_StructLit p) (walk_list (cap_field ce) fs)"
| "cap_kind ce cb (E_ElseUnwrap a b) = walk2 E_ElseUnwrap (ce a) (ce b)"
| "cap_kind ce cb (E_ArrayLit es) = walk1 E_ArrayLit (walk_list ce es)"
| "cap_kind ce cb (E_Tuple es) = walk1 E_Tuple (walk_list ce es)"
| "cap_kind ce cb (E_Index a b) = walk2 E_Index (ce a) (ce b)"
| "cap_kind ce cb (E_SliceRange a s e) = walk3 E_SliceRange (ce a) (walk_opt ce s) (walk_opt ce e)"
| "cap_kind ce cb (E_Match s arms) = walk2 E_Match (ce s) (walk_list (cap_arm ce) arms)"
| "cap_kind ce cb (E_Template ps) = walk1 E_Template (walk_list (cap_part ce) ps)"

fun cap_stmt :: "(expr \<Rightarrow> expr walk) \<Rightarrow> stmt \<Rightarrow> stmt walk" where
  "cap_stmt ce (S_Let m i t e a) = walk1 (\<lambda>e'. S_Let m i t e' a) (ce e)"
| "cap_stmt ce (S_LetTuple ns e sp) = walk1 (\<lambda>e'. S_LetTuple ns e' sp) (ce e)"
| "cap_stmt ce (S_Assign p v) = walk2 S_Assign (ce p) (ce v)"
| "cap_stmt ce (S_Return v) = walk1 S_Return (walk_opt ce v)"
| "cap_stmt ce (S_Break v sp) = walk1 (\<lambda>v'. S_Break v' sp) (walk_opt ce v)"
| "cap_stmt ce (S_Expr e) = walk1 S_Expr (ce e)"

fun cap_block :: "(expr \<Rightarrow> expr walk) \<Rightarrow> block \<Rightarrow> block walk" where
  "cap_block ce (Block ss t sp) =
     walk2 (\<lambda>ss' t'. Block ss' t' sp) (walk_list (cap_stmt ce) ss) (walk_opt ce t)"

definition too_deep :: string where
  "too_deep = ''expression nests too deeply''"

function cap_expr_depth :: "nat \<Rightarrow> expr \<Rightarrow> expr walk"
  and cap_block_depth :: "nat \<Rightarrow> block \<Rightarrow> block walk" where
  "cap_expr_depth depth e ds =
     (if MAX_EXPR_DEPTH < depth then
        (if is_leaf_expr (kind_of e) then (e, ds)
         else (Expr E_Unit (span_of e), diag_error ds too_deep (span_of e)))
      else walk1 (\<lambda>k. Expr k (span_of e))
             (cap_kind (\<lambda>x ds. cap_expr_depth (depth + 1) x ds) (\<lambda>b ds. cap_block_depth (depth + 1) b ds)
               (kind_of e)) ds)"
| "cap_block_depth depth b ds =
     (if MAX_EXPR_DEPTH < depth then
        (Block [] None (block_span b), diag_error ds too_deep (block_span b))
      else cap_block (\<lambda>x ds. cap_expr_depth (depth + 1) x ds) b ds)"
  by pat_completeness auto
termination
  by (relation "measure (\<lambda>x. case x of Inl (d, _, _) \<Rightarrow> MAX_EXPR_DEPTH + 1 - d
        | Inr (d, _, _) \<Rightarrow> MAX_EXPR_DEPTH + 1 - d)") auto

declare cap_expr_depth.simps [simp del] cap_block_depth.simps [simp del]

fun cap_item :: "item \<Rightarrow> item walk" where
  "cap_item (It_Fn f) =
     (case fd_body f of
        FB_Block b \<Rightarrow> walk1 (\<lambda>b'. It_Fn (f\<lparr>fd_body := FB_Block b'\<rparr>)) (cap_block_depth 1 b)
      | FB_Expr e \<Rightarrow> walk1 (\<lambda>e'. It_Fn (f\<lparr>fd_body := FB_Expr e'\<rparr>)) (cap_expr_depth 1 e))"
| "cap_item (It_Test t) = walk1 (\<lambda>b. It_Test (t\<lparr>td_body := b\<rparr>)) (cap_block_depth 1 (td_body t))"
| "cap_item (It_Const c) = walk1 (\<lambda>e. It_Const (c\<lparr>cd_value := e\<rparr>)) (cap_expr_depth 1 (cd_value c))"
| "cap_item (It_Struct s) = walk0 (It_Struct s)"
| "cap_item (It_Enum e) = walk0 (It_Enum e)"
| "cap_item (It_Resource r) = walk0 (It_Resource r)"
| "cap_item (It_Extern x) = walk0 (It_Extern x)"

definition cap_expr_depths :: "ast_file \<Rightarrow> ast_file walk" where
  "cap_expr_depths file =
     walk1 (\<lambda>xs. file\<lparr>af_items := xs\<rparr>) (walk_list cap_item (af_items file))"

subsection \<open>Depth, as a specification\<close>

text \<open>Every expression and every block directly below a node.\<close>

fun all_kind :: "(expr \<Rightarrow> bool) \<Rightarrow> (block \<Rightarrow> bool) \<Rightarrow> expr_kind \<Rightarrow> bool" where
  "all_kind P Q (E_Unary op e) = P e"
| "all_kind P Q (E_Cast e t) = P e"
| "all_kind P Q (E_Try e) = P e"
| "all_kind P Q (E_FieldAccess e i) = P e"
| "all_kind P Q (E_TupleIndex e i) = P e"
| "all_kind P Q (E_Binary op l r) = (P l \<and> P r)"
| "all_kind P Q (E_Call c args) = (P c \<and> list_all P args)"
| "all_kind P Q (E_If c t els) = (P c \<and> Q t \<and> pred_option P els)"
| "all_kind P Q (E_Block b) = Q b"
| "all_kind P Q (E_Arena b) = Q b"
| "all_kind P Q (E_NamedArena i b) = Q b"
| "all_kind P Q (E_FloatScope os b) = Q b"
| "all_kind P Q (E_Unsafe b) = Q b"
| "all_kind P Q (E_TaskGroup b) = Q b"
| "all_kind P Q (E_Loop b) = Q b"
| "all_kind P Q (E_Lambda ps b) = Q b"
| "all_kind P Q (E_StructLit p fs) = list_all (\<lambda>f. case f of Field_Init _ e _ \<Rightarrow> P e) fs"
| "all_kind P Q (E_ElseUnwrap a b) = (P a \<and> P b)"
| "all_kind P Q (E_ArrayLit es) = list_all P es"
| "all_kind P Q (E_Tuple es) = list_all P es"
| "all_kind P Q (E_Index a b) = (P a \<and> P b)"
| "all_kind P Q (E_SliceRange a s e) = (P a \<and> pred_option P s \<and> pred_option P e)"
| "all_kind P Q (E_Match s arms) = (P s \<and> list_all (\<lambda>a. case a of Match_Arm _ e _ \<Rightarrow> P e) arms)"
| "all_kind P Q (E_Template ps) = list_all (\<lambda>p. case p of TP_Hole e \<Rightarrow> P e | TP_Text _ \<Rightarrow> True) ps"
| "all_kind P Q _ = True"

fun all_stmt :: "(expr \<Rightarrow> bool) \<Rightarrow> stmt \<Rightarrow> bool" where
  "all_stmt P (S_Let m i t e a) = P e"
| "all_stmt P (S_LetTuple ns e sp) = P e"
| "all_stmt P (S_Assign p v) = (P p \<and> P v)"
| "all_stmt P (S_Return v) = pred_option P v"
| "all_stmt P (S_Break v sp) = pred_option P v"
| "all_stmt P (S_Expr e) = P e"

fun all_block :: "(expr \<Rightarrow> bool) \<Rightarrow> block \<Rightarrow> bool" where
  "all_block P (Block ss t sp) = (list_all (all_stmt P) ss \<and> pred_option P t)"

text \<open>
  \<open>fits B n\<close>: at most \<open>n\<close> levels, where a leaf takes none and a block takes one; at level 0 a block
  is allowed when \<open>B\<close> says so.
\<close>

primrec fits :: "(block \<Rightarrow> bool) \<Rightarrow> nat \<Rightarrow> (expr \<Rightarrow> bool) \<times> (block \<Rightarrow> bool)" where
  "fits B 0 = (\<lambda>e. is_leaf_expr (kind_of e), B)"
| "fits B (Suc n) = (\<lambda>e. all_kind (fst (fits B n)) (snd (fits B n)) (kind_of e), all_block (fst (fits B n)))"

definition is_empty_block :: "block \<Rightarrow> bool" where
  "is_empty_block b = (case b of Block ss t _ \<Rightarrow> ss = [] \<and> t = None)"

subsection \<open>What a walk reports and what it returns\<close>

text \<open>\<open>audit m a P\<close>: the walk \<open>m\<close> over \<open>a\<close> reports nothing and changes nothing exactly when \<open>P\<close>.\<close>

definition audit :: "'a walk \<Rightarrow> 'a \<Rightarrow> bool \<Rightarrow> bool" where
  "audit m a P \<longleftrightarrow> (\<forall>ds. \<exists>es. snd (m ds) = ds @ es \<and> (\<forall>e\<in>set es. severity_of e = Error) \<and>
     (es = [] \<longleftrightarrow> P) \<and> (P \<longrightarrow> fst (m ds) = a))"

definition gives :: "'a walk \<Rightarrow> ('a \<Rightarrow> bool) \<Rightarrow> bool" where
  "gives m P \<longleftrightarrow> (\<forall>ds. P (fst (m ds)))"

named_theorems audit_rules \<open>rules for \<open>audit\<close>\<close>
named_theorems gives_rules \<open>rules for \<open>gives\<close>\<close>

lemma audit_cong: "audit m a P \<Longrightarrow> a = b \<Longrightarrow> P = Q \<Longrightarrow> audit m b Q"
  by simp

lemma audit_walk0 [audit_rules]: "audit (walk0 a) a True"
  by (simp add: audit_def walk0_def)

lemma audit_walk1 [audit_rules]: "audit m a P \<Longrightarrow> audit (walk1 c m) (c a) P"
  unfolding audit_def walk1_def by (simp add: case_prod_beta) metis

lemma audit_walk2 [audit_rules]:
  assumes m: "audit m a P" and n: "audit n b Q"
  shows "audit (walk2 c m n) (c a b) (P \<and> Q)"
  unfolding audit_def
proof
  fix ds
  obtain x ds1 where x: "m ds = (x, ds1)" by force
  obtain y ds2 where y: "n ds1 = (y, ds2)" by force
  from m x obtain es where es: "ds1 = ds @ es" "\<forall>e\<in>set es. severity_of e = Error" "es = [] \<longleftrightarrow> P" "P \<longrightarrow> x = a"
    by (auto simp: audit_def dest!: spec [of _ ds])
  from n y obtain fs where fs: "ds2 = ds1 @ fs" "\<forall>e\<in>set fs. severity_of e = Error" "fs = [] \<longleftrightarrow> Q" "Q \<longrightarrow> y = b"
    by (auto simp: audit_def dest!: spec [of _ ds1])
  show "\<exists>gs. snd (walk2 c m n ds) = ds @ gs \<and> (\<forall>e\<in>set gs. severity_of e = Error) \<and>
     (gs = [] \<longleftrightarrow> P \<and> Q) \<and> (P \<and> Q \<longrightarrow> fst (walk2 c m n ds) = c a b)"
    using es fs x y by (intro exI [of _ "es @ fs"]) (auto simp: walk2_def)
qed

lemma audit_walk3 [audit_rules]:
  "audit m a P \<Longrightarrow> audit n b Q \<Longrightarrow> audit k d S \<Longrightarrow> audit (walk3 c m n k) (c a b d) ((P \<and> Q) \<and> S)"
  unfolding walk3_def by (rule audit_walk2 [where c = "\<lambda>f z. f z", OF audit_walk2])

lemma audit_list [audit_rules]:
  "(\<And>x. audit (f x) x (P x)) \<Longrightarrow> audit (walk_list f xs) xs (list_all P xs)"
  by (induction xs) (auto intro: audit_walk0 audit_walk2)

lemma audit_opt [audit_rules]:
  "(\<And>x. audit (f x) x (P x)) \<Longrightarrow> audit (walk_opt f o') o' (pred_option P o')"
  by (cases o') (auto intro: audit_walk0 audit_walk1)

lemma audit_field: "(\<And>e. audit (ce e) e (P e)) \<Longrightarrow> audit (cap_field ce f) f (case f of Field_Init _ e _ \<Rightarrow> P e)"
  by (cases f) (auto intro: audit_cong [OF audit_walk1])

lemma audit_arm: "(\<And>e. audit (ce e) e (P e)) \<Longrightarrow> audit (cap_arm ce f) f (case f of Match_Arm _ e _ \<Rightarrow> P e)"
  by (cases f) (auto intro: audit_cong [OF audit_walk1])

lemma audit_part:
  "(\<And>e. audit (ce e) e (P e)) \<Longrightarrow> audit (cap_part ce f) f (case f of TP_Hole e \<Rightarrow> P e | TP_Text _ \<Rightarrow> True)"
  by (cases f) (auto intro: audit_cong [OF audit_walk1] audit_walk0)

lemma audit_kind:
  assumes ce: "\<And>e. audit (ce e) e (P e)" and cb: "\<And>b. audit (cb b) b (Q b)"
  shows "audit (cap_kind ce cb k) k (all_kind P Q k)"
  by (cases k)
    (simp_all only: cap_kind.simps all_kind.simps,
     (rule audit_cong, (rule ce cb audit_rules audit_field audit_arm audit_part)+, simp_all)+)

lemma audit_stmt:
  assumes ce: "\<And>e. audit (ce e) e (P e)"
  shows "audit (cap_stmt ce s) s (all_stmt P s)"
  by (cases s)
    (simp_all only: cap_stmt.simps all_stmt.simps, (rule audit_cong, (rule ce audit_rules)+, simp_all)+)

lemma audit_block: "(\<And>e. audit (ce e) e (P e)) \<Longrightarrow> audit (cap_block ce b) b (all_block P b)"
  by (cases b) (auto intro: audit_cong [OF audit_walk2 [OF audit_list audit_opt]] audit_stmt)

lemma gives_walk0: "P a \<Longrightarrow> gives (walk0 a) P"
  by (simp add: gives_def walk0_def)

lemma gives_walk1: "gives m P \<Longrightarrow> (\<And>x. P x \<Longrightarrow> Q (c x)) \<Longrightarrow> gives (walk1 c m) Q"
  by (simp add: gives_def walk1_def case_prod_beta)

lemma gives_walk2:
  "gives m P \<Longrightarrow> gives n Q \<Longrightarrow> (\<And>x y. P x \<Longrightarrow> Q y \<Longrightarrow> S (c x y)) \<Longrightarrow> gives (walk2 c m n) S"
  by (simp add: gives_def walk2_def case_prod_beta)

lemma gives_walk3:
  "gives m P \<Longrightarrow> gives n Q \<Longrightarrow> gives k T \<Longrightarrow> (\<And>x y z. P x \<Longrightarrow> Q y \<Longrightarrow> T z \<Longrightarrow> S (c x y z)) \<Longrightarrow>
   gives (walk3 c m n k) S"
  by (simp add: gives_def walk3_def walk2_def case_prod_beta)

lemmas gives_unfold = gives_def walk0_def walk1_def walk2_def case_prod_beta

lemma gives_list: "list_all P xs \<Longrightarrow> (\<And>x. P x \<Longrightarrow> gives (f x) Q) \<Longrightarrow> gives (walk_list f xs) (list_all Q)"
  by (induction xs) (simp_all add: gives_unfold)

lemma gives_opt: "pred_option P o' \<Longrightarrow> (\<And>x. P x \<Longrightarrow> gives (f x) Q) \<Longrightarrow> gives (walk_opt f o') (pred_option Q)"
  by (cases o') (simp_all add: gives_unfold)

lemma gives_field:
  "(case f of Field_Init _ e _ \<Rightarrow> P e) \<Longrightarrow> (\<And>e. P e \<Longrightarrow> gives (ce e) Q) \<Longrightarrow>
   gives (cap_field ce f) (\<lambda>f. case f of Field_Init _ e _ \<Rightarrow> Q e)"
  by (cases f) (simp add: gives_unfold)

lemma gives_arm:
  "(case f of Match_Arm _ e _ \<Rightarrow> P e) \<Longrightarrow> (\<And>e. P e \<Longrightarrow> gives (ce e) Q) \<Longrightarrow>
   gives (cap_arm ce f) (\<lambda>f. case f of Match_Arm _ e _ \<Rightarrow> Q e)"
  by (cases f) (simp add: gives_unfold)

lemma gives_part:
  "(case f of TP_Hole e \<Rightarrow> P e | TP_Text _ \<Rightarrow> True) \<Longrightarrow> (\<And>e. P e \<Longrightarrow> gives (ce e) Q) \<Longrightarrow>
   gives (cap_part ce f) (\<lambda>f. case f of TP_Hole e \<Rightarrow> Q e | TP_Text _ \<Rightarrow> True)"
  by (cases f) (simp_all add: gives_unfold)

text \<open>Where the children have \<open>P\<close> and \<open>Q\<close>, and the walks turn these into \<open>P'\<close> and \<open>Q'\<close>.\<close>

lemma gives_kind:
  assumes k: "all_kind P Q k" and ce: "\<And>e. P e \<Longrightarrow> gives (ce e) P'" and cb: "\<And>b. Q b \<Longrightarrow> gives (cb b) Q'"
  shows "gives (cap_kind ce cb k) (all_kind P' Q')"
proof -
  note parts = ce cb gives_list [OF _ ce] gives_opt [OF _ ce] gives_list [OF _ gives_field [OF _ ce]]
    gives_list [OF _ gives_arm [OF _ ce]] gives_list [OF _ gives_part [OF _ ce]]
  show ?thesis
    using k
    by (cases k)
      (simp_all only: cap_kind.simps, (rule gives_walk0 gives_walk1 [OF parts(1)] gives_walk1 [OF parts(2)]
        gives_walk1 [OF parts(3)] gives_walk1 [OF parts(5)] gives_walk1 [OF parts(7)]
        gives_walk2 [OF parts(1) parts(1)] gives_walk2 [OF parts(1) parts(3)] gives_walk2 [OF parts(1) parts(6)]
        gives_walk3 [OF parts(1) parts(2) parts(4)] gives_walk3 [OF parts(1) parts(4) parts(4)]; simp)+)
qed

lemma gives_stmt: "all_stmt P s \<Longrightarrow> (\<And>e. P e \<Longrightarrow> gives (ce e) Q) \<Longrightarrow> gives (cap_stmt ce s) (all_stmt Q)"
  using gives_opt [of P _ ce Q] by (cases s) (auto simp: gives_unfold)

lemma gives_block: "all_block P b \<Longrightarrow> (\<And>e. P e \<Longrightarrow> gives (ce e) Q) \<Longrightarrow> gives (cap_block ce b) (all_block Q)"
  using gives_list [of "all_stmt P" _ "cap_stmt ce" "all_stmt Q"] gives_stmt [of P _ ce Q] gives_opt [of P _ ce Q]
  by (cases b) (simp add: gives_unfold)

lemma pred_option_always [simp]: "pred_option always o'"
  by (cases o') simp_all

lemma all_always [simp]: "all_kind always always k" "all_stmt always s" "all_block always b"
proof -
  show k: "all_kind always always k" by (cases k) (auto simp: list_all_iff split: field_init.split match_arm.split template_part.split)
  show s: "all_stmt always s" for s by (cases s) auto
  show "all_block always b" by (cases b) (auto simp: list_all_iff s)
qed

subsection \<open>The ceiling\<close>

lemma audit_cut: "audit (\<lambda>ds. (a', diag_error ds msg sp)) a False"
  by (simp add: audit_def diag_error_eq diagnostic_error_def)

lemma cap_expr_unfold:
  "cap_expr_depth depth e =
     (if MAX_EXPR_DEPTH < depth then
        (if is_leaf_expr (kind_of e) then walk0 e
         else (\<lambda>ds. (Expr E_Unit (span_of e), diag_error ds too_deep (span_of e))))
      else walk1 (\<lambda>k. Expr k (span_of e))
             (cap_kind (cap_expr_depth (depth + 1)) (cap_block_depth (depth + 1)) (kind_of e)))"
  by (rule ext) (subst cap_expr_depth.simps, simp add: walk0_def)

lemma cap_block_unfold:
  "cap_block_depth depth b =
     (if MAX_EXPR_DEPTH < depth then
        (\<lambda>ds. (Block [] None (block_span b), diag_error ds too_deep (block_span b)))
      else cap_block (cap_expr_depth (depth + 1)) b)"
  by (rule ext) (subst cap_block_depth.simps, simp)

lemma cap_audit:
  "depth + n = MAX_EXPR_DEPTH + 1 \<Longrightarrow>
   audit (cap_expr_depth depth e) e (fst (fits maybe n) e) \<and>
   audit (cap_block_depth depth b) b (snd (fits maybe n) b)"
proof (induction n arbitrary: depth e b)
  case 0
  then have "MAX_EXPR_DEPTH < depth" by simp
  then show ?case
    using audit_walk0 [of e]
    by (simp add: audit_cut cap_expr_unfold [of depth] cap_block_unfold [of depth])
next
  case (Suc n)
  then have d: "depth + 1 + n = MAX_EXPR_DEPTH + 1" "\<not> MAX_EXPR_DEPTH < depth" by simp_all
  have e: "audit (cap_expr_depth (depth + 1) e) e (fst (fits maybe n) e)"
    and b: "audit (cap_block_depth (depth + 1) b) b (snd (fits maybe n) b)" for e b
    using Suc.IH [OF d(1)] by blast+
  have "audit (cap_expr_depth depth e) e (fst (fits maybe (Suc n)) e)"
    using audit_walk1 [OF audit_kind [OF e b], of "\<lambda>k. Expr k (span_of e)" "kind_of e"] d(2)
    by (cases e) (simp add: cap_expr_unfold [of depth])
  moreover have "audit (cap_block_depth depth b) b (snd (fits maybe (Suc n)) b)"
    using audit_block [OF e, of b] d(2) by (simp add: cap_block_unfold [of depth])
  ultimately show ?case ..
qed

lemma cap_gives:
  "depth + n = MAX_EXPR_DEPTH + 1 \<Longrightarrow>
   gives (cap_expr_depth depth e) (fst (fits is_empty_block n)) \<and>
   gives (cap_block_depth depth b) (snd (fits is_empty_block n))"
proof (induction n arbitrary: depth e b)
  case 0
  then have "MAX_EXPR_DEPTH < depth" by simp
  moreover have "is_leaf_expr E_Unit" by (simp add: is_leaf_expr_def)
  ultimately show ?case
    by (simp add: cap_expr_unfold [of depth] cap_block_unfold [of depth] gives_def walk0_def
        is_empty_block_def)
next
  case (Suc n)
  then have d: "depth + 1 + n = MAX_EXPR_DEPTH + 1" "\<not> MAX_EXPR_DEPTH < depth" by simp_all
  have e: "gives (cap_expr_depth (depth + 1) e) (fst (fits is_empty_block n))"
    and b: "gives (cap_block_depth (depth + 1) b) (snd (fits is_empty_block n))" for e b
    using Suc.IH [OF d(1)] by blast+
  have "gives (cap_expr_depth depth e) (fst (fits is_empty_block (Suc n)))"
    using gives_kind [OF all_always(1), of "cap_expr_depth (depth + 1)" "fst (fits is_empty_block n)"
        "cap_block_depth (depth + 1)" "snd (fits is_empty_block n)" "kind_of e"] e b d(2)
    by (simp add: cap_expr_unfold [of depth] gives_def walk1_def case_prod_beta)
  moreover have "gives (cap_block_depth depth b) (snd (fits is_empty_block (Suc n)))"
    using gives_block [OF all_always(3), of "cap_expr_depth (depth + 1)" "fst (fits is_empty_block n)" b] e d(2)
    by (simp add: cap_block_unfold [of depth])
  ultimately show ?case ..
qed

lemma audit_cap:
  "audit (cap_expr_depth 1 e) e (fst (fits maybe MAX_EXPR_DEPTH) e)"
  "audit (cap_block_depth 1 b) b (snd (fits maybe MAX_EXPR_DEPTH) b)"
  using cap_audit [of 1 MAX_EXPR_DEPTH] by simp_all

lemma gives_cap:
  "gives (cap_expr_depth 1 e) (fst (fits is_empty_block MAX_EXPR_DEPTH))"
  "gives (cap_block_depth 1 b) (snd (fits is_empty_block MAX_EXPR_DEPTH))"
  using cap_gives [of 1 MAX_EXPR_DEPTH] by simp_all

text \<open>The expressions and blocks an item carries.\<close>

definition all_item :: "(expr \<Rightarrow> bool) \<Rightarrow> (block \<Rightarrow> bool) \<Rightarrow> item \<Rightarrow> bool" where
  "all_item P Q x =
     (case x of
        It_Fn f \<Rightarrow> (case fd_body f of FB_Block b \<Rightarrow> Q b | FB_Expr e \<Rightarrow> P e)
      | It_Test t \<Rightarrow> Q (td_body t)
      | It_Const c \<Rightarrow> P (cd_value c)
      | _ \<Rightarrow> True)"

definition file_fits :: "(block \<Rightarrow> bool) \<Rightarrow> nat \<Rightarrow> ast_file \<Rightarrow> bool" where
  "file_fits B n file = list_all (all_item (fst (fits B n)) (snd (fits B n))) (af_items file)"

text \<open>
  Within the ceiling: at most \<open>MAX_EXPR_DEPTH\<close> levels, with leaves, and no block, below the last. Cut
  to the ceiling: below the last level there may also be blocks, but only empty ones, which is
  what a cut leaves of a block.
\<close>

definition within_ceiling :: "ast_file \<Rightarrow> bool" where
  "within_ceiling file = file_fits maybe MAX_EXPR_DEPTH file"

definition cut_to_ceiling :: "ast_file \<Rightarrow> bool" where
  "cut_to_ceiling file = file_fits is_empty_block MAX_EXPR_DEPTH file"

lemma audit_item:
  "audit (cap_item x) x (all_item (fst (fits maybe MAX_EXPR_DEPTH)) (snd (fits maybe MAX_EXPR_DEPTH)) x)"
  by (cases x)
    (auto simp: all_item_def split: fn_body.split
      intro: audit_walk0 audit_cong [OF audit_walk1 [OF audit_cap(1)]] audit_cong [OF audit_walk1 [OF audit_cap(2)]])

lemma gives_item:
  "gives (cap_item x) (all_item (fst (fits is_empty_block MAX_EXPR_DEPTH)) (snd (fits is_empty_block MAX_EXPR_DEPTH)))"
  using gives_cap by (cases x) (auto simp: all_item_def gives_unfold split: fn_body.split)

lemma audit_file: "audit (cap_expr_depths file) file (within_ceiling file)"
  unfolding cap_expr_depths_def within_ceiling_def file_fits_def
  by (rule audit_cong [OF audit_walk1 [OF audit_list [OF audit_item]]]) simp_all

lemma gives_file: "gives (cap_expr_depths file) cut_to_ceiling"
  using gives_list [of always "af_items file" cap_item "all_item (fst (fits is_empty_block MAX_EXPR_DEPTH))
      (snd (fits is_empty_block MAX_EXPR_DEPTH))"] gives_item
  by (simp add: cap_expr_depths_def cut_to_ceiling_def file_fits_def gives_unfold list_all_iff)

subsection \<open>Taking a cut tree apart\<close>

datatype discard_expr_task = DT_Kind expr_kind | DT_Expr expr | DT_Block block | DT_Stmt stmt
  | DT_Field field_init | DT_Arm match_arm | DT_Template template_part

abbreviation opt_list :: "'a option \<Rightarrow> 'a list" where
  "opt_list o' \<equiv> (case o' of Some x \<Rightarrow> [x] | None \<Rightarrow> [])"

text \<open>What one task pushes, in order.\<close>

fun kind_tasks :: "expr_kind \<Rightarrow> discard_expr_task list" where
  "kind_tasks (E_Unary op e) = [DT_Expr e]"
| "kind_tasks (E_Cast e t) = [DT_Expr e]"
| "kind_tasks (E_Try e) = [DT_Expr e]"
| "kind_tasks (E_FieldAccess e i) = [DT_Expr e]"
| "kind_tasks (E_TupleIndex e i) = [DT_Expr e]"
| "kind_tasks (E_Binary op l r) = [DT_Expr l, DT_Expr r]"
| "kind_tasks (E_Call c args) = DT_Expr c # map DT_Expr args"
| "kind_tasks (E_If c t els) = [DT_Expr c, DT_Block t] @ map DT_Expr (opt_list els)"
| "kind_tasks (E_Block b) = [DT_Block b]"
| "kind_tasks (E_Arena b) = [DT_Block b]"
| "kind_tasks (E_NamedArena i b) = [DT_Block b]"
| "kind_tasks (E_FloatScope os b) = [DT_Block b]"
| "kind_tasks (E_Unsafe b) = [DT_Block b]"
| "kind_tasks (E_TaskGroup b) = [DT_Block b]"
| "kind_tasks (E_Loop b) = [DT_Block b]"
| "kind_tasks (E_StructLit p fs) = map DT_Field fs"
| "kind_tasks (E_ElseUnwrap a b) = [DT_Expr a, DT_Expr b]"
| "kind_tasks (E_ArrayLit es) = map DT_Expr es"
| "kind_tasks (E_Tuple es) = map DT_Expr es"
| "kind_tasks (E_Index a b) = [DT_Expr a, DT_Expr b]"
| "kind_tasks (E_SliceRange a s e) = DT_Expr a # map DT_Expr (opt_list s) @ map DT_Expr (opt_list e)"
| "kind_tasks (E_Lambda ps b) = [DT_Block b]"
| "kind_tasks (E_Match s arms) = DT_Expr s # map DT_Arm arms"
| "kind_tasks (E_Template ps) = map DT_Template ps"
| "kind_tasks _ = []"

fun stmt_tasks :: "stmt \<Rightarrow> discard_expr_task list" where
  "stmt_tasks (S_Let m i t e a) = [DT_Expr e]"
| "stmt_tasks (S_LetTuple ns e sp) = [DT_Expr e]"
| "stmt_tasks (S_Assign p v) = [DT_Expr p, DT_Expr v]"
| "stmt_tasks (S_Return v) = map DT_Expr (opt_list v)"
| "stmt_tasks (S_Break v sp) = map DT_Expr (opt_list v)"
| "stmt_tasks (S_Expr e) = [DT_Expr e]"

fun tasks :: "discard_expr_task \<Rightarrow> discard_expr_task list" where
  "tasks (DT_Kind k) = kind_tasks k"
| "tasks (DT_Expr e) = [DT_Kind (kind_of e)]"
| "tasks (DT_Block (Block ss t sp)) = map DT_Expr (opt_list t) @ map DT_Stmt ss"
| "tasks (DT_Stmt s) = stmt_tasks s"
| "tasks (DT_Field (Field_Init i e sp)) = [DT_Expr e]"
| "tasks (DT_Arm (Match_Arm p e sp)) = [DT_Expr e]"
| "tasks (DT_Template (TP_Hole e)) = [DT_Expr e]"
| "tasks (DT_Template (TP_Text s)) = []"

text \<open>The loop, counting the tasks it pops; \<open>None\<close> would be a loop that does not end.\<close>

partial_function (option) discard_loop :: "discard_expr_task list \<Rightarrow> nat \<Rightarrow> nat option" where
  "discard_loop pending popped =
     (if pending = [] then Some popped
      else discard_loop (butlast pending @ tasks (last pending)) (popped + 1))"

definition discard_expr_tree :: "discard_expr_task \<Rightarrow> nat option" where
  "discard_expr_tree root = discard_loop [root] 0"

subsection \<open>The nodes of a tree\<close>

text \<open>
  The nodes the loop must reach, by recursion over the syntax: an expression counts for itself
  and for its kind, which is detached from it; blocks, statements, fields, arms and template parts
  count one each.
\<close>

primrec or_zero :: "nat option \<Rightarrow> nat" where
  "or_zero None = 0"
| "or_zero (Some n) = n"

primrec expr_nodes :: "expr \<Rightarrow> nat" and kind_nodes :: "expr_kind \<Rightarrow> nat" and block_nodes :: "block \<Rightarrow> nat"
  and stmt_nodes :: "stmt \<Rightarrow> nat" and arm_nodes :: "match_arm \<Rightarrow> nat" and part_nodes :: "template_part \<Rightarrow> nat"
  and field_nodes :: "field_init \<Rightarrow> nat" where
  "expr_nodes (Expr k sp) = 1 + kind_nodes k"
| "kind_nodes E_Unit = 1"
| "kind_nodes (E_Int v) = 1"
| "kind_nodes (E_Float v) = 1"
| "kind_nodes (E_Char v) = 1"
| "kind_nodes (E_Str v) = 1"
| "kind_nodes (E_Bool v) = 1"
| "kind_nodes (E_Path v) = 1"
| "kind_nodes (E_FieldShorthand v) = 1"
| "kind_nodes (E_Unary op e) = 1 + expr_nodes e"
| "kind_nodes (E_Cast e t) = 1 + expr_nodes e"
| "kind_nodes (E_Try e) = 1 + expr_nodes e"
| "kind_nodes (E_FieldAccess e i) = 1 + expr_nodes e"
| "kind_nodes (E_TupleIndex e i) = 1 + expr_nodes e"
| "kind_nodes (E_Binary op l r) = 1 + expr_nodes l + expr_nodes r"
| "kind_nodes (E_Call c args) = 1 + expr_nodes c + sum_list (map expr_nodes args)"
| "kind_nodes (E_If c t els) = 1 + expr_nodes c + block_nodes t + or_zero (map_option expr_nodes els)"
| "kind_nodes (E_Block b) = 1 + block_nodes b"
| "kind_nodes (E_Arena b) = 1 + block_nodes b"
| "kind_nodes (E_NamedArena i b) = 1 + block_nodes b"
| "kind_nodes (E_FloatScope os b) = 1 + block_nodes b"
| "kind_nodes (E_Unsafe b) = 1 + block_nodes b"
| "kind_nodes (E_TaskGroup b) = 1 + block_nodes b"
| "kind_nodes (E_Loop b) = 1 + block_nodes b"
| "kind_nodes (E_Lambda ps b) = 1 + block_nodes b"
| "kind_nodes (E_StructLit p fs) = 1 + sum_list (map field_nodes fs)"
| "kind_nodes (E_ElseUnwrap a b) = 1 + expr_nodes a + expr_nodes b"
| "kind_nodes (E_ArrayLit es) = 1 + sum_list (map expr_nodes es)"
| "kind_nodes (E_Tuple es) = 1 + sum_list (map expr_nodes es)"
| "kind_nodes (E_Index a b) = 1 + expr_nodes a + expr_nodes b"
| "kind_nodes (E_SliceRange a s e) = 1 + expr_nodes a + or_zero (map_option expr_nodes s) + or_zero (map_option expr_nodes e)"
| "kind_nodes (E_Match s arms) = 1 + expr_nodes s + sum_list (map arm_nodes arms)"
| "kind_nodes (E_Template ps) = 1 + sum_list (map part_nodes ps)"
| "block_nodes (Block ss t sp) = 1 + sum_list (map stmt_nodes ss) + or_zero (map_option expr_nodes t)"
| "stmt_nodes (S_Let m i t e a) = 1 + expr_nodes e"
| "stmt_nodes (S_LetTuple ns e sp) = 1 + expr_nodes e"
| "stmt_nodes (S_Assign p v) = 1 + expr_nodes p + expr_nodes v"
| "stmt_nodes (S_Return v) = 1 + or_zero (map_option expr_nodes v)"
| "stmt_nodes (S_Break v sp) = 1 + or_zero (map_option expr_nodes v)"
| "stmt_nodes (S_Expr e) = 1 + expr_nodes e"
| "arm_nodes (Match_Arm p e sp) = 1 + expr_nodes e"
| "part_nodes (TP_Text s) = 1"
| "part_nodes (TP_Hole e) = 1 + expr_nodes e"
| "field_nodes (Field_Init i e sp) = 1 + expr_nodes e"

primrec task_nodes :: "discard_expr_task \<Rightarrow> nat" where
  "task_nodes (DT_Kind k) = kind_nodes k"
| "task_nodes (DT_Expr e) = expr_nodes e"
| "task_nodes (DT_Block b) = block_nodes b"
| "task_nodes (DT_Stmt s) = stmt_nodes s"
| "task_nodes (DT_Field f) = field_nodes f"
| "task_nodes (DT_Arm a) = arm_nodes a"
| "task_nodes (DT_Template p) = part_nodes p"

definition tasks_nodes :: "discard_expr_task list \<Rightarrow> nat" where
  "tasks_nodes ts = sum_list (map task_nodes ts)"

lemma tasks_nodes_simps [simp]:
  "tasks_nodes [] = 0" "tasks_nodes (t # ts) = task_nodes t + tasks_nodes ts"
  "tasks_nodes (ts @ us) = tasks_nodes ts + tasks_nodes us"
  "tasks_nodes (map f xs) = sum_list (map (\<lambda>x. task_nodes (f x)) xs)"
  by (simp_all add: tasks_nodes_def comp_def)

lemma sum_opt [simp]: "sum_list (map f (opt_list o')) = or_zero (map_option f o')"
  by (cases o') simp_all

lemma task_nodes_unfold: "task_nodes t = 1 + tasks_nodes (tasks t)"
proof -
  have k: "kind_nodes k = 1 + tasks_nodes (kind_tasks k)" for k by (cases k) simp_all
  have s: "stmt_nodes s = 1 + tasks_nodes (stmt_tasks s)" for s by (cases s) simp_all
  show ?thesis
  proof (cases t rule: tasks.cases)
    case (2 e)
    then show ?thesis by (cases e) simp
  next
    case (4 s)
    then show ?thesis by (simp add: s [of s])
  qed (simp_all add: k)
qed

lemma discard_loop_counts: "discard_loop pending popped = Some (popped + tasks_nodes pending)"
proof (induction "tasks_nodes pending" arbitrary: pending popped rule: less_induct)
  case less
  show ?case
  proof (cases "pending = []")
    case True
    then show ?thesis by (simp add: discard_loop.simps)
  next
    case False
    let ?next = "butlast pending @ tasks (last pending)"
    have "tasks_nodes pending = tasks_nodes (butlast pending) + task_nodes (last pending)"
      using False by (metis append_butlast_last_id tasks_nodes_simps(1-3) add.right_neutral)
    then have n: "tasks_nodes pending = 1 + tasks_nodes ?next" using task_nodes_unfold [of "last pending"] by simp
    then have "discard_loop ?next (popped + 1) = Some (popped + 1 + tasks_nodes ?next)" by (intro less) simp
    with False n show ?thesis by (simp add: discard_loop.simps [of pending])
  qed
qed

end
