(* ===== verification/Precedence.thy ===== *)
theory Precedence
  imports Depth_Cap
begin

section \<open>Operator precedence\<close>

text \<open>
  The Pratt loop of \<open>parse_expr_inner\<close> against the grammar it stands for. A sequence of literals
  joined by single-token binary operators parses to the tree with the same leaves and operators
  in order, in which every operator binds its operands by the level the table gives it, and
  operators of one level group to the left.
\<close>

declare One_nat_def [simp del]

subsection \<open>The grammar\<close>

definition bin_level :: "bin_op \<Rightarrow> nat" where
  "bin_level op =
     (case op of Op_Or \<Rightarrow> 1 | Op_And \<Rightarrow> 2 | Op_Eq \<Rightarrow> 3 | Op_Ne \<Rightarrow> 3 | Op_Lt \<Rightarrow> 3 | Op_Le \<Rightarrow> 3 | Op_Gt \<Rightarrow> 3
      | Op_Ge \<Rightarrow> 3 | Op_Add \<Rightarrow> 4 | Op_Sub \<Rightarrow> 4 | Op_BitOr \<Rightarrow> 4 | Op_BitXor \<Rightarrow> 4 | Op_Mul \<Rightarrow> 5 | Op_Div \<Rightarrow> 5
      | Op_Rem \<Rightarrow> 5 | Op_BitAnd \<Rightarrow> 5 | Op_Shl \<Rightarrow> 5 | Op_Shr \<Rightarrow> 5)"

text \<open>\<open>grouped m lits e\<close>: \<open>e\<close> is an expression of level \<open>m\<close>; the left operand may have the operator's
  own level, the right one a higher one.\<close>

inductive grouped :: "nat \<Rightarrow> expr \<Rightarrow> bool" where
  grouped_leaf: "is_leaf_expr k \<Longrightarrow> grouped m (Expr k sp)"
| grouped_node: "m \<le> bin_level op \<Longrightarrow> grouped (bin_level op) l \<Longrightarrow> grouped (bin_level op + 1) r \<Longrightarrow>
    grouped m (Expr (E_Binary op l r) sp)"

text \<open>The first leaf, and the operators with the leaf after each.\<close>

fun flat :: "expr \<Rightarrow> expr_kind \<times> (bin_op \<times> expr_kind) list" where
  "flat (Expr (E_Binary op l r) sp) =
     (case flat l of (a, as) \<Rightarrow> (case flat r of (b, bs) \<Rightarrow> (a, as @ (op, b) # bs)))"
| "flat (Expr k sp) = (k, [])"

subsection \<open>Running the parser on a token\<close>

definition rem_tokens :: "parser \<Rightarrow> token list" where
  "rem_tokens p = drop (ps_pos p) (ps_tokens p)"

definition p_advance :: "parser \<Rightarrow> nat \<Rightarrow> parser" where
  "p_advance p k = p\<lparr>ps_pos := ps_pos p + k\<rparr>"

lemma rem_peek:
  assumes "rem_tokens p = t # r"
  shows "ps_pos p < length (ps_tokens p)" "p_peek p = tk_kind t" "p_span p = tk_span t"
    "rem_tokens (p_advance p 1) = r"
proof -
  show lt: "ps_pos p < length (ps_tokens p)"
    using assms by (cases "ps_pos p < length (ps_tokens p)") (simp_all add: rem_tokens_def)
  have "ps_tokens p ! ps_pos p = t" using assms lt by (simp add: rem_tokens_def Cons_nth_drop_Suc [symmetric])
  then show "p_peek p = tk_kind t" "p_span p = tk_span t" by (simp_all add: p_peek_def p_span_def)
  have "drop (ps_pos p + 1) (ps_tokens p) = tl (drop (ps_pos p) (ps_tokens p))"
    by (simp add: Suc_eq_plus1 [symmetric] drop_Suc tl_drop del: Suc_eq_plus1)
  then show "rem_tokens (p_advance p 1) = r" using assms by (simp add: rem_tokens_def p_advance_def)
qed

lemma p_advance_simps [simp]:
  "p_advance (p_advance p j) k = p_advance p (j + k)" "p_advance p 0 = p"
  "ps_depth (p_advance p k) = ps_depth p" "ps_rejected (p_advance p k) = ps_rejected p"
  "ps_tokens (p_advance p k) = ps_tokens p"
  by (simp_all add: p_advance_def add.assoc)

lemma rem_advance: "rem_tokens (p_advance p k) = drop k (rem_tokens p)"
  by (simp add: rem_tokens_def p_advance_def add.commute)

lemma bump_run:
  "rem_tokens p = t # r \<Longrightarrow> tk_kind t \<noteq> Tk_Eof \<Longrightarrow> bump p = POk t (p_advance p 1)"
  using rem_peek [of p t r]
  by (simp add: bump_def readP_def p_advance_def rem_tokens_def Cons_nth_drop_Suc [symmetric])

lemma read_run: "rem_tokens p = t # r \<Longrightarrow> readP f p = f p p"
  using rem_peek(1) [of p t r] by (simp add: readP_def)

lemma peek_next:
  assumes "rem_tokens p = t # u # r" shows "p_peek_at p 1 = tk_kind u"
proof -
  note a = rem_peek [OF assms] and b = rem_peek [OF rem_peek(4) [OF assms]]
  have "ps_pos p + 1 \<le> length (ps_tokens p) - 1" using b(1) by (simp add: p_advance_def)
  then show ?thesis using b(2) by (simp add: p_peek_at_def p_peek_def p_advance_def min_def)
qed

lemma loop_exit: "body s p = POk (Inr v) q \<Longrightarrow> loopP body s p = POk v q"
  by (simp add: loopP_def bindP_def retP_def)

definition ends_operand :: "tok_kind \<Rightarrow> bool" where
  "ends_operand k \<longleftrightarrow> k \<notin> {Tk_LParen, Tk_Question, Tk_Dot, Tk_LBracket, Tk_As}"

lemma literal_kind_cases:
  assumes "literal_kind k = Some l"
  obtains v where "k = Tk_Int v" "l = E_Int v" | v where "k = Tk_Float v" "l = E_Float v"
    | v where "k = Tk_Char v" "l = E_Char v" | v where "k = Tk_Str v" "l = E_Str v"
    | "k = Tk_True" "l = E_Bool True" | "k = Tk_False" "l = E_Bool False"
  using assms by (cases k) (auto simp: literal_kind_def)

lemma literal_kinds:
  assumes "literal_kind k = Some l"
  shows "k \<noteq> Tk_Eof" "prefix_op k = None" "is_leaf_expr l"
    "map_of single_binops k = None" "reserved_word k = None \<or> k \<in> {Tk_True, Tk_False}"
  using assms
  by (cases rule: literal_kind_cases;
      simp add: prefix_op_def is_leaf_expr_def reserved_word_def reserved_words_def single_binops_def)+

lemma recovered_literal: "literal_kind (p_peek p) = Some l \<Longrightarrow> recovered_name p = None"
  using literal_kinds(5) [of "p_peek p" l] by (auto simp: recovered_name_def split: option.split)

lemma primary_run:
  assumes r: "rem_tokens p = t # r" and l: "literal_kind (tk_kind t) = Some l"
  shows "parse_primary R p = POk (Expr l (tk_span t)) (p_advance p 1)"
proof -
  note k = literal_kinds [OF l] and rp = rem_peek [OF r]
  have "recovered_name p = None" using recovered_literal [of p l] rp(2) l by simp
  then show ?thesis
    using rp l bump_run [OF r k(1)] by (simp add: parse_primary_def readP_def seqP_def bindP_def retP_def)
qed

lemma postfix_run:
  assumes r: "rem_tokens p = t # u # r" and l: "literal_kind (tk_kind t) = Some l"
    and e: "ends_operand (tk_kind u)"
  shows "parse_postfix R p = POk (Expr l (tk_span t)) (p_advance p 1)"
proof -
  note q = rem_peek [OF rem_peek(4) [OF r]]
  have "postfix_turn R x (p_advance p 1) = POk (Inr x) (p_advance p 1)" for x
    using q e by (simp add: postfix_turn_def readP_def retP_def p_at_def ends_operand_def Let_def)
  then have "loopP (postfix_turn R) x (p_advance p 1) = POk x (p_advance p 1)" for x
    by (intro loop_exit)
  then show ?thesis
    by (simp add: parse_postfix_def bindP_def primary_run [OF r l])
qed

lemma cast_run:
  assumes r: "rem_tokens p = t # u # r" and l: "literal_kind (tk_kind t) = Some l"
    and e: "ends_operand (tk_kind u)" and d: "ps_depth p < MAX_EXPR_DEPTH"
  shows "parse_cast R p = POk (Expr l (tk_span t)) (p_advance p 1)"
proof -
  let ?p = "p\<lparr>ps_depth := ps_depth p + 1\<rparr>"
  have r': "rem_tokens ?p = t # u # r" using r by (simp add: rem_tokens_def)
  have "parse_prefix_inner R ?p = POk (Expr l (tk_span t)) (p_advance ?p 1)"
    using postfix_run [OF r' l e] literal_kinds(2) [OF l] rem_peek [OF r']
    by (simp add: parse_prefix_inner_def readP_def)
  then have "parse_prefix R p = POk (Expr l (tk_span t)) (p_advance p 1)"
    using d by (simp add: parse_prefix_def guard_depth_def p_advance_def)
  moreover note q = rem_peek [OF rem_peek(4) [OF r]]
  have "eat Tk_As (p_advance p 1) = POk False (p_advance p 1)"
    using q e by (simp add: eat_def readP_def p_at_def retP_def ends_operand_def)
  then have "loopP (\<lambda>x. bindP (eat Tk_As) (\<lambda>b. if b then f x else retP (Inr x))) x (p_advance p 1) =
      POk x (p_advance p 1)" for f :: "expr \<Rightarrow> (expr + expr) pm" and x
    by (intro loop_exit) (simp add: bindP_def retP_def)
  ultimately show ?thesis
    by (simp add: parse_cast_def bindP_def [of "parse_prefix R"])
qed

subsection \<open>Sequences of operators and literals\<close>

text \<open>The operator the tokens \<open>ks\<close> spell, with its level.\<close>

definition op_at :: "token list \<Rightarrow> (bin_op \<times> nat) option" where
  "op_at ks =
     (if map tk_kind ks = [Tk_Lt, Tk_Lt] then Some (Op_Shl, 5)
      else if map tk_kind ks = [Tk_Gt, Tk_Gt] then Some (Op_Shr, 5)
      else case ks of [k] \<Rightarrow> map_of single_binops (tk_kind k) | _ \<Rightarrow> None)"

lemma single_binops_facts:
  "list_all (\<lambda>(k, op, bp). bp = bin_level op \<and> 1 \<le> bp \<and> bp \<le> 5 \<and> ends_operand k \<and> k \<noteq> Tk_Eof \<and>
     k \<noteq> Tk_Else) single_binops"
  by code_simp

lemma op_at_cases:
  assumes "op_at ks = Some (op, bp)"
  obtains k where "ks = [k]" "(tk_kind k, op, bp) \<in> set single_binops" "map_of single_binops (tk_kind k) = Some (op, bp)"
    | k k' where "ks = [k, k']" "tk_kind k = Tk_Lt" "tk_kind k' = Tk_Lt" "op = Op_Shl" "bp = 5"
    | k k' where "ks = [k, k']" "tk_kind k = Tk_Gt" "tk_kind k' = Tk_Gt" "op = Op_Shr" "bp = 5"
  using assms
  by (auto simp: op_at_def split: if_splits list.splits dest: map_of_SomeD)

lemma op_at_facts:
  assumes "op_at ks = Some (op, bp)"
  shows "bp = bin_level op" "1 \<le> bp" "bp \<le> 5" "ks \<noteq> []" "ends_operand (tk_kind (hd ks))"
    "\<forall>k\<in>set ks. tk_kind k \<noteq> Tk_Eof"
  using assms
  by (cases rule: op_at_cases;
      use single_binops_facts in \<open>force simp: list_all_iff bin_level_def ends_operand_def\<close>)+

lemma binop_run:
  assumes "rem_tokens p = ks @ t # r" "op_at ks = Some (op, bp)" "literal_kind (tk_kind t) = Some l"
  shows "binop p = Some (op, bp, length ks)"
proof -
  have t: "tk_kind t \<noteq> Tk_Lt" "tk_kind t \<noteq> Tk_Gt" using assms(3) by (auto simp: literal_kind_def)
  from assms(2) show ?thesis
  proof (cases rule: op_at_cases)
    case (1 k)
    then show ?thesis
      using t rem_peek(2) [of p k "t # r"] peek_next [of p k t r] assms(1)
      by (simp add: binop_def One_nat_def)
  next
    case (2 k k')
    then show ?thesis
      using rem_peek(2) [of p k "k' # t # r"] peek_next [of p k k' "t # r"] assms(1)
      by (simp add: binop_def)
  next
    case (3 k k')
    then show ?thesis
      using rem_peek(2) [of p k "k' # t # r"] peek_next [of p k k' "t # r"] assms(1)
      by (simp add: binop_def)
  qed
qed

text \<open>What may follow the sequence.\<close>

definition closes :: "token \<Rightarrow> bool" where
  "closes t \<longleftrightarrow> ends_operand (tk_kind t) \<and> op_at [t] = None \<and> tk_kind t \<noteq> Tk_Else"

lemma binop_stop: "rem_tokens p = t # r \<Longrightarrow> closes t \<Longrightarrow> binop p = None"
  using rem_peek(2) [of p t r] by (auto simp: binop_def closes_def op_at_def single_binops_def)

fun op_tokens :: "(token list \<times> token) list \<Rightarrow> token list" where
  "op_tokens [] = []"
| "op_tokens ((ks, t) # ops) = ks @ t # op_tokens ops"

fun op_seq :: "(token list \<times> token) list \<Rightarrow> (bin_op \<times> expr_kind) list" where
  "op_seq [] = []"
| "op_seq ((ks, t) # ops) = (fst (the (op_at ks)), the (literal_kind (tk_kind t))) # op_seq ops"

fun op_pairs :: "(token list \<times> token) list \<Rightarrow> bool" where
  "op_pairs [] \<longleftrightarrow> True"
| "op_pairs ((ks, t) # ops) \<longleftrightarrow> op_at ks \<noteq> None \<and> literal_kind (tk_kind t) \<noteq> None \<and> op_pairs ops"

lemma op_seq_append [simp]: "op_seq (as @ bs) = op_seq as @ op_seq bs"
  and op_tokens_append [simp]: "op_tokens (as @ bs) = op_tokens as @ op_tokens bs"
  and op_pairs_append [simp]: "op_pairs (as @ bs) \<longleftrightarrow> op_pairs as \<and> op_pairs bs"
  by (induction as rule: op_seq.induct) auto

lemma length_op_tokens: "op_pairs ops \<Longrightarrow> 2 * length ops \<le> length (op_tokens ops)"
proof (induction ops rule: op_pairs.induct)
  case (2 ks t ops)
  then have "ks \<noteq> []" using op_at_facts(4) by fastforce
  with 2 show ?case by (cases ks) simp_all
qed simp

text \<open>No operator left binds at level \<open>m\<close> or tighter.\<close>

definition below :: "nat \<Rightarrow> (token list \<times> token) list \<Rightarrow> bool" where
  "below m ops \<longleftrightarrow> (\<forall>k t ops' op bp. ops = (k, t) # ops' \<and> op_at k = Some (op, bp) \<longrightarrow> bp < m)"

lemma grouped_mono: "grouped m e \<Longrightarrow> m' \<le> m \<Longrightarrow> grouped m' e"
  by (induction rule: grouped.induct) (auto intro: grouped.intros)

lemma flat_leaf: "is_leaf_expr k \<Longrightarrow> flat (Expr k sp) = (k, [])"
  by (cases k) (auto simp: is_leaf_expr_def)

definition call_ok :: "expr pm \<Rightarrow> nat \<Rightarrow> nat \<Rightarrow> bool" where
  "call_ok F n m \<longleftrightarrow> (\<forall>p t0 l ops u rest.
     rem_tokens p = t0 # op_tokens ops @ u # rest \<longrightarrow> literal_kind (tk_kind t0) = Some l \<longrightarrow> op_pairs ops \<longrightarrow>
     closes u \<longrightarrow> length ops \<le> n \<longrightarrow> ps_depth p + 8 \<le> MAX_EXPR_DEPTH + m \<longrightarrow>
     (\<exists>e ops1 ops2. ops = ops1 @ ops2 \<and> F p = POk e (p_advance p (1 + length (op_tokens ops1))) \<and>
        grouped m e \<and> flat e = (l, op_seq ops1) \<and> below m ops2))"

lemma below_Nil [simp]: "below m []"
  by (simp add: below_def)

lemma below_Cons [simp]: "op_at k = Some (op, bp) \<Longrightarrow> below m ((k, t) # ops) \<longleftrightarrow> bp < m"
  by (auto simp: below_def)

lemma bumps_run:
  "rem_tokens p = ks @ r \<Longrightarrow> \<forall>k\<in>set ks. tk_kind k \<noteq> Tk_Eof \<Longrightarrow>
   bumps (length ks) p = POk () (p_advance p (length ks))"
proof (induction ks arbitrary: p)
  case (Cons k ks)
  then show ?case
    using rem_peek(4) [of p k "ks @ r"] bump_run [of p k "ks @ r"] Cons.IH [of "p_advance p 1"]
    by (simp add: seqP_def bindP_def plus_1_eq_Suc)
qed (simp add: retP_def)

text \<open>One turn, given that the call for the right operand behaves.\<close>

lemma binary_turn_run:
  assumes H: "call_ok (c_expr R (bp + 1)) (n - 1) (bp + 1)"
    and r: "rem_tokens p = ks @ t # op_tokens ops @ u # rest" and op: "op_at ks = Some (op, bp)"
    and l: "literal_kind (tk_kind t) = Some l" and ops: "op_pairs ops" "closes u" "length ops < n"
    and d: "ps_depth p + 7 \<le> MAX_EXPR_DEPTH + m" and m: "m \<le> bp"
    and lhs: "grouped bp lhs" "flat lhs = (a, done)"
  shows "\<exists>lhs' ops1 ops2. ops = ops1 @ ops2 \<and>
      binary_turn R m lhs p = POk (Inl lhs') (p_advance p (length (op_tokens ((ks, t) # ops1)))) \<and>
      (\<forall>b\<le>bp. grouped b lhs') \<and> flat lhs' = (a, done @ (op, l) # op_seq ops1) \<and> below (bp + 1) ops2"
proof -
  let ?p1 = "p_advance p (length ks)"
  note opf = op_at_facts [OF op]
  have r1: "rem_tokens ?p1 = t # op_tokens ops @ u # rest" using r by (simp add: rem_advance)
  obtain k ks' where "ks = k # ks'" using opf(4) by (cases ks) simp_all
  then have pos: "ps_pos p < length (ps_tokens p)" using rem_peek(1) [of p k] r by simp
  have "length ops \<le> n - 1" "ps_depth ?p1 + 8 \<le> MAX_EXPR_DEPTH + (bp + 1)" using ops(3) d m by simp_all
  with H r1 l ops(1,2)
  have "\<exists>rhs ops1 ops2. ops = ops1 @ ops2 \<and>
      c_expr R (bp + 1) ?p1 = POk rhs (p_advance ?p1 (1 + length (op_tokens ops1))) \<and>
      grouped (bp + 1) rhs \<and> flat rhs = (l, op_seq ops1) \<and> below (bp + 1) ops2"
    unfolding call_ok_def by blast
  then obtain rhs ops1 ops2 where split: "ops = ops1 @ ops2"
    and call: "c_expr R (bp + 1) ?p1 = POk rhs (p_advance p (length (op_tokens ((ks, t) # ops1))))"
    and rhs: "grouped (bp + 1) rhs" "flat rhs = (l, op_seq ops1)" "below (bp + 1) ops2"
    by (auto simp: Suc_eq_plus1 add.commute add.left_commute)
  define lhs' where "lhs' = Expr (E_Binary op lhs rhs) (merge (span_of lhs) (span_of rhs))"
  have "binary_turn R m lhs p = POk (Inl lhs') (p_advance p (length (op_tokens ((ks, t) # ops1))))"
    using binop_run [OF r op l] m call bumps_run [OF r opf(6)] pos
    by (simp add: binary_turn_def readP_def seqP_def bindP_def retP_def lhs'_def)
  moreover have "\<forall>b\<le>bp. grouped b lhs'"
    unfolding lhs'_def using rhs(1) opf(1) lhs(1) by (auto intro!: grouped_node)
  moreover have "flat lhs' = (a, done @ (op, l) # op_seq ops1)" using lhs(2) rhs(2) by (simp add: lhs'_def)
  ultimately show ?thesis using split rhs(3) by blast
qed

lemma binary_turn_exit:
  assumes "rem_tokens p = op_tokens ops @ u # rest" "op_pairs ops" "closes u" "below m ops"
  shows "binary_turn R m lhs p = POk (Inr lhs) p"
proof (cases ops)
  case Nil
  then show ?thesis
    using binop_stop [of p u rest] rem_peek(1) [of p u rest] assms
    by (simp add: binary_turn_def readP_def retP_def)
next
  case (Cons kt ops')
  obtain ks t where kt: "kt = (ks, t)" by force
  obtain op bp l where op: "op_at ks = Some (op, bp)" and l: "literal_kind (tk_kind t) = Some l"
    using assms(2) Cons kt by auto
  have r: "rem_tokens p = ks @ t # op_tokens ops' @ u # rest" using assms(1) Cons kt by simp
  obtain v r' where "rem_tokens p = v # r'" using r by (cases ks) simp_all
  then show ?thesis
    using binop_run [OF r op l] rem_peek(1) [of p v r'] assms(4) Cons kt op
    by (simp add: binary_turn_def readP_def retP_def)
qed

lemma binary_loop_run:
  assumes H: "\<And>m'. 0 < n \<Longrightarrow> m' \<le> 6 \<Longrightarrow> call_ok (c_expr R m') (n - 1) m'"
  shows "rem_tokens p = op_tokens ops @ u # rest \<Longrightarrow> op_pairs ops \<Longrightarrow> closes u \<Longrightarrow> length ops \<le> n \<Longrightarrow>
    ps_depth p + 7 \<le> MAX_EXPR_DEPTH + m \<Longrightarrow> length ops < k \<Longrightarrow> grouped m lhs \<Longrightarrow> flat lhs = (a, done) \<Longrightarrow>
    (\<And>b. \<not> below b ops \<Longrightarrow> grouped b lhs) \<Longrightarrow>
    \<exists>e ops1 ops2. ops = ops1 @ ops2 \<and> iterP k (binary_turn R m) lhs p = POk e (p_advance p (length (op_tokens ops1))) \<and>
      grouped m e \<and> flat e = (a, done @ op_seq ops1) \<and> below m ops2"
proof (induction "length ops" arbitrary: ops k lhs p "done" rule: less_induct)
  case less
  obtain k' where k': "k = Suc k'" using less.prems(6) by (cases k) simp_all
  show ?case
  proof (cases "below m ops")
    case True
    then show ?thesis
      using binary_turn_exit [OF less.prems(1-3) True, of R lhs] less.prems
      by (intro exI [of _ lhs] exI [of _ "[]"] exI [of _ ops]) (simp add: k' bindP_def retP_def)
  next
    case False
    then obtain ks t ops' op bp where ops: "ops = (ks, t) # ops'" "op_at ks = Some (op, bp)" "m \<le> bp"
      by (auto simp: below_def)
    then obtain l where l: "literal_kind (tk_kind t) = Some l" using less.prems(2) by auto
    have r: "rem_tokens p = ks @ t # op_tokens ops' @ u # rest" using less.prems(1) ops by simp
    have "bp \<le> 5" using op_at_facts [OF ops(2)] by simp
    then have call: "call_ok (c_expr R (bp + 1)) (n - 1) (bp + 1)" using less.prems(4) ops by (intro H) simp_all
    have g: "grouped bp lhs" using less.prems(9) [of bp] ops by simp
    from binary_turn_run [OF call r ops(2) l _ less.prems(3) _ less.prems(5) ops(3) g less.prems(8)]
    obtain lhs' ops1 ops2 where split: "ops' = ops1 @ ops2"
      and turn: "binary_turn R m lhs p = POk (Inl lhs') (p_advance p (length (op_tokens ((ks, t) # ops1))))" (is "_ = POk _ ?q")
      and lhs': "\<forall>b\<le>bp. grouped b lhs'" "flat lhs' = (a, done @ (op, l) # op_seq ops1)" "below (bp + 1) ops2"
      using less.prems(2,4) ops by auto
    have remq: "rem_tokens ?q = op_tokens ops2 @ u # rest"
      using less.prems(1) ops(1) split by (simp add: rem_advance)
    have nb: "grouped b lhs'" if "\<not> below b ops2" for b
      using that lhs'(1,3) by (cases ops2) (force simp: below_def)+
    have "\<exists>e o1 o2. ops2 = o1 @ o2 \<and>
        iterP k' (binary_turn R m) lhs' ?q = POk e (p_advance ?q (length (op_tokens o1))) \<and>
        grouped m e \<and> flat e = (a, (done @ (op, l) # op_seq ops1) @ op_seq o1) \<and> below m o2"
      using less.prems ops split lhs' remq nb k' by (intro less.hyps) simp_all
    then obtain e o1 o2 where "ops2 = o1 @ o2"
      "iterP k' (binary_turn R m) lhs' ?q = POk e (p_advance ?q (length (op_tokens o1)))"
      "grouped m e" "flat e = (a, (done @ (op, l) # op_seq ops1) @ op_seq o1)" "below m o2" by blast
    then show ?thesis
      using ops split turn l k'
      by (intro exI [of _ e] exI [of _ "(ks, t) # ops1 @ o1"] exI [of _ o2]) (simp add: bindP_def add.assoc)
  qed
qed

lemma op_tokens_hd: "op_pairs ops \<Longrightarrow> closes u \<Longrightarrow>
    \<exists>v r. op_tokens ops @ u # rest = v # r \<and> ends_operand (tk_kind v)"
proof (cases ops rule: op_tokens.cases)
  case (2 ks t ops')
  moreover assume "op_pairs ops"
  ultimately obtain op bp where "op_at ks = Some (op, bp)" by auto
  with 2 op_at_facts [OF this] show ?thesis by (cases ks) simp_all
qed (simp add: closes_def)

lemma below_zero: "op_pairs ops \<Longrightarrow> below 0 ops \<Longrightarrow> ops = []"
  by (cases ops rule: op_tokens.cases) (auto simp: below_def)

lemma else_unwrap_run:
  assumes r: "rem_tokens q = op_tokens ops @ u # rest" and ops: "op_pairs ops" "closes u" "below m ops"
  shows "else_unwrap R m e q = POk e q"
proof -
  obtain v r' where v: "rem_tokens q = v # r'" using r op_tokens_hd [OF ops(1,2)] by metis
  have "m = 0 \<Longrightarrow> v = u" using below_zero [OF ops(1)] ops(3) r v by auto
  then have "\<not> (m = 0 \<and> p_at q Tk_Else)" using ops(2) rem_peek [OF v] by (auto simp: closes_def p_at_def)
  then show ?thesis using rem_peek(1) [OF v] by (auto simp: else_unwrap_def readP_def retP_def)
qed

lemma parse_expr_inner_run:
  assumes H: "\<And>m'. 0 < n \<Longrightarrow> m' \<le> 6 \<Longrightarrow> call_ok (c_expr R m') (n - 1) m'"
    and r: "rem_tokens p = t0 # op_tokens ops @ u # rest" and l: "literal_kind (tk_kind t0) = Some l"
    and ops: "op_pairs ops" "closes u" "length ops \<le> n"
    and d: "ps_depth p + 7 \<le> MAX_EXPR_DEPTH + m" "m \<le> 6"
  shows "\<exists>e ops1 ops2. ops = ops1 @ ops2 \<and> parse_expr_inner R m p = POk e (p_advance p (1 + length (op_tokens ops1))) \<and>
        grouped m e \<and> flat e = (l, op_seq ops1) \<and> below m ops2"
proof -
  let ?q = "p_advance p 1"
  let ?e0 = "Expr l (tk_span t0)"
  obtain v r' where v: "op_tokens ops @ u # rest = v # r'" "ends_operand (tk_kind v)"
    using op_tokens_hd [OF ops(1,2)] by blast
  have rp: "rem_tokens p = t0 # v # r'" using r v by simp
  have "ps_depth p < MAX_EXPR_DEPTH" using d by simp
  note cast = cast_run [OF rp l v(2) this, of R]
  have rq: "rem_tokens ?q = op_tokens ops @ u # rest" using rem_peek(4) [OF rp] v by simp
  have lf: "is_leaf_expr l" using literal_kinds(3) [OF l] .
  have "length (rem_tokens ?q) = length (ps_tokens p) - ps_pos ?q" by (simp add: rem_tokens_def)
  then have len: "length ops < Suc (length (ps_tokens ?q) - ps_pos ?q)"
    using rq length_op_tokens [OF ops(1)] by simp
  have "\<exists>e ops1 ops2. ops = ops1 @ ops2 \<and> iterP (Suc (length (ps_tokens ?q) - ps_pos ?q)) (binary_turn R m) ?e0 ?q =
        POk e (p_advance ?q (length (op_tokens ops1))) \<and> grouped m e \<and> flat e = (l, [] @ op_seq ops1) \<and> below m ops2"
    using d(1) lf by (intro binary_loop_run [OF H rq ops _ len]) (auto intro: grouped_leaf simp: flat_leaf)
  then obtain e ops1 ops2 where split: "ops = ops1 @ ops2" and e: "grouped m e" "flat e = (l, op_seq ops1)" "below m ops2"
    and loop: "loopP (binary_turn R m) ?e0 ?q = POk e (p_advance p (1 + length (op_tokens ops1)))" (is "_ = POk _ ?s")
    by (auto simp: loopP_def)
  have "rem_tokens ?s = drop (length (op_tokens ops1)) (rem_tokens ?q)" by (simp add: rem_advance add.commute)
  also have "\<dots> = op_tokens ops2 @ u # rest" using rq split by simp
  finally have "else_unwrap R m e ?s = POk e ?s" using ops split e(3) by (intro else_unwrap_run) simp_all
  then show ?thesis using split e cast loop by (intro exI conjI) (simp_all add: parse_expr_inner_def bindP_def)
qed

lemma parse_expr_call_ok:
  assumes H: "\<And>m'. 0 < n \<Longrightarrow> m' \<le> 6 \<Longrightarrow> call_ok (c_expr R m') (n - 1) m'"
    and m: "m \<le> 6"
  shows "call_ok (parse_expr R m) n m"
  unfolding call_ok_def
proof (intro allI impI)
  fix p :: parser and t0 l ops u rest
  assume r: "rem_tokens p = t0 # op_tokens ops @ u # rest" and l: "literal_kind (tk_kind t0) = Some l"
    and ops: "op_pairs ops" "closes u" "length ops \<le> n" and d: "ps_depth p + 8 \<le> MAX_EXPR_DEPTH + m"
  let ?p = "p\<lparr>ps_depth := ps_depth p + 1\<rparr>"
  have "rem_tokens ?p = t0 # op_tokens ops @ u # rest" using r by (simp add: rem_tokens_def)
  from parse_expr_inner_run [OF H this l ops _ m] d
  obtain e ops1 ops2 where "ops = ops1 @ ops2" "grouped m e" "flat e = (l, op_seq ops1)" "below m ops2"
    and "parse_expr_inner R m ?p = POk e (p_advance ?p (1 + length (op_tokens ops1)))"
    by auto
  moreover from this(5) have "parse_expr R m p = POk e (p_advance p (1 + length (op_tokens ops1)))"
    using d m by (simp add: parse_expr_def guard_depth_def p_advance_def MAX_EXPR_DEPTH_def)
  ultimately show "\<exists>e ops1 ops2. ops = ops1 @ ops2 \<and> parse_expr R m p = POk e (p_advance p (1 + length (op_tokens ops1))) \<and>
        grouped m e \<and> flat e = (l, op_seq ops1) \<and> below m ops2"
    by blast
qed

lemma expr_call_ok: "m \<le> 6 \<Longrightarrow> call_ok (c_expr (knot (Suc n)) m) n m"
proof (induction n arbitrary: m)
  case 0
  then show ?case using parse_expr_call_ok [of 0 "knot 0" m] by (simp add: tie_def)
next
  case (Suc n)
  then show ?case using parse_expr_call_ok [of "Suc n" "knot (Suc n)" m] by (simp add: tie_def)
qed

subsection \<open>The grammar is unambiguous\<close>

fun erase :: "expr \<Rightarrow> expr" where
  "erase (Expr (E_Binary op l r) sp) = Expr (E_Binary op (erase l) (erase r)) (span_new 0 0 0)"
| "erase (Expr k sp) = Expr k (span_new 0 0 0)"

lemma grouped_levels: "grouped m e \<Longrightarrow> flat e = (a, ops) \<Longrightarrow> (op, x) \<in> set ops \<Longrightarrow> m \<le> bin_level op"
proof (induction arbitrary: a ops op x rule: grouped.induct)
  case (grouped_leaf k m sp)
  then show ?case by (simp add: flat_leaf)
next
  case (grouped_node m op' l r sp)
  then show ?case by (fastforce split: prod.splits)
qed

lemma split_unique:
  assumes eq: "as @ (op, b) # bs = as' @ (op', b') # bs'"
    and l: "\<And>x y. (x, y) \<in> set as \<Longrightarrow> bin_level op \<le> bin_level x" "\<And>x y. (x, y) \<in> set bs \<Longrightarrow> bin_level op < bin_level x"
    and l': "\<And>x y. (x, y) \<in> set as' \<Longrightarrow> bin_level op' \<le> bin_level x" "\<And>x y. (x, y) \<in> set bs' \<Longrightarrow> bin_level op' < bin_level x"
  shows "as = as' \<and> op = op' \<and> b = b' \<and> bs = bs'"
proof -
  from eq consider us where "as = as' @ us" "us @ (op, b) # bs = (op', b') # bs'"
    | us where "as' = as @ us" "(op, b) # bs = us @ (op', b') # bs'"
    by (auto simp: append_eq_append_conv2)
  then show ?thesis
  proof cases
    case 1
    then show ?thesis using l(1) [of op' b'] l'(2) [of op b] by (cases us) auto
  next
    case 2
    then show ?thesis using l'(1) [of op b] l(2) [of op' b'] by (cases us) auto
  qed
qed

lemma flat_leaf_only: "grouped m e \<Longrightarrow> flat e = (k, []) \<Longrightarrow> erase e = Expr k (span_new 0 0 0)"
  by (cases rule: grouped.cases) (auto simp: is_leaf_expr_def split: prod.splits expr_kind.splits)

lemma grouped_unique: "grouped m e \<Longrightarrow> grouped m' e' \<Longrightarrow> flat e = flat e' \<Longrightarrow> erase e = erase e'"
proof (induction arbitrary: m' e' rule: grouped.induct)
  case (grouped_leaf k m sp)
  then show ?case
    using flat_leaf_only [of m' e' k] flat_leaf_only [of m "Expr k sp" k]
    by (simp add: flat_leaf grouped.intros)
next
  case (grouped_node m op l r sp)
  obtain a as b bs where f: "flat l = (a, as)" "flat r = (b, bs)" by fastforce
  from grouped_node.prems(1) show ?case
  proof (cases rule: grouped.cases)
    case (grouped_leaf k sp')
    with grouped_node.prems(2) f show ?thesis by (simp add: flat_leaf)
  next
    case node: (grouped_node op' l' r' sp')
    obtain a' as' b' bs' where f': "flat l' = (a', as')" "flat r' = (b', bs')" by fastforce
    have "as @ (op, b) # bs = as' @ (op', b') # bs'" 
      using grouped_node.prems(2) f f' node by simp
    then have "as = as' \<and> op = op' \<and> b = b' \<and> bs = bs'"
      by (rule split_unique)
        (use grouped_levels [OF grouped_node.hyps(2) f(1)] grouped_levels [OF grouped_node.hyps(3) f(2)]
          grouped_levels [OF node(3) f'(1)] grouped_levels [OF node(4) f'(2)] in force)+
    then show ?thesis
      using grouped_node.prems(2) f f' node grouped_node.IH(1) [OF node(3)] grouped_node.IH(2) [OF node(4)] by simp
  qed
qed

text \<open>
  C2. Operator precedence: literals joined by binary operators (the two-token shifts included),
  followed by a token that continues no expression, parse to an expression whose leaves and
  operators are those of the input in order, grouped by the table's levels with operators of one
  level grouping to the left; the parser stands behind the last literal, and no differently grouped
  tree has the same leaves and operators. The depth bound is eight below the ceiling, one level for
  each operator level nested on the right and two for the outermost operand.
\<close>

theorem binary_precedence:
  assumes "rem_tokens p = t0 # op_tokens ops @ u # rest" "literal_kind (tk_kind t0) = Some l"
    and "op_pairs ops" "closes u" "length ops < n" "ps_depth p + 8 \<le> MAX_EXPR_DEPTH"
  shows "\<exists>e. c_expr (knot n) 0 p = POk e (p_advance p (1 + length (op_tokens ops))) \<and>
      grouped 0 e \<and> flat e = (l, op_seq ops) \<and>
      (\<forall>e'. grouped 0 e' \<and> flat e' = (l, op_seq ops) \<longrightarrow> erase e' = erase e)"
proof -
  obtain n' where n: "n = Suc n'" "length ops \<le> n'" using assms(5) by (cases n) simp_all
  have "call_ok (c_expr (knot n) 0) n' 0" using expr_call_ok [of 0 n'] n by simp
  then have "\<exists>e ops1 ops2. ops = ops1 @ ops2 \<and>
      c_expr (knot n) 0 p = POk e (p_advance p (1 + length (op_tokens ops1))) \<and>
      grouped 0 e \<and> flat e = (l, op_seq ops1) \<and> below 0 ops2"
    unfolding call_ok_def using assms n(2) by (elim allE impE) (assumption | simp)+
  then obtain e ops1 ops2 where e: "ops = ops1 @ ops2" "grouped 0 e" "flat e = (l, op_seq ops1)"
      "below 0 ops2" "c_expr (knot n) 0 p = POk e (p_advance p (1 + length (op_tokens ops1)))"
    by blast
  moreover have "ops2 = []" using below_zero [of ops2] e assms(3) by simp
  ultimately have "c_expr (knot n) 0 p = POk e (p_advance p (1 + length (op_tokens ops)))" "flat e = (l, op_seq ops)"
    by simp_all
  with e(2) show ?thesis by (intro exI [of _ e]) (auto intro: grouped_unique)
qed

definition example_tok :: "tok_kind \<Rightarrow> nat \<Rightarrow> token" where
  "example_tok k i = \<lparr>tk_kind = k, tk_span = span_new 0 i (i + 1), tk_radix = None\<rparr>"

text \<open>\<open>1 + 2 * 3 - 4 << 5\<close>.\<close>

definition example_ops :: "(token list \<times> token) list" where
  "example_ops =
     [([example_tok Tk_Plus 1], example_tok (Tk_Int 2) 2), ([example_tok Tk_Star 3], example_tok (Tk_Int 3) 4),
      ([example_tok Tk_Minus 5], example_tok (Tk_Int 4) 6),
      ([example_tok Tk_Lt 7, example_tok Tk_Lt 8], example_tok (Tk_Int 5) 9)]"

definition example_state :: parser where
  "example_state = parser_new
     (example_tok (Tk_Int 1) 0 # op_tokens example_ops @ [example_tok Tk_Eof 10]) []"

lemma example_facts:
  "rem_tokens example_state = example_tok (Tk_Int 1) 0 # op_tokens example_ops @ [example_tok Tk_Eof 10]"
  "literal_kind (tk_kind (example_tok (Tk_Int 1) 0)) = Some (E_Int 1)" "op_pairs example_ops"
  "closes (example_tok Tk_Eof 10)" "length example_ops < 5" "ps_depth example_state + 8 \<le> MAX_EXPR_DEPTH"
  by (simp_all add: example_state_def rem_tokens_def parser_new_def literal_kind_def example_tok_def
      example_ops_def op_at_def single_binops_def closes_def ends_operand_def MAX_EXPR_DEPTH_def)

theorem binary_precedence_witness:
  "\<exists>e. c_expr (knot 5) 0 example_state = POk e (p_advance example_state 10) \<and>
     grouped 0 e \<and> flat e = (E_Int 1, [(Op_Add, E_Int 2), (Op_Mul, E_Int 3), (Op_Sub, E_Int 4), (Op_Shl, E_Int 5)])"
proof -
  have a: "op_seq example_ops = [(Op_Add, E_Int 2), (Op_Mul, E_Int 3), (Op_Sub, E_Int 4), (Op_Shl, E_Int 5)]"
    "1 + length (op_tokens example_ops) = 10"
    by (simp_all add: example_ops_def example_tok_def op_at_def single_binops_def literal_kind_def)
  have "\<exists>e. c_expr (knot 5) 0 example_state = POk e (p_advance example_state (1 + length (op_tokens example_ops))) \<and>
      grouped 0 e \<and> flat e = (E_Int 1, op_seq example_ops) \<and>
      (\<forall>e'. grouped 0 e' \<and> flat e' = (E_Int 1, op_seq example_ops) \<longrightarrow> erase e' = erase e)"
    by (rule binary_precedence [of example_state "example_tok (Tk_Int 1) 0" example_ops "example_tok Tk_Eof 10" "[]"];
        simp add: example_facts)
  then show ?thesis unfolding a by blast
qed

end
