(* ===== verification/Parser_Fuel.thy ===== *)
theory Parser_Fuel
  imports Parser_Items
begin

section \<open>Enough fuel is enough\<close>

text \<open>
  The parser recurses on the call stack; \<open>knot n\<close> stands for a stack of \<open>n\<close> calls. A larger stack
  changes no result but \<open>PFuel\<close>: the relation \<open>agrees\<close> holds between a method over \<open>knot n\<close> and the
  same method over a deeper knot, by a rule for each combinator.
\<close>

declare One_nat_def [simp del]

definition agrees :: "'a pm \<Rightarrow> 'a pm \<Rightarrow> bool" where
  "agrees m k \<longleftrightarrow> (\<forall>p. m p = PFuel \<or> m p = k p)"

named_theorems agrees_rules \<open>syntax-directed rules for \<open>agrees\<close>\<close>

lemma agrees_refl: "agrees m m"
  by (simp add: agrees_def)

lemma agreesD: "agrees m k \<Longrightarrow> m p \<noteq> PFuel \<Longrightarrow> k p = m p"
  by (metis agrees_def)

lemma agrees_bind [agrees_rules]:
  assumes "agrees m k" "\<And>a. agrees (f a) (g a)" shows "agrees (bindP m f) (bindP k g)"
  unfolding agrees_def
proof
  fix p
  show "bindP m f p = PFuel \<or> bindP m f p = bindP k g p"
  proof (cases "m p = PFuel")
    case False
    then have "k p = m p" by (rule agreesD [OF assms(1)])
    then show ?thesis using assms(2) by (cases "m p") (auto simp: bindP_def agrees_def)
  qed (simp add: bindP_def)
qed

lemma agrees_seq [agrees_rules]: "agrees m k \<Longrightarrow> agrees m' k' \<Longrightarrow> agrees (seqP m m') (seqP k k')"
  unfolding seqP_def by (rule agrees_bind)

lemma agrees_read [agrees_rules]: "(\<And>p. agrees (f p) (g p)) \<Longrightarrow> agrees (readP f) (readP g)"
  by (auto simp: agrees_def readP_def)

lemma agrees_if [agrees_rules]:
  "agrees m k \<Longrightarrow> agrees m' k' \<Longrightarrow> agrees (if b then m else m') (if b then k else k')"
  by simp

lemma agrees_let [agrees_rules]: "(\<And>x. agrees (f x) (g x)) \<Longrightarrow> agrees (Let a f) (Let a g)"
  by simp

lemma agrees_option [agrees_rules]:
  "agrees m k \<Longrightarrow> (\<And>x. agrees (f x) (g x)) \<Longrightarrow>
   agrees (case o' of None \<Rightarrow> m | Some x \<Rightarrow> f x) (case o' of None \<Rightarrow> k | Some x \<Rightarrow> g x)"
  by (cases o') simp_all

lemma agrees_prod [agrees_rules]:
  "(\<And>x y. agrees (f x y) (g x y)) \<Longrightarrow> agrees (case z of (x, y) \<Rightarrow> f x y) (case z of (x, y) \<Rightarrow> g x y)"
  by (cases z) simp

lemma agrees_raw_part [agrees_rules]:
  "(\<And>s. agrees (f s) (f' s)) \<Longrightarrow> (\<And>s i. agrees (g s i) (g' s i)) \<Longrightarrow>
   agrees (case r of RP_Text s \<Rightarrow> f s | RP_Hole s i \<Rightarrow> g s i) (case r of RP_Text s \<Rightarrow> f' s | RP_Hole s i \<Rightarrow> g' s i)"
  by (cases r) simp_all

lemma agrees_cases: "agrees m k \<Longrightarrow> (m p = PFuel \<Longrightarrow> P) \<Longrightarrow> (k p = m p \<Longrightarrow> P) \<Longrightarrow> P"
  using agreesD by blast

lemma agrees_attempt [agrees_rules]: "agrees m k \<Longrightarrow> agrees (attemptP m) (attemptP k)"
  unfolding agrees_def [of "attemptP m"]
  by (rule allI, erule_tac p = p in agrees_cases) (simp_all add: attemptP_def)

lemma agrees_with_nsl [agrees_rules]: "agrees m k \<Longrightarrow> agrees (with_nsl b m) (with_nsl b k)"
  unfolding agrees_def [of "with_nsl b m"]
  by (rule allI, erule_tac p = "p\<lparr>ps_no_struct_literal := b\<rparr>" in agrees_cases) (simp_all add: with_nsl_def)

lemma agrees_guard_depth [agrees_rules]: "agrees m k \<Longrightarrow> agrees (guard_depth m) (guard_depth k)"
  unfolding agrees_def [of "guard_depth m"]
  by (rule allI, erule_tac p = "p\<lparr>ps_depth := ps_depth p + 1\<rparr>" in agrees_cases) (simp_all add: guard_depth_def)

lemma agrees_loop [agrees_rules]:
  assumes "\<And>s. agrees (f s) (g s)" shows "agrees (loopP f s) (loopP g s)"
proof -
  have it: "agrees (iterP n f s) (iterP n g s)" for n s
  proof (induction n arbitrary: s)
    case (Suc n)
    show ?case
      unfolding iterP.simps
      by (rule agrees_bind [OF assms]) (auto split: sum.split intro: Suc agrees_refl)
  qed (simp add: agrees_refl)
  have "loopP f s p = PFuel \<or> loopP f s p = loopP g s p" for p
    using it [of "Suc (length (ps_tokens p) - ps_pos p)" s] by (simp only: loopP_def agrees_def)
  then show ?thesis by (simp add: agrees_def)
qed

lemma agrees_map [agrees_rules]: "(\<And>x. agrees (f x) (g x)) \<Longrightarrow> agrees (mapP f xs) (mapP g xs)"
  by (induction xs) (auto intro!: agrees_refl agrees_bind)

lemma comma_list_agrees [agrees_rules]: "agrees m k \<Longrightarrow> agrees (comma_list t m) (comma_list t k)"
  unfolding comma_list_def by (rule agrees_refl agrees_rules | assumption)+

lemma more_elements_agrees [agrees_rules]:
  "agrees m k \<Longrightarrow> agrees (more_elements t m x) (more_elements t k x)"
  unfolding more_elements_def by (rule agrees_refl agrees_rules | assumption)+

lemma line_comma_list_agrees [agrees_rules]:
  "agrees m k \<Longrightarrow> agrees (line_comma_list t m) (line_comma_list t k)"
  unfolding line_comma_list_def by (rule agrees_refl agrees_rules | assumption)+

lemma brace_list_agrees [agrees_rules]: "agrees m k \<Longrightarrow> agrees (brace_list m) (brace_list k)"
  unfolding brace_list_def by (rule agrees_refl agrees_rules | assumption)+

lemma parse_type_agrees [agrees_rules]: "agrees m k \<Longrightarrow> agrees (parse_type m) (parse_type k)"
  unfolding parse_type_def parse_array_type_def parse_fn_type_def parse_paren_type_def parse_named_type_def
  by (rule agrees_refl agrees_rules | assumption)+

subsection \<open>Two records of methods\<close>

locale more_fuel =
  fixes R R' :: calls
  assumes expr_agrees: "agrees (c_expr R m) (c_expr R' m)"
    and prefix_agrees: "agrees (c_prefix R) (c_prefix R')"
    and if_agrees: "agrees (c_if R) (c_if R')"
    and type_agrees: "agrees (c_type R) (c_type R')"
begin

lemmas calls = expr_agrees prefix_agrees if_agrees type_agrees

lemma parse_hole_expr_agrees [agrees_rules]:
  "agrees (parse_hole_expr R src sp off) (parse_hole_expr R' src sp off)"
  unfolding agrees_def
proof
  fix p
  let ?run = "\<lambda>R. bindP (attemptP (c_expr R 0)) (\<lambda>e. seqP (hole_rest (e \<noteq> None)) (retP e))"
  have "agrees (?run R) (?run R')" by (rule agrees_refl calls agrees_rules)+
  then have run: "?run R q = PFuel \<or> ?run R q = ?run R' q" for q by (simp only: agrees_def)
  show "parse_hole_expr R src sp off p = PFuel \<or> parse_hole_expr R src sp off p = parse_hole_expr R' src sp off p"
  proof (cases "tokenize (span_file sp) src []")
    case (Some lexed)
    define base where "base = u32_add (u32_add (span_lo sp) 1) (u32_cast off)"
    define sub where "sub = \<lparr>ps_tokens = map (remap_token base) (fst lexed), ps_pos = 0,
      ps_diags = ps_diags p @ map (remap_diag base) (snd lexed),
      ps_no_struct_literal = False, ps_depth = 0, ps_rejected = ps_rejected p\<rparr>"
    from run [of sub] show ?thesis
      unfolding parse_hole_expr_def base_def [symmetric] Some
      by (elim disjE) (simp_all add: Let_def case_prod_beta sub_def)
  qed (simp add: parse_hole_expr_def)
qed

lemma methods_agree_1 [agrees_rules]:
  "agrees (parse_delimited_expr R x1) (parse_delimited_expr R' x1)"
  "agrees (optional_type R) (optional_type R')"
  "agrees (parse_let_tuple R) (parse_let_tuple R')"
  "agrees (exit_value R) (exit_value R')"
  "agrees (expr_stmt R x5) (expr_stmt R' x5)"
  "agrees (parse_part R x6 y6) (parse_part R' x6 y6)"
  "agrees (parse_match_arm R x7) (parse_match_arm R' x7)"
  "agrees (binary_turn R x8 y8) (binary_turn R' x8 y8)"
  "agrees (parse_field_def R) (parse_field_def R')"
  "agrees (parse_variant_def R) (parse_variant_def R')"
  "agrees m k \<Longrightarrow> agrees (parse_param R m) (parse_param R' k)"
  "agrees (return_type R) (return_type R')"
  unfolding parse_delimited_expr_def optional_type_def parse_let_tuple_def exit_value_def
    expr_stmt_def parse_part_def parse_match_arm_def binary_turn_def
    parse_field_def_def parse_variant_def_def parse_param_def return_type_def
  by (rule agrees_refl calls agrees_rules | assumption)+

lemma methods_agree_2 [agrees_rules]:
  "agrees (parse_let R x1) (parse_let R' x1)"
  "agrees (parse_return R) (parse_return R')"
  "agrees (parse_break R) (parse_break R')"
  "agrees (template_expr R x4) (template_expr R' x4)"
  "agrees (field_init_turn R x5) (field_init_turn R' x5)"
  "agrees (lambda_params R) (lambda_params R')"
  "agrees (paren_expr R x7) (paren_expr R' x7)"
  "agrees (array_expr R x8) (array_expr R' x8)"
  "agrees (parse_match R) (parse_match R')"
  "agrees (call_suffix R x10) (call_suffix R' x10)"
  "agrees (slice_end R) (slice_end R')"
  "agrees (parse_const R x12) (parse_const R' x12)"
  "agrees (parse_type_decl R x13 y13 z13) (parse_type_decl R' x13 y13 z13)"
  "agrees (parse_extern_sig R) (parse_extern_sig R')"
  unfolding parse_let_def parse_return_def parse_break_def template_expr_def
    field_init_turn_def lambda_params_def paren_expr_def array_expr_def
    parse_match_def call_suffix_def slice_end_def parse_const_def
    parse_type_decl_def parse_extern_sig_def
  by (rule agrees_refl calls agrees_rules | assumption)+

lemma methods_agree_3 [agrees_rules]:
  "agrees (let_stmt R x1 y1) (let_stmt R' x1 y1)"
  "agrees (parse_struct_lit R x2) (parse_struct_lit R' x2)"
  "agrees (slice_rest R x3 y3) (slice_rest R' x3 y3)"
  "agrees (extern_sigs R) (extern_sigs R')"
  unfolding let_stmt_def parse_struct_lit_def slice_rest_def extern_sigs_def
  by (rule agrees_refl calls agrees_rules | assumption)+

lemma methods_agree_4 [agrees_rules]:
  "agrees (block_turn R x1) (block_turn R' x1)"
  "agrees (ident_expr R) (ident_expr R')"
  "agrees (bracket_suffix R x3) (bracket_suffix R' x3)"
  "agrees (parse_extern R) (parse_extern R')"
  unfolding block_turn_def ident_expr_def bracket_suffix_def parse_extern_def
  by (rule agrees_refl calls agrees_rules | assumption)+

lemma methods_agree_5 [agrees_rules]:
  "agrees (parse_block R) (parse_block R')"
  "agrees (postfix_turn R x2) (postfix_turn R' x2)"
  unfolding parse_block_def postfix_turn_def Let_def
  by (rule agrees_refl calls agrees_rules | assumption)+

lemma methods_agree_6 [agrees_rules]:
  "agrees (lambda_expr R x1) (lambda_expr R' x1)"
  "agrees (keyword_block R x2 y2) (keyword_block R' x2 y2)"
  "agrees (arena_expr R x3) (arena_expr R' x3)"
  "agrees (float_expr R x4) (float_expr R' x4)"
  "agrees (block_expr R) (block_expr R')"
  "agrees (parse_test R x6) (parse_test R' x6)"
  "agrees (parse_fn_body R) (parse_fn_body R')"
  unfolding lambda_expr_def keyword_block_def arena_expr_def float_expr_def
    block_expr_def parse_test_def parse_fn_body_def Let_def
  by (rule agrees_refl calls agrees_rules | assumption)+

lemma methods_agree_7 [agrees_rules]:
  "agrees (else_branch R) (else_branch R')"
  "agrees (else_unwrap R x2 y2) (else_unwrap R' x2 y2)"
  "agrees (parse_fn R x3) (parse_fn R' x3)"
  unfolding else_branch_def else_unwrap_def parse_fn_def
  by (rule agrees_refl calls agrees_rules | assumption)+

lemma methods_agree_8 [agrees_rules]:
  "agrees (parse_if R) (parse_if R')"
  "agrees (item_after_vis R x2) (item_after_vis R' x2)"
  unfolding parse_if_def item_after_vis_def
  by (rule agrees_refl calls agrees_rules | assumption)+

lemma parse_prefix_agrees [agrees_rules]: "agrees (parse_prefix R) (parse_prefix R')"
  unfolding parse_prefix_def parse_prefix_inner_def parse_postfix_def parse_primary_def
  by (rule agrees_refl calls agrees_rules)+

lemma parse_expr_agrees [agrees_rules]: "agrees (parse_expr R m) (parse_expr R' m)"
  unfolding parse_expr_def parse_expr_inner_def parse_cast_def by (rule agrees_refl calls agrees_rules)+

lemma parse_file_items_agrees: "agrees (parse_file_items R) (parse_file_items R')"
  unfolding parse_file_items_def items_turn_def parse_item_def by (rule agrees_refl calls agrees_rules)+

lemma tie_agrees: "more_fuel (tie R) (tie R')"
  by unfold_locales (simp_all add: tie_def agrees_rules calls)

end

lemma knot_more_fuel: "more_fuel (knot n) (knot (n + k))"
proof (induction n)
  case 0
  show ?case by unfold_locales (simp_all add: agrees_def)
next
  case (Suc n)
  then show ?case by (simp add: more_fuel.tie_agrees)
qed

interpretation deeper: more_fuel "knot n" "knot (n + k)" for n k
  by (rule knot_more_fuel)

lemma parse_file_items_fuel:
  assumes "ps_wf p" "weight p \<le> n"
  shows "parse_file_items (knot n) p = parse_file_items (knot (weight p)) p"
proof -
  obtain k where n: "n = weight p + k" using assms(2) le_Suc_ex by blast
  have "parse_file_items (knot (weight p)) p \<noteq> PFuel" using file_parser_outcome [OF assms(1) order_refl] by auto
  then show ?thesis unfolding n by (rule agreesD [OF deeper.parse_file_items_agrees])
qed

end
