(* ===== verification/Parser_Trees.thy ===== *)
theory Parser_Trees
  imports Depth_Cap
begin

section \<open>The trees the parser builds\<close>

text \<open>
  The invariants the comments of \<open>align_ast\<close> state of the nodes, as one executable predicate, and
  that every node the parser builds has them: tuples and or-patterns have two members or more, a
  fixed-array length and a tuple index fit 32 bits, an alignment is a power of two up to \<open>2 ^ 29\<close>,
  an \<open>else\<close> branch is a block or another \<open>if\<close>, a cast target is a plain name, text parts of a
  template are not empty, and a path expression is a single name. The depth cap keeps them, except
  that it may leave a unit expression where an \<open>else\<close> branch was.
\<close>

declare One_nat_def [simp del]

subsection \<open>The invariant\<close>

fun ty_ok :: "ty \<Rightarrow> bool" and fn_type_param_ok :: "fn_type_param \<Rightarrow> bool" where
  "ty_ok (Ty_Named p args sp) \<longleftrightarrow> path_segments p \<noteq> [] \<and> list_all ty_ok args"
| "ty_ok (Ty_FixedArray t n sep sp) \<longleftrightarrow> n < 2 ^ 32 \<and> ty_ok t"
| "ty_ok (Ty_Tuple ts sp) \<longleftrightarrow> 2 \<le> length ts \<and> list_all ty_ok ts"
| "ty_ok (Ty_Fn ps r sp) \<longleftrightarrow> list_all fn_type_param_ok ps \<and> ty_ok r"
| "fn_type_param_ok (Fn_Type_Param m t) \<longleftrightarrow> ty_ok t"

definition align_ok :: "nat option \<Rightarrow> bool" where
  "align_ok a \<longleftrightarrow> pred_option (\<lambda>n. is_power_of_two n \<and> n \<le> 2 ^ 29) a"

fun pattern_ok :: "match_pattern \<Rightarrow> bool" where
  "pattern_ok (MP_Or vs sp) \<longleftrightarrow> 2 \<le> length vs"
| "pattern_ok (MP_Value vs sp) \<longleftrightarrow> vs \<noteq> []"
| "pattern_ok _ \<longleftrightarrow> True"

fun is_plain_name :: "ty \<Rightarrow> bool" where
  "is_plain_name (Ty_Named p [] sp) \<longleftrightarrow> path_segments p \<noteq> []"
| "is_plain_name _ \<longleftrightarrow> False"

fun is_else_branch :: "expr \<Rightarrow> bool" where
  "is_else_branch (Expr (E_Block b) sp) \<longleftrightarrow> True"
| "is_else_branch (Expr (E_If c t e) sp) \<longleftrightarrow> True"
| "is_else_branch _ \<longleftrightarrow> False"

text \<open>
  Where the depth cap has been at work, the place of an \<open>else\<close> branch may be taken by the unit
  expression the cap leaves; \<open>capped\<close> says whether that is allowed.
\<close>

definition else_ok :: "bool \<Rightarrow> expr \<Rightarrow> bool" where
  "else_ok capped e \<longleftrightarrow> is_else_branch e \<or> capped \<and> kind_of e = E_Unit"

text \<open>What is required of a node itself.\<close>

fun node_ok_in :: "bool \<Rightarrow> expr_kind \<Rightarrow> bool" where
  "node_ok_in capped (E_Path p) \<longleftrightarrow> length (path_segments p) = 1"
| "node_ok_in capped (E_StructLit p fs) \<longleftrightarrow> path_segments p \<noteq> []"
| "node_ok_in capped (E_Cast e t) \<longleftrightarrow> is_plain_name t"
| "node_ok_in capped (E_If c t els) \<longleftrightarrow> pred_option (else_ok capped) els"
| "node_ok_in capped (E_Tuple es) \<longleftrightarrow> 2 \<le> length es"
| "node_ok_in capped (E_TupleIndex e n) \<longleftrightarrow> n < 2 ^ 32"
| "node_ok_in capped (E_Lambda ps b) \<longleftrightarrow> list_all (\<lambda>p. pred_option ty_ok (lp_ty p)) ps"
| "node_ok_in capped (E_Match s arms) \<longleftrightarrow> list_all (\<lambda>a. case a of Match_Arm p e sp \<Rightarrow> pattern_ok p) arms"
| "node_ok_in capped (E_Template ps) \<longleftrightarrow> list_all (\<lambda>p. case p of TP_Text s \<Rightarrow> s \<noteq> [] | TP_Hole e \<Rightarrow> True) ps"
| "node_ok_in capped _ \<longleftrightarrow> True"

fun binding_ok :: "stmt \<Rightarrow> bool" where
  "binding_ok (S_Let m i t e a) \<longleftrightarrow> pred_option ty_ok t \<and> align_ok a"
| "binding_ok _ \<longleftrightarrow> True"

lemma list_all_size_cong:
  "xs = ys \<Longrightarrow> (\<And>x. size x \<le> size_list size ys \<Longrightarrow> P x = Q x) \<Longrightarrow> list_all P xs = list_all Q ys"
  by (rule list.pred_cong) (auto intro: size_list_estimation' [where f = size])

lemma pred_option_size_cong:
  "a = b \<Longrightarrow> (\<And>x. size x \<le> size_option size b \<Longrightarrow> P x = Q x) \<Longrightarrow> pred_option P a = pred_option Q b"
  by (rule option.pred_cong) auto

lemma part_size_cong:
  "f = g \<Longrightarrow> (\<And>e. size e \<le> size g \<Longrightarrow> P e = Q e) \<Longrightarrow>
   (case f of Field_Init _ e _ \<Rightarrow> P e) = (case g of Field_Init _ e _ \<Rightarrow> Q e)"
  "a = b \<Longrightarrow> (\<And>e. size e \<le> size b \<Longrightarrow> P e = Q e) \<Longrightarrow>
   (case a of Match_Arm _ e _ \<Rightarrow> P e) = (case b of Match_Arm _ e _ \<Rightarrow> Q e)"
  "t = u \<Longrightarrow> (\<And>e. size e \<le> size u \<Longrightarrow> P e = Q e) \<Longrightarrow>
   (case t of TP_Hole e \<Rightarrow> P e | TP_Text _ \<Rightarrow> True) = (case u of TP_Hole e \<Rightarrow> Q e | TP_Text _ \<Rightarrow> True)"
  by ((cases g; simp), (cases b; simp), (cases u; simp))

lemma all_kind_cong [fundef_cong]:
  assumes "k = k'" "\<And>e. size e \<le> size k' \<Longrightarrow> P e = P' e" "\<And>b. size b \<le> size k' \<Longrightarrow> Q b = Q' b"
  shows "all_kind P Q k = all_kind P' Q' k'"
  using assms by (cases k) (auto cong: list_all_size_cong pred_option_size_cong part_size_cong)

lemma all_stmt_cong:
  "s = s' \<Longrightarrow> (\<And>e. size e \<le> size s' \<Longrightarrow> P e = P' e) \<Longrightarrow> all_stmt P s = all_stmt P' s'"
  by (cases s) (auto cong: pred_option_size_cong)

lemma all_block_cong [fundef_cong]:
  assumes "b = b'" "\<And>e. size e < size b' \<Longrightarrow> P e = P' e"
  shows "all_block P b = all_block P' b'"
  using assms by (cases b) (auto cong: list_all_size_cong pred_option_size_cong all_stmt_cong)

fun expr_ok_in :: "bool \<Rightarrow> expr \<Rightarrow> bool" and block_ok_in :: "bool \<Rightarrow> block \<Rightarrow> bool" where
  "expr_ok_in capped (Expr k sp) \<longleftrightarrow> node_ok_in capped k \<and> all_kind (expr_ok_in capped) (block_ok_in capped) k"
| "block_ok_in capped b \<longleftrightarrow> (case b of Block ss t sp \<Rightarrow> list_all binding_ok ss) \<and> all_block (expr_ok_in capped) b"

lemma block_ok_simps [simp]:
  "block_ok_in capped (Block ss t sp) \<longleftrightarrow>
     list_all binding_ok ss \<and> list_all (all_stmt (expr_ok_in capped)) ss \<and> pred_option (expr_ok_in capped) t"
  by simp

declare block_ok_in.simps [simp del]

abbreviation param_ok :: "param \<Rightarrow> bool" where
  "param_ok p \<equiv> ty_ok (pm_ty p)"

definition sig_ok :: "extern_sig \<Rightarrow> bool" where
  "sig_ok s \<longleftrightarrow> list_all param_ok (es_params s) \<and> pred_option ty_ok (es_ret s)"

fun body_ok_in :: "bool \<Rightarrow> fn_body \<Rightarrow> bool" where
  "body_ok_in capped (FB_Block b) \<longleftrightarrow> block_ok_in capped b"
| "body_ok_in capped (FB_Expr e) \<longleftrightarrow> expr_ok_in capped e"

definition fn_ok_in :: "bool \<Rightarrow> fn_decl \<Rightarrow> bool" where
  "fn_ok_in capped f \<longleftrightarrow>
     list_all param_ok (fd_params f) \<and> pred_option ty_ok (fd_ret f) \<and> body_ok_in capped (fd_body f)"

fun item_ok_in :: "bool \<Rightarrow> item \<Rightarrow> bool" where
  "item_ok_in capped (It_Fn f) \<longleftrightarrow> fn_ok_in capped f"
| "item_ok_in capped (It_Test t) \<longleftrightarrow> block_ok_in capped (td_body t)"
| "item_ok_in capped (It_Struct d) \<longleftrightarrow> list_all (\<lambda>f. ty_ok (fl_ty f)) (sd_fields d) \<and> align_ok (sd_align d)"
| "item_ok_in capped (It_Enum d) \<longleftrightarrow> list_all (\<lambda>v. list_all ty_ok (vd_payload v)) (ed_variants d)"
| "item_ok_in capped (It_Resource d) \<longleftrightarrow> True"
| "item_ok_in capped (It_Const c) \<longleftrightarrow> pred_option ty_ok (cd_ty c) \<and> expr_ok_in capped (cd_value c)"
| "item_ok_in capped (It_Extern b) \<longleftrightarrow> list_all sig_ok (eb_fns b)"

definition file_ok_in :: "bool \<Rightarrow> ast_file \<Rightarrow> bool" where
  "file_ok_in capped file \<longleftrightarrow> list_all (item_ok_in capped) (af_items file)"

text \<open>The invariant as the comments state it, and as the cap leaves it.\<close>

abbreviation expr_ok :: "expr \<Rightarrow> bool" where
  "expr_ok \<equiv> expr_ok_in False"

abbreviation block_ok :: "block \<Rightarrow> bool" where
  "block_ok \<equiv> block_ok_in False"

abbreviation body_ok :: "fn_body \<Rightarrow> bool" where
  "body_ok \<equiv> body_ok_in False"

abbreviation fn_ok :: "fn_decl \<Rightarrow> bool" where
  "fn_ok \<equiv> fn_ok_in False"

abbreviation item_ok :: "item \<Rightarrow> bool" where
  "item_ok \<equiv> item_ok_in False"

definition file_ok :: "ast_file \<Rightarrow> bool" where
  "file_ok file \<longleftrightarrow> file_ok_in False file"

definition capped_file_ok :: "ast_file \<Rightarrow> bool" where
  "capped_file_ok file \<longleftrightarrow> file_ok_in True file"

lemma else_ok_simps [simp]: "else_ok False = is_else_branch" "else_ok True e \<longleftrightarrow> is_else_branch e \<or> kind_of e = E_Unit"
  by (auto simp: else_ok_def)

subsection \<open>Rules for results\<close>

lemma yields_any: "yields always m"
  by (simp add: yields_def)

lemma yields_none [yields_rules]: "yields Q noneP"
  by (simp add: yields_def noneP_def)

lemma yields_fail [yields_rules]: "yields Q (failP msg sp)" "yields Q (fail_here msg)"
  unfolding failP_def fail_here_def by (rule yields_rules yields_none)+

lemma yields_weaken: "yields Q m \<Longrightarrow> (\<And>a. Q a \<Longrightarrow> Q' a) \<Longrightarrow> yields Q' m"
  by (auto simp: yields_def)

lemma yields_let [yields_rules]: "(\<And>x. x = a \<Longrightarrow> yields Q (f x)) \<Longrightarrow> yields Q (Let a f)"
  by simp

lemma yields_option [yields_rules]:
  "(o' = None \<Longrightarrow> yields Q m) \<Longrightarrow> (\<And>x. o' = Some x \<Longrightarrow> yields Q (f x)) \<Longrightarrow>
   yields Q (case o' of None \<Rightarrow> m | Some x \<Rightarrow> f x)"
  by (cases o') simp_all

lemma yields_prod [yields_rules]:
  "(\<And>x y. z = (x, y) \<Longrightarrow> yields Q (f x y)) \<Longrightarrow> yields Q (case z of (x, y) \<Rightarrow> f x y)"
  by (cases z) simp

lemma yields_attempt: "yields Q m \<Longrightarrow> yields (pred_option Q) (attemptP m)"
  by (auto simp: yields_def attemptP_def split: presult.splits)

lemma yields_with_nsl: "yields Q m \<Longrightarrow> yields Q (with_nsl b m)"
  by (auto simp: yields_def with_nsl_def Let_def split: presult.splits)

lemma yields_guard_depth: "yields Q m \<Longrightarrow> yields Q (guard_depth m)"
  using yieldsD [OF yields_fail(2)]
  by (fastforce simp: yields_def guard_depth_def Let_def split: presult.splits if_splits)

lemma yields_ending [yields_rules]: "(\<And>sp. Q (Expr k sp)) \<Longrightarrow> yields Q (ending_here start k)"
  unfolding ending_here_def by (rule yields_rules | simp)+

text \<open>The list loops keep a property of the elements.\<close>

named_theorems builds \<open>what a method builds\<close>

lemma yields_comma_list [builds]:
  assumes "yields Q m" shows "yields (list_all Q) (comma_list t m)"
  unfolding comma_list_def
  by (rule yields_loop [where J = "list_all Q"])
    (rule assms yields_any yields_bind_fact yields_rules | simp)+

lemma yields_line_comma_list [builds]:
  assumes "yields Q m" shows "yields (list_all Q) (line_comma_list t m)"
  unfolding line_comma_list_def
  by (rule yields_loop [where J = "list_all Q"])
    (rule assms yields_any yields_bind_fact yields_rules | simp)+

lemma yields_brace_list [builds]:
  assumes "yields Q m" shows "yields (list_all Q) (brace_list m)"
  unfolding brace_list_def
  by (rule yields_loop [where J = "list_all Q"])
    (rule assms yields_any yields_bind_fact yields_rules | simp)+

lemma yields_more_elements [builds]:
  assumes "yields Q m" "Q x" shows "yields (\<lambda>xs. list_all Q xs \<and> xs \<noteq> []) (more_elements t m x)"
  unfolding more_elements_def
  by (rule yields_loop [where J = "\<lambda>xs. list_all Q xs \<and> xs \<noteq> []"])
    (rule assms yields_any yields_bind_fact yields_rules | simp add: assms)+

lemma yields_map [builds]:
  assumes "\<And>x. x \<in> set xs \<Longrightarrow> yields Q (f x)" shows "yields (list_all Q) (mapP f xs)"
  using assms
  by (induction xs) (auto intro!: yields_ret yields_bind_fact [of Q] yields_bind_fact [of "list_all Q"])

subsection \<open>Types\<close>

lemma parse_path_some_builds [builds]: "yields (\<lambda>p. path_segments p \<noteq> []) parse_path_some"
  unfolding parse_path_some_def by (rule yields_any yields_bind_fact yields_rules | simp)+

lemma parse_cast_type_builds [builds]: "yields is_plain_name parse_cast_type"
  unfolding parse_cast_type_def by (rule builds yields_any yields_bind_fact yields_rules | simp)+

lemma array_length_builds [builds]: "yields (\<lambda>n. n < 2 ^ 32) (array_length t)"
  unfolding array_length_def by (rule yields_any yields_bind_fact yields_rules | simp add: nat_less_iff)+

lemma one_or_tuple:
  "list_all Q xs \<and> xs \<noteq> [] \<Longrightarrow> (2 \<le> length xs \<and> list_all Q xs \<Longrightarrow> Q y) \<Longrightarrow> Q (case xs of [x] \<Rightarrow> x | _ \<Rightarrow> y)"
  by (auto split: list.split)

lemma parse_type_builds:
  assumes "yields ty_ok rt" shows "yields ty_ok (parse_type rt)"
proof -
  have param: "yields fn_type_param_ok (bindP fn_type_mode (\<lambda>mode. bindP rt (\<lambda>t. retP (Fn_Type_Param mode t))))"
    by (rule assms builds yields_any yields_bind_fact yields_rules | simp)+
  have args: "yields (list_all ty_ok)
      (if b then bindP (comma_list Tk_Gt rt) (\<lambda>args. seqP (expect Tk_Gt (quoted ''>'')) (retP args)) else retP [])" for b
    by (rule assms builds yields_any yields_bind_fact yields_rules | simp)+
  show ?thesis
    unfolding parse_type_def parse_array_type_def parse_fn_type_def parse_paren_type_def parse_named_type_def
    by (rule assms param args builds yields_any yields_bind_fact yields_rules
        | (simp add: unit_type_def; fail) | (erule one_or_tuple, simp))+
qed

subsection \<open>Patterns and attributes\<close>

lemma pipe_list_builds: "xs \<noteq> [] \<Longrightarrow> yields (\<lambda>ys. ys \<noteq> []) (pipe_list m xs)"
  unfolding pipe_list_def
  by (rule yields_loop [where J = "\<lambda>ys. ys \<noteq> []"]) (rule yields_any yields_bind_fact yields_rules | simp)+

lemma yields_read_at: "(\<And>p a q. f p p = POk a q \<Longrightarrow> Q a) \<Longrightarrow> yields Q (readP f)"
  by (auto simp: yields_def readP_def split: if_splits)

text \<open>At a \<open>|\<close> the list grows.\<close>

lemma pipe_list_grows:
  assumes "p_at p Tk_Pipe" "pipe_list m xs p = POk ys q" shows "length xs < length ys"
proof -
  let ?body = "\<lambda>xs. bindP (eat Tk_Pipe) (\<lambda>b. if b then seqP skip_ends (bindP m (\<lambda>x. retP (Inl (xs @ [x])))) else retP (Inr xs))"
  have "n \<le> length xs' \<Longrightarrow> yields (\<lambda>ys. n \<le> length ys) (iterP k ?body xs')" for n k xs'
    by (rule yields_iter [where J = "\<lambda>ys. n \<le> length ys"]) (rule yields_any yields_bind_fact yields_rules | simp)+
  note it = yieldsD [OF this [OF order_refl]]
  have "eat Tk_Pipe p \<noteq> POk False r" for r
    using assms(1) by (auto simp: eat_def readP_def seqP_def bindP_def retP_def split: presult.splits)
  with assms(2) show ?thesis
    unfolding pipe_list_def loopP_def
    by (auto simp: bindP_def [of "eat Tk_Pipe"] bindP_def [of "bindP (eat Tk_Pipe) f" for f] bindP_def [of m]
        seqP_def bindP_def [of skip_ends] retP_def split: presult.splits if_splits sum.splits dest!: it)
qed

lemma parse_arm_pattern_builds [builds]: "yields pattern_ok parse_arm_pattern"
proof -
  have "yields pattern_ok
      (readP (\<lambda>p.
         if p_at p Tk_Pipe then
           bindP (pipe_list or_pattern_name [i]) (\<lambda>vs. bindP (span_from (id_span i)) (\<lambda>sp. retP (MP_Or vs sp)))
         else bindP payload_bindings (\<lambda>bs. retP (MP_Variant i bs))))" for i
  proof (rule yields_read_at)
    fix p a q
    let ?or = "bindP (pipe_list or_pattern_name [i]) (\<lambda>vs. bindP (span_from (id_span i)) (\<lambda>sp. retP (MP_Or vs sp)))"
    let ?variant = "bindP payload_bindings (\<lambda>bs. retP (MP_Variant i bs))"
    assume run: "(if p_at p Tk_Pipe then ?or else ?variant) p = POk a q"
    have v: "yields pattern_ok ?variant" by (rule yields_rules | simp)+
    show "pattern_ok a"
    proof (cases "p_at p Tk_Pipe")
      case True
      then show ?thesis
        using run pipe_list_grows [OF True, of or_pattern_name "[i]"]
        by (fastforce simp: bindP_def retP_def split: presult.splits)
    next
      case False
      then show ?thesis using run yieldsD [OF v] by simp
    qed
  qed
  then have "yields pattern_ok name_pattern"
    unfolding name_pattern_def by (intro yields_bind yields_if yields_ret) simp_all
  moreover have "yields pattern_ok value_patterns"
    unfolding value_patterns_def
    by (rule pipe_list_builds yields_any yields_bind_fact yields_rules | simp)+
  ultimately show ?thesis
    unfolding parse_arm_pattern_def by (intro yields_rules)
qed

lemma parse_align_attr_builds [builds]: "yields align_ok parse_align_attr"
  unfolding parse_align_attr_def check_alignment_def
  by (rule yields_any yields_bind_fact yields_rules | (simp add: align_ok_def nat_le_iff; fail))+

subsection \<open>Expressions and statements\<close>

lemma literal_kind_ok: "literal_kind k = Some l \<Longrightarrow> expr_ok (Expr l sp)"
  by (cases k) (auto simp: literal_kind_def)

lemma name_expr_ok [simp]: "expr_ok (name_expr i)"
  by (simp add: name_expr_def)

lemma more_segments_builds [builds]: "segs \<noteq> [] \<Longrightarrow> yields (\<lambda>s. s \<noteq> []) (more_segments n segs)"
  by (induction n arbitrary: segs) (auto intro!: yields_ret yields_seq yields_bind)

lemma split_text_nonempty: "RP_Text s \<in> set (split_template content) \<Longrightarrow> s \<noteq> []"
proof -
  have "placed at ps \<Longrightarrow> RP_Text s \<in> set ps \<Longrightarrow> s \<noteq> []" for at ps
    by (induction at ps rule: placed.induct) auto
  then show "RP_Text s \<in> set (split_template content) \<Longrightarrow> s \<noteq> []" using split_template_placed by blast
qed

locale ast_calls =
  fixes R :: calls
  assumes expr_builds [builds]: "yields expr_ok (c_expr R m)"
    and prefix_builds [builds]: "yields expr_ok (c_prefix R)"
    and if_builds [builds]: "yields (\<lambda>e. expr_ok e \<and> is_else_branch e) (c_if R)"
    and type_builds [builds]: "yields ty_ok (c_type R)"
begin

lemma parse_delimited_expr_builds [builds]: "yields expr_ok (parse_delimited_expr R m)"
  unfolding parse_delimited_expr_def by (rule yields_with_nsl builds)+

lemma optional_type_builds [builds]: "yields (pred_option ty_ok) (optional_type R)"
  unfolding optional_type_def by (rule builds yields_any yields_bind_fact yields_rules | simp)+

lemma exit_value_builds [builds]: "yields (pred_option expr_ok) (exit_value R)"
  unfolding exit_value_def by (rule builds yields_any yields_bind_fact yields_rules | simp)+

lemma let_stmt_builds [builds]: "yields (\<lambda>s. binding_ok s \<and> all_stmt expr_ok s) (let_stmt R t a)"
proof -
  have l: "align_ok al \<Longrightarrow> yields (\<lambda>s. binding_ok s \<and> all_stmt expr_ok s) (parse_let R al)" for al
    unfolding parse_let_def by (rule builds yields_any yields_bind_fact yields_rules | simp)+
  show ?thesis
    unfolding let_stmt_def parse_let_tuple_def
    by (rule l builds yields_any yields_bind_fact yields_rules | (simp add: align_ok_def; fail))+
qed

lemma exit_stmt_builds [builds]:
  "yields (\<lambda>s. binding_ok s \<and> all_stmt expr_ok s) (parse_return R)"
  "yields (\<lambda>s. binding_ok s \<and> all_stmt expr_ok s) (parse_break R)"
  unfolding parse_return_def parse_break_def by (rule builds yields_any yields_bind_fact yields_rules | simp)+

abbreviation stmts_ok :: "stmt list \<Rightarrow> bool" where
  "stmts_ok ss \<equiv> list_all binding_ok ss \<and> list_all (all_stmt expr_ok) ss"

lemma block_turn_builds:
  "stmts_ok ss \<Longrightarrow> yields (\<lambda>r. case r of Inl s' \<Rightarrow> stmts_ok s' | Inr v \<Rightarrow> stmts_ok (fst v) \<and> pred_option expr_ok (snd v))
     (block_turn R ss)"
  unfolding block_turn_def expr_stmt_def
  by (rule builds yields_any yields_bind_fact yields_rules | (simp; fail))+

lemma parse_block_builds [builds]: "yields block_ok (parse_block R)"
  unfolding parse_block_def
  by (rule yields_loop [where J = stmts_ok and Q = "\<lambda>v. stmts_ok (fst v) \<and> pred_option expr_ok (snd v)"]
      block_turn_builds builds yields_any yields_bind_fact yields_rules | (simp; fail))+

lemma parse_hole_expr_builds [builds]: "yields expr_ok (parse_hole_expr R src sp off)"
proof -
  have "yields (pred_option expr_ok) (bindP (attemptP (c_expr R 0)) (\<lambda>e. seqP (hole_rest (e \<noteq> None)) (retP e)))"
    by (rule yields_attempt builds yields_any yields_bind_fact yields_rules | simp)+
  then show ?thesis
    unfolding yields_def [of expr_ok] parse_hole_expr_def Let_def
    by (fastforce split: option.splits presult.splits dest: yieldsD)
qed

lemma template_expr_builds [builds]: "yields expr_ok (template_expr R sp)"
proof -
  let ?ok = "\<lambda>p. case p of TP_Text s \<Rightarrow> s \<noteq> [] | TP_Hole e \<Rightarrow> expr_ok e"
  have part: "(\<And>s. rp = RP_Text s \<Longrightarrow> s \<noteq> []) \<Longrightarrow> yields ?ok (parse_part R str_span rp)" for rp str_span
    unfolding parse_part_def
    by (cases rp) (auto intro!: yields_ret yields_bind_fact [OF parse_hole_expr_builds])
  have "list_all ?ok ps \<Longrightarrow> expr_ok (Expr (E_Template ps) sp)" for ps sp
    by (auto simp: list_all_iff split: template_part.splits)
  moreover have l: "yields (list_all ?ok) (mapP (parse_part R str_span) (split_template content))" for str_span content
    by (rule yields_map) (auto intro!: part dest: split_text_nonempty)
  ultimately show ?thesis
    unfolding template_expr_def by - (rule l yields_any yields_bind_fact yields_rules | assumption)+
qed

lemma parse_struct_lit_builds [builds]: "yields expr_ok (parse_struct_lit R n)"
proof -
  let ?J = "list_all (\<lambda>f. case f of Field_Init _ e _ \<Rightarrow> expr_ok e)"
  have "?J fs \<Longrightarrow> yields (\<lambda>r. case r of Inl s' \<Rightarrow> ?J s' | Inr v \<Rightarrow> ?J v) (field_init_turn R fs)" for fs
    unfolding field_init_turn_def by (rule builds yields_any yields_bind_fact yields_rules | (simp; fail))+
  then have l: "yields ?J (loopP (field_init_turn R) [])" by (rule yields_loop) simp_all
  show ?thesis
    unfolding parse_struct_lit_def by (rule l builds yields_any yields_bind_fact yields_rules | (simp; fail))+
qed

lemma lambda_params_builds [builds]: "yields (list_all (\<lambda>p. pred_option ty_ok (lp_ty p))) (lambda_params R)"
  unfolding lambda_params_def
  by (rule yields_loop [where J = "list_all (\<lambda>p. pred_option ty_ok (lp_ty p))"] builds yields_any yields_bind_fact
      yields_rules | (simp; fail))+

lemma array_expr_builds [builds]: "yields expr_ok (array_expr R sp)"
proof -
  have l: "yields (list_all expr_ok) (loopP (\<lambda>xs. seqP skip_ends (readP (\<lambda>p.
      if p_at p Tk_RBracket \<or> p_at p Tk_Eof then retP (Inr xs)
      else bindP (parse_delimited_expr R 0) (\<lambda>x. seqP skip_ends
        (bindP (eat Tk_Comma) (\<lambda>b. retP (if b then Inl (xs @ [x]) else Inr (xs @ [x])))))))) [])"
    by (rule yields_loop [where J = "list_all expr_ok"])
      (rule builds yields_any yields_bind_fact yields_rules | (simp; fail))+
  show ?thesis
    unfolding array_expr_def by (rule l builds yields_any yields_bind_fact yields_rules | (simp; fail))+
qed

lemma paren_expr_builds [builds]: "yields expr_ok (paren_expr R sp)"
  unfolding paren_expr_def
  by (rule builds yields_any yields_bind_fact yields_rules | (simp; fail) | (erule one_or_tuple, simp))+

lemma parse_match_builds [builds]: "yields expr_ok (parse_match R)"
proof -
  let ?J = "list_all (\<lambda>a. case a of Match_Arm p e _ \<Rightarrow> pattern_ok p \<and> expr_ok e)"
  have "?J as \<Longrightarrow> yields (\<lambda>r. case r of Inl s' \<Rightarrow> ?J s' | Inr v \<Rightarrow> ?J v) (parse_match_arm R as)" for as
    unfolding parse_match_arm_def by (rule builds yields_any yields_bind_fact yields_rules | (simp; fail))+
  then have l: "yields ?J (loopP (parse_match_arm R) [])" by (rule yields_loop) simp_all
  have "?J as \<Longrightarrow> expr_ok s \<Longrightarrow> expr_ok (Expr (E_Match s as) sp)" for s as sp
    by (auto simp: list_all_iff split: match_arm.splits)
  then show ?thesis
    unfolding parse_match_def
    by - (rule l yields_with_nsl builds yields_any yields_bind_fact yields_rules | (simp; fail))+
qed

lemma block_expr_builds [builds]: "yields (\<lambda>e. expr_ok e \<and> is_else_branch e) (block_expr R)"
  unfolding block_expr_def by (rule builds yields_any yields_bind_fact yields_rules | simp)+

lemma parse_if_builds: "yields (\<lambda>e. expr_ok e \<and> is_else_branch e) (parse_if R)"
proof -
  have l: "yields (\<lambda>e. expr_ok e \<and> is_else_branch e) (if b then c_if R else block_expr R)" for b
    by (simp add: builds)
  have e: "yields (pred_option (\<lambda>e. expr_ok e \<and> is_else_branch e)) (else_branch R)"
    unfolding else_branch_def by (rule l yields_any yields_bind_fact yields_rules | simp)+
  have "pred_option (\<lambda>e. expr_ok e \<and> is_else_branch e) els \<Longrightarrow> pred_option expr_ok els \<and> pred_option is_else_branch els"
    for els by (cases els) simp_all
  then show ?thesis
    unfolding parse_if_def
    by - (rule e yields_with_nsl builds yields_any yields_bind_fact yields_rules | (simp; fail))+
qed

lemma parse_primary_builds [builds]: "yields expr_ok (parse_primary R)"
proof -
  have weak: "yields expr_ok (parse_if R)" "yields expr_ok (block_expr R)"
    using parse_if_builds block_expr_builds by (auto elim: yields_weaken)
  have ident: "yields expr_ok (ident_expr R)"
    unfolding ident_expr_def by (rule builds yields_any yields_bind_fact yields_rules | (simp; fail))+
  show ?thesis
    unfolding parse_primary_def Let_def lambda_expr_def keyword_block_def arena_expr_def float_expr_def
    by (rule weak ident builds yields_any yields_bind_fact yields_rules
        | erule literal_kind_ok | (simp split: option.split; fail))+
qed

lemma parse_postfix_builds [builds]: "yields expr_ok (parse_postfix R)"
proof -
  have sl: "yields (pred_option expr_ok) (slice_end R)"
    unfolding slice_end_def by (rule builds yields_any yields_bind_fact yields_rules | simp)+
  have sr: "expr_ok e \<Longrightarrow> pred_option expr_ok st \<Longrightarrow> yields expr_ok (slice_rest R e st)" for e st
    unfolding slice_rest_def by (rule sl builds yields_any yields_bind_fact yields_rules | simp)+
  have "u32_or_max v < 2 ^ 32" for v by (simp add: u32_or_max_def nat_less_iff)
  then have tu: "expr_ok e \<Longrightarrow> yields expr_ok (tuple_suffix e)" for e
    unfolding tuple_suffix_def by - (rule yields_any yields_bind_fact yields_rules | simp | simp add: yields_def)+
  have ca: "expr_ok e \<Longrightarrow> yields expr_ok (call_suffix R e)" "expr_ok e \<Longrightarrow> yields expr_ok (field_suffix e)"
    "expr_ok e \<Longrightarrow> yields expr_ok (bracket_suffix R e)" for e
    unfolding call_suffix_def field_suffix_def bracket_suffix_def
    by (rule sr builds yields_any yields_bind_fact yields_rules | (simp; fail))+
  have "expr_ok e \<Longrightarrow> yields (\<lambda>r. case r of Inl s' \<Rightarrow> expr_ok s' | Inr v \<Rightarrow> expr_ok v) (postfix_turn R e)" for e
    unfolding postfix_turn_def Let_def
    by (rule yields_bind_fact [where ?Q1.0 = expr_ok] ca tu yields_rules | (simp; fail))+
  then show ?thesis
    unfolding parse_postfix_def by - (rule yields_loop [where J = expr_ok] builds yields_bind_fact | assumption | simp)+
qed

lemma parse_prefix_builds [builds]: "yields expr_ok (parse_prefix R)"
  unfolding parse_prefix_def parse_prefix_inner_def
  by (rule yields_guard_depth builds yields_any yields_bind_fact yields_rules | (simp; fail))+

lemma parse_expr_builds [builds]: "yields expr_ok (parse_expr R m)"
proof -
  have cast_ok: "expr_ok e \<Longrightarrow> is_plain_name t \<Longrightarrow> expr_ok (Expr (E_Cast e t) sp)" for e t sp by simp
  have ca: "yields expr_ok (parse_cast R)"
    unfolding parse_cast_def
    by (rule builds yields_bind_fact yields_loop [where J = expr_ok] | (rule yields_any) | rule yields_rules | (simp; fail))+
  have "expr_ok e \<Longrightarrow> yields (\<lambda>r. case r of Inl s' \<Rightarrow> expr_ok s' | Inr v \<Rightarrow> expr_ok v) (binary_turn R m e)" for e
    unfolding binary_turn_def
    by (rule builds yields_any yields_bind_fact yields_rules | (simp; fail))+
  then have bi: "expr_ok e \<Longrightarrow> yields expr_ok (loopP (binary_turn R m) e)" for e by (rule yields_loop)
  have fb: "yields expr_ok (if b then block_expr R else c_expr R 0)" for b
    using block_expr_builds expr_builds by (auto elim: yields_weaken)
  show ?thesis
    unfolding parse_expr_def parse_expr_inner_def else_unwrap_def
    by (rule ca bi fb yields_guard_depth builds yields_any yields_bind_fact yields_rules | (simp; fail))+
qed

subsection \<open>Items\<close>

lemma parse_test_builds [builds]: "yields (\<lambda>t. block_ok (td_body t)) (parse_test R v)"
  unfolding parse_test_def Let_def by (rule builds yields_any yields_bind_fact yields_rules | (simp; fail))+

lemma regroup_ok: "expr_ok e \<Longrightarrow> expr_ok (Expr (kind_of e) sp)"
  by (cases e) (simp add: kind_of_def)

lemma parse_const_builds [builds]: "yields item_ok (parse_const R v)"
  unfolding parse_const_def
  by (rule builds yields_any yields_bind_fact yields_rules | (simp del: expr_ok_in.simps add: regroup_ok; fail))+

lemma return_type_builds [builds]: "yields (pred_option ty_ok) (return_type R)"
  unfolding return_type_def by (rule builds yields_any yields_bind_fact yields_rules | simp)+

lemma parse_type_decl_builds [builds]: "align_ok a \<Longrightarrow> yields item_ok (parse_type_decl R v a c)"
proof -
  have f: "yields (\<lambda>f. ty_ok (fl_ty f)) (parse_field_def R)"
    unfolding parse_field_def_def by (rule builds yields_any yields_bind_fact yields_rules | simp)+
  have p: "yields (list_all ty_ok) (if b then bindP (line_comma_list Tk_RParen (c_type R)) (\<lambda>ts.
      seqP (expect Tk_RParen (quoted '')'')) (retP ts)) else retP [])" for b
    by (rule builds yields_any yields_bind_fact yields_rules | simp)+
  have v: "yields (\<lambda>v. list_all ty_ok (vd_payload v)) (parse_variant_def R)"
    unfolding parse_variant_def_def by (rule p builds yields_any yields_bind_fact yields_rules | simp)+
  show "align_ok a \<Longrightarrow> ?thesis"
    unfolding parse_type_decl_def Let_def
    by (rule yields_brace_list [OF f] yields_brace_list [OF v] builds yields_any yields_bind_fact yields_rules | (simp; fail))+
qed

lemma parse_param_builds [builds]: "yields param_ok (parse_param R m)"
  unfolding parse_param_def by (rule builds yields_any yields_bind_fact yields_rules | simp)+

lemma parse_fn_builds [builds]: "yields fn_ok (parse_fn R v)"
proof -
  have b: "yields body_ok (parse_fn_body R)"
    unfolding parse_fn_body_def by (rule builds yields_any yields_bind_fact yields_rules | simp)+
  show ?thesis
    unfolding parse_fn_def by (rule b builds yields_any yields_bind_fact yields_rules | (simp add: fn_ok_in_def; fail))+
qed

lemma parse_extern_builds [builds]: "yields (\<lambda>b. list_all sig_ok (eb_fns b)) (parse_extern R)"
proof -
  have s: "yields sig_ok (parse_extern_sig R)"
    unfolding parse_extern_sig_def
    by (rule builds yields_any yields_bind_fact yields_rules | (simp add: sig_ok_def; fail))+
  have l: "yields (list_all sig_ok) (loopP (\<lambda>xs. seqP skip_ends (readP (\<lambda>p.
      if p_at p Tk_RBrace \<or> p_at p Tk_Eof then retP (Inr xs)
      else bindP (parse_extern_sig R) (\<lambda>x. retP (Inl (xs @ [x])))))) [])"
    by (rule yields_loop [where J = "list_all sig_ok"])
      (rule s yields_any yields_bind_fact yields_rules | (simp; fail))+
  have es: "yields (list_all sig_ok) (extern_sigs R)"
    unfolding extern_sigs_def by (rule l s yields_any yields_bind_fact yields_rules | (simp; fail))+
  show ?thesis
    unfolding parse_extern_def by (rule es yields_any yields_bind_fact yields_rules | (simp; fail))+
qed

lemma align_ok_either: "align_ok a \<Longrightarrow> align_ok b \<Longrightarrow> align_ok (case a of Some v \<Rightarrow> Some v | None \<Rightarrow> b)"
  by (cases a) simp_all

lemma parse_type_attrs_builds [builds]: "yields (\<lambda>(a, c). align_ok a) parse_type_attrs"
  unfolding parse_type_attrs_def
  by (rule yields_loop [where J = "\<lambda>(a, c). align_ok a"] builds yields_any yields_bind_fact yields_rules
      | (simp add: align_ok_either; fail) | (simp add: align_ok_def; fail) | clarsimp)+

lemma parse_item_builds [builds]: "yields item_ok (parse_item R)"
  unfolding parse_item_def item_after_vis_def Let_def
  by (rule builds yields_any yields_bind_fact yields_rules | (simp add: align_ok_def; fail) | clarsimp)+

lemma parse_file_items_builds: "yields file_ok (parse_file_items R)"
proof -
  have "list_all item_ok xs \<Longrightarrow> yields (\<lambda>r. case r of Inl s' \<Rightarrow> list_all item_ok s' | Inr v \<Rightarrow> list_all item_ok v)
      (items_turn R xs)" for xs
    unfolding items_turn_def
    by (rule yields_attempt builds yields_any yields_bind_fact yields_rules | (simp; fail))+
  then have l: "yields (list_all item_ok) (loopP (items_turn R) [])" by (rule yields_loop) simp_all
  show ?thesis
    unfolding parse_file_items_def
    by (rule l yields_any yields_bind_fact yields_rules | (simp add: file_ok_def file_ok_in_def; fail))+
qed

lemma tie_builds: "ast_calls (tie R)"
  by unfold_locales (simp_all add: tie_def builds parse_if_builds parse_type_builds)

end

lemma knot_builds: "ast_calls (knot n)"
proof (induction n)
  case 0
  show ?case by unfold_locales (simp_all add: yields_def)
next
  case (Suc n)
  then show ?case by (simp add: ast_calls.tie_builds)
qed

interpretation built: ast_calls "knot n" for n
  by (rule knot_builds)

subsection \<open>What the depth cap keeps\<close>

lemma walk_list_length [simp]: "length (fst (walk_list f xs ds)) = length xs"
  by (induction xs arbitrary: ds) (simp_all add: walk0_def walk2_def case_prod_beta)

lemma gives_both: "gives m P \<Longrightarrow> gives m Q \<Longrightarrow> gives m (\<lambda>x. P x \<and> Q x)"
  by (simp add: gives_def)

lemma cap_node_ok:
  assumes "node_ok_in False k" and ce: "\<And>e. is_else_branch e \<Longrightarrow> gives (ce e) (else_ok True)"
  shows "gives (cap_kind ce cb k) (node_ok_in True)"
proof (cases k)
  case (E_If c t els)
  then have "gives (walk_opt ce els) (pred_option (else_ok True))"
    using assms(1) by (intro gives_opt [OF _ ce]) simp_all
  then show ?thesis by (simp add: E_If gives_def walk3_def walk2_def case_prod_beta)
next
  case (E_Match s arms)
  let ?P = "\<lambda>a. case a of Match_Arm p e sp \<Rightarrow> pattern_ok p"
  have a: "?P a \<Longrightarrow> gives (cap_arm ce a) ?P" for a by (cases a) (simp add: gives_unfold)
  have "list_all ?P arms" using assms(1) E_Match by simp
  then have "gives (walk_list (cap_arm ce) arms) (list_all ?P)" by (rule gives_list [OF _ a])
  then show ?thesis by (simp add: E_Match gives_unfold)
next
  case (E_Template ps)
  let ?P = "\<lambda>p. case p of TP_Text s \<Rightarrow> s \<noteq> [] | TP_Hole e \<Rightarrow> True"
  have a: "?P a \<Longrightarrow> gives (cap_part ce a) ?P" for a by (cases a) (simp_all add: gives_unfold)
  have "list_all ?P ps" using assms(1) E_Template by simp
  then have "gives (walk_list (cap_part ce) ps) (list_all ?P)" by (rule gives_list [OF _ a])
  then show ?thesis by (simp add: E_Template gives_unfold)
qed (use assms(1) in \<open>simp_all add: gives_unfold walk3_def\<close>)

lemma cap_stmts_ok: "list_all binding_ok ss \<Longrightarrow> gives (walk_list (cap_stmt ce) ss) (list_all binding_ok)"
proof (rule gives_list)
  show "binding_ok s \<Longrightarrow> gives (cap_stmt ce s) binding_ok" for s by (cases s) (simp_all add: gives_unfold)
qed

lemma cap_block_ok:
  assumes "block_ok b" and ce: "\<And>e. expr_ok e \<Longrightarrow> gives (ce e) (expr_ok_in True)"
  shows "gives (cap_block ce b) (block_ok_in True)"
proof (cases b)
  case (Block ss t sp)
  have "gives (cap_block ce b) (all_block (expr_ok_in True))"
    using assms(1) Block by (intro gives_block [OF _ ce]) simp_all
  moreover have "gives (walk_list (cap_stmt ce) ss) (list_all binding_ok)" using assms(1) Block cap_stmts_ok by simp
  ultimately show ?thesis by (simp add: Block gives_unfold)
qed

lemma cap_keeps_ok:
  "depth + n = MAX_EXPR_DEPTH + 1 \<Longrightarrow>
   (expr_ok e \<longrightarrow> gives (cap_expr_depth depth e) (expr_ok_in True)) \<and>
   (block_ok b \<longrightarrow> gives (cap_block_depth depth b) (block_ok_in True))"
proof (induction n arbitrary: depth e b)
  case 0
  then have "MAX_EXPR_DEPTH < depth" by simp
  then show ?case
    by (cases e; cases "kind_of e") (simp_all add: cap_expr_unfold [of depth] cap_block_unfold [of depth] gives_def walk0_def is_leaf_expr_def)
next
  case (Suc n)
  let ?ce = "cap_expr_depth (depth + 1)" and ?cb = "cap_block_depth (depth + 1)"
  have d: "depth + 1 + n = MAX_EXPR_DEPTH + 1" "\<not> MAX_EXPR_DEPTH < depth" using Suc.prems by simp_all
  note ih = Suc.IH [OF d(1)]
  have br: "gives (?ce e) (else_ok True)" if "is_else_branch e" for e
    using that by (cases e rule: is_else_branch.cases)
      (simp_all add: cap_expr_unfold [of "depth + 1"] gives_unfold walk3_def is_leaf_expr_def)
  have "gives (cap_expr_depth depth e) (expr_ok_in True)" if "expr_ok e"
  proof (cases e)
    case (Expr k sp)
    with that have k: "node_ok_in False k" "all_kind expr_ok block_ok k" by simp_all
    have "gives (cap_kind ?ce ?cb k) (\<lambda>k. node_ok_in True k \<and> all_kind (expr_ok_in True) (block_ok_in True) k)"
      using ih by (intro gives_both cap_node_ok [OF k(1) br] gives_kind [OF k(2)]) blast+
    with d(2) show ?thesis by (simp add: Expr cap_expr_unfold [of depth] gives_def walk1_def case_prod_beta)
  qed
  moreover have "gives (cap_block_depth depth b) (block_ok_in True)" if "block_ok b"
    using cap_block_ok [OF that, of ?ce] ih d(2) by (simp add: cap_block_unfold [of depth])
  ultimately show ?case by blast
qed

lemma cap_item_ok: "item_ok x \<Longrightarrow> gives (cap_item x) (item_ok_in True)"
  using cap_keeps_ok [of 1 MAX_EXPR_DEPTH]
  by (cases x) (auto simp: gives_unfold fn_ok_in_def split: fn_body.split)

lemma cap_file_ok:
  assumes "file_ok tree" shows "capped_file_ok (fst (cap_expr_depths tree ds))"
proof -
  have "gives (walk_list cap_item (af_items tree)) (list_all (item_ok_in True))"
    using assms by (intro gives_list [OF _ cap_item_ok]) (simp_all add: file_ok_def file_ok_in_def)
  then show ?thesis by (simp add: cap_expr_depths_def capped_file_ok_def file_ok_in_def gives_unfold)
qed

end
