(* ===== verification/Parser.thy ===== *)
theory Parser
  imports Precedence Parser_Fuel Parser_Trees
begin

section \<open>align\_parser: the entry point\<close>

text \<open>
  \<open>parse_file\<close>: the parser runs over the tokens, then the depth cap over the finished tree.
  \<open>parse_file_on n\<close> runs it on a call stack that holds \<open>n\<close> nested calls of the parser's recursive
  methods (\<open>knot n\<close>): it returns, panics, or overflows that stack. \<open>parse_file\<close> is the result on a
  stack as deep as the weight of the tokens; by \<open>Parser_Fuel\<close> every deeper stack gives the same. How
  many nested calls the native stack of a process holds is not part of the model.
\<close>

declare One_nat_def [simp del]

datatype parse_run = Returned ast_file diagnostics | Panicked | Overflowed

definition parse_file_on :: "nat \<Rightarrow> token list \<Rightarrow> diagnostics \<Rightarrow> parse_run" where
  "parse_file_on stack ts ds =
     (case parse_file_items (knot stack) (parser_new ts ds) of
        POk file q \<Rightarrow> (case cap_expr_depths file (ps_diags q) of (file', ds') \<Rightarrow> Returned file' ds')
      | PFuel \<Rightarrow> Overflowed
      | _ \<Rightarrow> Panicked)"

definition parse_file :: "token list \<Rightarrow> diagnostics \<Rightarrow> (ast_file \<times> diagnostics) option" where
  "parse_file ts ds =
     (case parse_file_on (weight (parser_new ts ds)) ts ds of Returned file ds' \<Rightarrow> Some (file, ds') | _ \<Rightarrow> None)"

lemma parser_new_wf: "stream_ok ts \<Longrightarrow> ps_wf (parser_new ts ds)"
  by (simp add: ps_wf_def parser_new_def stream_ok_def)

lemma cap_walk:
  "\<exists>es. snd (cap_expr_depths file ds) = ds @ es \<and> (\<forall>e\<in>set es. severity_of e = Error) \<and>
     (es = [] \<longleftrightarrow> within_ceiling file)"
  "within_ceiling file \<Longrightarrow> fst (cap_expr_depths file ds) = file"
  "cut_to_ceiling (fst (cap_expr_depths file ds))"
  using audit_file [of "file"] gives_file [of "file"] by (auto simp: audit_def gives_def)

lemma parse_file_run:
  assumes "stream_ok ts"
  obtains tree q where "parse_file_items (knot (weight (parser_new ts ds))) (parser_new ts ds) = POk tree q"
    "pstep (parser_new ts ds) q" "p_peek q = Tk_Eof" "parse_file ts ds = Some (cap_expr_depths tree (ps_diags q))"
  using file_parser_outcome [OF parser_new_wf [OF assms] order_refl, of ds]
  by (auto simp: parse_file_def parse_file_on_def split: prod.split)

text \<open>A stack that does not overflow gives the result of every other such stack.\<close>

lemma parse_file_on_any:
  assumes "stream_ok ts" "parse_file ts ds = Some (file, ds')"
  shows "parse_file_on stack ts ds = Returned file ds' \<or>
    parse_file_on stack ts ds = Overflowed \<and> stack < weight (parser_new ts ds)"
proof -
  let ?p = "parser_new ts ds"
  have w: "parse_file_on (weight ?p) ts ds = Returned file ds'"
    using assms(2) by (simp add: parse_file_def split: parse_run.splits)
  show ?thesis
  proof (cases "weight ?p \<le> stack")
    case True
    then show ?thesis
      using w parse_file_items_fuel [OF parser_new_wf [OF assms(1)] True] by (simp add: parse_file_on_def)
  next
    case False
    then obtain k where k: "weight ?p = stack + k" using le_Suc_ex nat_le_linear by blast
    have "parse_file_items (knot stack) ?p = PFuel \<or> parse_file_items (knot (weight ?p)) ?p = parse_file_items (knot stack) ?p"
      unfolding k using agreesD [OF deeper.parse_file_items_agrees] by blast
    then show ?thesis using w False by (auto simp: parse_file_on_def)
  qed
qed

lemma tokenize_returns: "\<exists>ts ds'. tokenize f s ds = Some (ts, ds')"
proof -
  obtain lx ds' where "lex_run_loop (lx_init f s) ds = Some (lx, ds')" using lex_run_loop_total by blast
  then show ?thesis by (simp add: tokenize_def lex_run_def Let_def)
qed

lemma tokenize_extends: 
  assumes "tokenize f s ds = Some (ts, ds')" shows "\<exists>es. ds' = ds @ es"
proof -
  obtain lx where r: "lex_run_loop (lx_init f s) ds = Some (lx, ds')" using assms by (rule tokenize_loop)
  show ?thesis using lex_run_loop_frame [OF r] by (auto simp: errs_only_def)
qed

subsection \<open>Properties\<close>

text \<open>
  C1. The front end takes every source file without a panic: for valid UTF-8, however malformed the
  program, \<open>tokenize\<close> returns, and \<open>parse_file\<close> on a call stack of any depth returns one and the same
  tree and diagnostics or overflows that stack, and never panics; a stack that holds four
  nested calls per byte of source and two more does not overflow. Earlier diagnostics are kept in
  front of the new ones, and below the ceiling of 128 levels the tree has only leaves and empty
  blocks. (How deep the native stack is, is not modelled; no fixed depth is enough for every source.)
\<close>

theorem front_end_total:
  assumes "valid_utf8 s"
  shows "\<exists>ts es file es'. tokenize f s ds = Some (ts, ds @ es) \<and>
     (\<forall>stack. parse_file_on stack ts (ds @ es) = Returned file (ds @ es @ es') \<or>
        parse_file_on stack ts (ds @ es) = Overflowed \<and> stack < 4 * length s + 2) \<and>
     parse_file ts (ds @ es) = Some (file, ds @ es @ es') \<and> cut_to_ceiling file"
proof -
  obtain ts ds1 where t: "tokenize f s ds = Some (ts, ds1)" using tokenize_returns by blast
  obtain es where es: "ds1 = ds @ es" using tokenize_extends [OF t] by blast
  note ok = tokenize_weight [OF t assms]
  obtain tree q where r: "pstep (parser_new ts ds1) q"
    "parse_file ts ds1 = Some (cap_expr_depths tree (ps_diags q))"
    using parse_file_run [OF ok(2)] by blast
  obtain es1 where "ps_diags q = ds1 @ es1" using r(1) by (auto simp: pstep_def parser_new_def)
  moreover obtain es2 where "snd (cap_expr_depths tree (ps_diags q)) = ps_diags q @ es2"
    using cap_walk(1) by blast
  ultimately have p: "parse_file ts ds1 = Some (fst (cap_expr_depths tree (ps_diags q)), ds @ es @ es1 @ es2)"
    using r(2) es by (simp add: prod_eq_iff)
  have "weight (parser_new ts ds1) \<le> 4 * length s + 2"
    using ok(1) str_weight_length [of s] by (simp add: weight_def parser_new_def toks_weight_def)
  then show ?thesis using t es p parse_file_on_any [OF ok(2) p] cap_walk(3) by (meson less_le_trans)
qed

theorem front_end_total_witness:
  "\<exists>ts es file es'. tokenize 0 ''fn main( { }} template'' [] = Some (ts, es) \<and>
     parse_file_on 100 ts es = Returned file (es @ es') \<and> cut_to_ceiling file"
proof -
  have v: "valid_utf8 ''fn main( { }} template''" by code_simp
  have "\<not> 100 < 4 * length ''fn main( { }} template'' + 2" by simp
  with front_end_total [OF v, of 0 "[]"] show ?thesis by fastforce
qed

text \<open>
  C4. The file parser keeps its invariant and reads everything: from a well-formed state it
  returns with the tokens, the struct-literal flag and the depth counter as they were, diagnostics
  only added, and the cursor on \<open>Eof\<close>; and a call stack as deep as the weight of the tokens gives
  the result of every deeper one.
\<close>

theorem parser_invariant:
  assumes "ps_wf p" "weight p \<le> n"
  shows "\<exists>file q. parse_file_items (knot n) p = POk file q \<and> parse_file_items (knot (weight p)) p = POk file q \<and>
     ps_tokens q = ps_tokens p \<and> ps_no_struct_literal q = ps_no_struct_literal p \<and> ps_depth q = ps_depth p \<and>
     ps_wf q \<and> p_peek q = Tk_Eof \<and> (\<exists>es. ps_diags q = ps_diags p @ es)"
  using file_parser_outcome [OF assms] parse_file_items_fuel [OF assms] by (auto simp: pstep_def)

definition example_file :: "token list" where
  "example_file = map (\<lambda>(k, i). example_tok k i)
     [(Tk_Ident ''x'', 0), (Tk_ColonEq, 1), (Tk_LParen, 2), (Tk_Int 1, 3), (Tk_Comma, 4), (Tk_Int 2, 5),
      (Tk_RParen, 6), (Tk_End, 7), (Tk_Eof, 8)]"

lemma example_file_facts: "stream_ok example_file" "weight (parser_new example_file []) = 9"
  by (auto simp: example_file_def example_tok_def stream_ok_def weight_def parser_new_def tok_weight_def as_str_def)

theorem parser_invariant_witness:
  "\<exists>file q. parse_file_items (knot 1000) (parser_new example_file []) = POk file q \<and>
     parse_file_items (knot 9) (parser_new example_file []) = POk file q \<and> p_peek q = Tk_Eof"
  using parser_invariant [OF parser_new_wf [OF example_file_facts(1)], of "[]" 1000]
  by (auto simp: example_file_facts)

text \<open>
  C6. An expression is parsed or an error is reported: from a well-formed state \<open>parse_expr\<close> never
  panics; the cursor never moves back; \<open>None\<close> comes with a new error among the diagnostics; and
  either way the tokens, the depth counter and the struct-literal flag are as before, so that
  recovery goes on from a sound state.
\<close>

theorem parse_expr_reports:
  assumes "ps_wf p" "weight p \<le> n"
  shows "(\<exists>e q. c_expr (knot n) m p = POk e q \<and> pstep p q) \<or>
     (\<exists>q. c_expr (knot n) m p = PNone q \<and> pstep p q \<and> error_count (ps_diags p) < error_count (ps_diags q))"
proof -
  have "outcome maybe n p (c_expr (knot n) m p)" by (rule meets_outcome [OF tied.expr_call])
  then show ?thesis using assms by (auto simp: outcome_def reported_def split: presult.splits)
qed

theorem parse_expr_reports_witness:
  "\<exists>q. c_expr (knot 2) 0 (parser_new [example_tok Tk_RParen 0, example_tok Tk_Eof 1] []) = PNone q \<and>
     0 < error_count (ps_diags q)"
proof -
  let ?p = "parser_new [example_tok Tk_RParen 0, example_tok Tk_Eof 1] []"
  have wf: "ps_wf ?p" "weight ?p \<le> 2"
    by (auto simp: ps_wf_def stream_ok_def parser_new_def example_tok_def weight_def tok_weight_def as_str_def)
  have "c_expr (knot 2) 0 ?p \<noteq> POk e q" for e q
    by (simp add: numeral_2_eq_2 tie_def parse_expr_def parse_expr_inner_def guard_depth_def MAX_EXPR_DEPTH_def
        parse_cast_def parse_prefix_def parse_prefix_inner_def parse_postfix_def parse_primary_def bindP_def seqP_def
        readP_def parser_new_def example_tok_def p_peek_def prefix_op_def recovered_name_def reserved_word_def
        reserved_words_def literal_kind_def as_ident_def failP_def errorP_def noneP_def Let_def)
  then show ?thesis using parse_expr_reports [OF wf, of 0] by (auto simp: parser_new_def error_count_def)
qed

text \<open>
  C5. The trees are well formed: whatever the tokens and the stack, a file that \<open>parse_file\<close> returns
  with no error among the diagnostics satisfies the invariants the definitions of the nodes state: two
  members or more in a tuple and in an or-pattern, indices and lengths within 32 bits, alignments
  that are powers of two up to \<open>2 ^ 29\<close>, \<open>else\<close> branches that are blocks or \<open>if\<close>s, plain names as cast
  targets, no empty text in a template, and single names as path expressions. A file returned with
  errors satisfies them too, except that the unit expression the depth cap leaves may stand where
  an \<open>else\<close> branch was.
\<close>

theorem parsed_tree_ok:
  assumes "parse_file_on stack ts ds = Returned file ds'"
  shows "capped_file_ok file \<and> (\<not> has_errors ds' \<longrightarrow> file_ok file)"
proof -
  obtain tree q where t: "parse_file_items (knot stack) (parser_new ts ds) = POk tree q"
    and c: "cap_expr_depths tree (ps_diags q) = (file, ds')"
    using assms by (auto simp: parse_file_on_def split: presult.splits prod.splits)
  have ok: "file_ok tree" using yieldsD [OF built.parse_file_items_builds t] .
  have "file = tree" if "\<not> has_errors ds'"
  proof -
    obtain es where es: "ds' = ps_diags q @ es" "\<forall>e\<in>set es. severity_of e = Error" "es = [] \<longleftrightarrow> within_ceiling tree"
      using cap_walk(1) [of "tree" "ps_diags q"] c by auto
    with that have "es = []" by (cases es) (auto simp: has_errors_def)
    with es(3) cap_walk(2) [of "tree" "ps_diags q"] c show ?thesis by simp
  qed
  with ok cap_file_ok [OF ok, of "ps_diags q"] c show ?thesis by auto
qed

text \<open>
  C25. The depth cap: a file within the ceiling (at most 128 levels, with only leaves below the last)
  is returned unchanged and nothing is reported; any other file gets at least one error, and only
  errors; and of the result the same holds as of a file within the ceiling, except that an
  empty block, what the cut leaves of a block, may stand below the last level.
\<close>

theorem depth_cap:
  "(if file_fits maybe 128 tree then cap_expr_depths tree ds = (tree, ds)
    else \<exists>e es. snd (cap_expr_depths tree ds) = ds @ e # es \<and> list_all (\<lambda>d. severity_of d = Error) (e # es)) \<and>
   file_fits is_empty_block 128 (fst (cap_expr_depths tree ds))"
proof -
  note w = cap_walk [of "tree" ds, unfolded within_ceiling_def cut_to_ceiling_def MAX_EXPR_DEPTH_def]
  obtain es where es: "snd (cap_expr_depths tree ds) = ds @ es" "\<forall>e\<in>set es. severity_of e = Error"
    "es = [] \<longleftrightarrow> file_fits maybe 128 tree" using w(1) by blast
  then show ?thesis using w(2,3) by (cases es) (auto simp: prod_eq_iff list_all_iff)
qed


lemma type_nesting:
  "rem_tokens p = replicate n t @ rest \<Longrightarrow> tk_kind t = Tk_LBracket \<Longrightarrow> c_type (knot n) p = PFuel"
proof (induction n arbitrary: p)
  case (Suc n)
  then have r: "rem_tokens p = t # replicate n t @ rest" by simp
  note q = rem_peek [OF r]
  have "bump p = POk t (p_advance p 1)" using bump_run [OF r] Suc.prems(2) by simp
  then show ?case
    using q Suc.IH [OF q(4) Suc.prems(2)] Suc.prems(2)
    by (simp add: tie_def parse_type_def parse_array_type_def readP_def p_at_def seqP_def bindP_def)
qed simp

text \<open>
  C38. The type parser has no depth guard: for every stack depth \<open>n\<close> there is a token stream, \<open>n\<close>
  opening brackets and the end of the file, on which \<open>parse_type\<close> needs more than \<open>n\<close> nested
  calls. The ceiling of 128 does not bound it, unlike \<open>parse_expr\<close> and \<open>parse_prefix\<close>.
\<close>

theorem type_nesting_unbounded:
  "\<exists>ts. stream_ok ts \<and> length ts = n + 1 \<and> c_type (knot n) (parser_new ts []) = PFuel"
proof (intro exI conjI)
  let ?ts = "replicate n (example_tok Tk_LBracket 0) @ [example_tok Tk_Eof 1]"
  show "stream_ok ?ts" by (auto simp: stream_ok_def example_tok_def as_str_def)
  show "length ?ts = n + 1" by simp
  show "c_type (knot n) (parser_new ?ts []) = PFuel"
    by (rule type_nesting [of _ n "example_tok Tk_LBracket 0"]) (simp_all add: rem_tokens_def parser_new_def example_tok_def)
qed

end
