(* ===== verification/Formatter.thy ===== *)
theory Formatter
  imports Parser
begin

section \<open>align\_fmt: the formatter\<close>

text \<open>
  \<open>format_source\<close> reprints the significant tokens of a file that parses without errors: each token's
  text is taken from the source, the whitespace between two tokens is decided anew, comments, line
  breaks and separating semicolons are recovered from the gaps between the tokens. The result is
  lexed and parsed again; when its significant texts differ or it has errors, the formatter
  declines. A slice of the source that is not on character boundaries is a panic (\<open>None\<close> of the
  outer option); the inner \<open>None\<close> is the formatter declining.
\<close>

declare One_nat_def [simp del]

subsection \<open>Annotations\<close>

record annotations =
  an_type_ranges :: "(nat \<times> nat) list"
  an_unary_ops :: "nat set"
  an_semicolons :: "nat set"
  an_float_text :: "nat \<rightharpoonup> bytes"

definition no_annotations :: annotations where
  "no_annotations = \<lparr>an_type_ranges = [], an_unary_ops = {}, an_semicolons = {}, an_float_text = Map.empty\<rparr>"

definition in_type_range :: "annotations \<Rightarrow> nat \<Rightarrow> bool" where
  "in_type_range a off = list_ex (\<lambda>(lo, hi). lo \<le> off \<and> off < hi) (an_type_ranges a)"

definition add_range :: "nat \<Rightarrow> nat \<Rightarrow> annotations \<Rightarrow> annotations" where
  "add_range lo hi a = a\<lparr>an_type_ranges := an_type_ranges a @ [(lo, hi)]\<rparr>"

definition is_ascii_whitespace :: "byte \<Rightarrow> bool" where
  "is_ascii_whitespace c \<longleftrightarrow> c = CHR '' '' \<or> c = CHR 0x09 \<or> c = CHR 0x0A \<or> c = CHR 0x0C \<or> c = CHR 0x0D"

text \<open>Left over whitespace, to just behind the byte that is none.\<close>

primrec widen_left :: "bytes \<Rightarrow> nat \<Rightarrow> nat" where
  "widen_left b 0 = 0"
| "widen_left b (Suc l) = (if is_ascii_whitespace (b ! l) then widen_left b l else Suc l)"

definition visit_generics :: "type_param list \<Rightarrow> bytes \<Rightarrow> annotations \<Rightarrow> annotations" where
  "visit_generics params src a =
     (if params = [] then a
      else
        (let lo = span_lo (id_span (tp_name (hd params)));
             hi = (case tp_bound (last params) of
                     Some b \<Rightarrow> span_hi (id_span b)
                   | None \<Rightarrow> span_hi (id_span (tp_name (last params))));
             l = widen_left src (min lo (length src));
             l' = (if 0 < l \<and> src ! (l - 1) = CHR ''<'' then l - 1 else l);
             r = eat_while is_ascii_whitespace src (min hi (length src));
             r' = (if r < length src \<and> src ! r = CHR ''>'' then r + 1 else r)
         in add_range (u32_cast l') (u32_cast r') a))"

fun visit_type :: "ty \<Rightarrow> annotations \<Rightarrow> annotations"
  and visit_fn_param :: "fn_type_param \<Rightarrow> annotations \<Rightarrow> annotations" where
  "visit_type (Ty_Named p args sp) a =
     (if args \<noteq> [] then fold visit_type args (add_range (span_lo sp) (span_hi sp) a) else a)"
| "visit_type (Ty_FixedArray element len separator sp) a =
     visit_type element (a\<lparr>an_semicolons := insert (span_lo separator) (an_semicolons a)\<rparr>)"
| "visit_type (Ty_Tuple elems sp) a = fold visit_type elems a"
| "visit_type (Ty_Fn params ret sp) a = visit_type ret (fold visit_fn_param params a)"
| "visit_fn_param (Fn_Type_Param m t) a = visit_type t a"

definition visit_opt :: "('a \<Rightarrow> annotations \<Rightarrow> annotations) \<Rightarrow> 'a option \<Rightarrow> annotations \<Rightarrow> annotations" where
  "visit_opt f o' a = (case o' of Some x \<Rightarrow> f x a | None \<Rightarrow> a)"

lemma visit_opt_cong [fundef_cong]:
  "o' = o'' \<Longrightarrow> a = b \<Longrightarrow> (\<And>x c. o'' = Some x \<Longrightarrow> f x c = g x c) \<Longrightarrow> visit_opt f o' a = visit_opt g o'' b"
  by (simp add: visit_opt_def split: option.split)

text \<open>The canonical order of the two options of \<open>float\<close>.\<close>

definition note_float_options :: "ident list \<Rightarrow> annotations \<Rightarrow> annotations" where
  "note_float_options options a =
     (if length options = 2 \<and> list_ex (\<lambda>i. id_name i = ''reassoc'') options \<and>
         list_ex (\<lambda>i. id_name i = ''contract'') options
      then a\<lparr>an_float_text := (an_float_text a)(span_lo (id_span (options ! 0)) \<mapsto> ''reassoc'',
               span_lo (id_span (options ! 1)) \<mapsto> ''contract'')\<rparr>
      else a)"

definition note_unary :: "span \<Rightarrow> annotations \<Rightarrow> annotations" where
  "note_unary sp a = a\<lparr>an_unary_ops := insert (span_lo sp) (an_unary_ops a)\<rparr>"

definition visit_lambda_params :: "lambda_param list \<Rightarrow> annotations \<Rightarrow> annotations" where
  "visit_lambda_params params = fold (\<lambda>p. visit_opt visit_type (lp_ty p)) params"

fun visit_expr :: "expr \<Rightarrow> annotations \<Rightarrow> annotations"
  and visit_block :: "block \<Rightarrow> annotations \<Rightarrow> annotations"
  and visit_stmt :: "stmt \<Rightarrow> annotations \<Rightarrow> annotations"
  and visit_field :: "field_init \<Rightarrow> annotations \<Rightarrow> annotations"
  and visit_arm :: "match_arm \<Rightarrow> annotations \<Rightarrow> annotations"
  and visit_part :: "template_part \<Rightarrow> annotations \<Rightarrow> annotations" where
  "visit_expr (Expr (E_Unary op e) sp) a = visit_expr e (note_unary sp a)"
| "visit_expr (Expr (E_Cast e t) sp) a = visit_type t (visit_expr e a)"
| "visit_expr (Expr (E_Binary op l r) sp) a = visit_expr r (visit_expr l a)"
| "visit_expr (Expr (E_Call c args) sp) a = fold visit_expr args (visit_expr c a)"
| "visit_expr (Expr (E_FieldAccess e i) sp) a = visit_expr e a"
| "visit_expr (Expr (E_If c t els) sp) a = visit_opt visit_expr els (visit_block t (visit_expr c a))"
| "visit_expr (Expr (E_Block b) sp) a = visit_block b a"
| "visit_expr (Expr (E_Arena b) sp) a = visit_block b a"
| "visit_expr (Expr (E_NamedArena i b) sp) a = visit_block b a"
| "visit_expr (Expr (E_TaskGroup b) sp) a = visit_block b a"
| "visit_expr (Expr (E_Unsafe b) sp) a = visit_block b a"
| "visit_expr (Expr (E_Loop b) sp) a = visit_block b a"
| "visit_expr (Expr (E_FloatScope options b) sp) a = visit_block b (note_float_options options a)"
| "visit_expr (Expr (E_StructLit p inits) sp) a = fold visit_field inits a"
| "visit_expr (Expr (E_ElseUnwrap x y) sp) a = visit_expr y (visit_expr x a)"
| "visit_expr (Expr (E_Try e) sp) a = visit_expr e a"
| "visit_expr (Expr (E_ArrayLit es) sp) a = fold visit_expr es a"
| "visit_expr (Expr (E_Tuple es) sp) a = fold visit_expr es a"
| "visit_expr (Expr (E_Index x y) sp) a = visit_expr y (visit_expr x a)"
| "visit_expr (Expr (E_SliceRange x s e) sp) a =
     visit_opt visit_expr e (visit_opt visit_expr s (visit_expr x a))"
| "visit_expr (Expr (E_Lambda params b) sp) a = visit_block b (visit_lambda_params params a)"
| "visit_expr (Expr (E_Match s arms) sp) a = fold visit_arm arms (visit_expr s a)"
| "visit_expr (Expr (E_TupleIndex e n) sp) a = visit_expr e a"
| "visit_expr (Expr (E_Template parts) sp) a = fold visit_part parts a"
| "visit_expr (Expr _ sp) a = a"
| "visit_block (Block stmts tail sp) a = visit_opt visit_expr tail (fold visit_stmt stmts a)"
| "visit_stmt (S_Let m i t e al) a = visit_expr e (visit_opt visit_type t a)"
| "visit_stmt (S_LetTuple ns e sp) a = visit_expr e a"
| "visit_stmt (S_Assign p v) a = visit_expr v (visit_expr p a)"
| "visit_stmt (S_Return v) a = visit_opt visit_expr v a"
| "visit_stmt (S_Break v sp) a = visit_opt visit_expr v a"
| "visit_stmt (S_Expr e) a = visit_expr e a"
| "visit_field (Field_Init i e sp) a = visit_expr e a"
| "visit_arm (Match_Arm p e sp) a = visit_expr e a"
| "visit_part (TP_Hole e) a = visit_expr e a"
| "visit_part (TP_Text s) a = a"

declare visit_expr.simps [simp del] visit_block.simps [simp del] visit_stmt.simps [simp del]

definition visit_body :: "fn_body \<Rightarrow> annotations \<Rightarrow> annotations" where
  "visit_body body = (case body of FB_Block b \<Rightarrow> visit_block b | FB_Expr e \<Rightarrow> visit_expr e)"

definition visit_signature :: "param list \<Rightarrow> ty option \<Rightarrow> annotations \<Rightarrow> annotations" where
  "visit_signature params ret a =
     visit_opt visit_type ret (fold (\<lambda>p. visit_type (pm_ty p)) params a)"

fun visit_item :: "bytes \<Rightarrow> item \<Rightarrow> annotations \<Rightarrow> annotations" where
  "visit_item src (It_Fn d) a =
     visit_body (fd_body d) (visit_signature (fd_params d) (fd_ret d) (visit_generics (fd_type_params d) src a))"
| "visit_item src (It_Test d) a = visit_block (td_body d) a"
| "visit_item src (It_Struct d) a =
     fold (\<lambda>f. visit_type (fl_ty f)) (sd_fields d) (visit_generics (sd_type_params d) src a)"
| "visit_item src (It_Enum d) a =
     fold (\<lambda>v. fold visit_type (vd_payload v)) (ed_variants d) (visit_generics (ed_type_params d) src a)"
| "visit_item src (It_Resource d) a = visit_generics (rd_type_params d) src a"
| "visit_item src (It_Const d) a = visit_expr (cd_value d) (visit_opt visit_type (cd_ty d) a)"
| "visit_item src (It_Extern blk) a = fold (\<lambda>s. visit_signature (es_params s) (es_ret s)) (eb_fns blk) a"

definition collect :: "ast_file \<Rightarrow> bytes \<Rightarrow> annotations" where
  "collect tree src = fold (visit_item src) (af_items tree) no_annotations"

subsection \<open>Token texts\<close>

definition is_skipped :: "annotations \<Rightarrow> token \<Rightarrow> bool" where
  "is_skipped a t \<longleftrightarrow> tk_kind t = Tk_End \<or> tk_kind t = Tk_Eof \<or>
     tk_kind t = Tk_Semicolon \<and> span_lo (tk_span t) \<notin> an_semicolons a"

text \<open>\<open>&src[lo..hi]\<close> with both ends clamped; the empty string when they are out of order.\<close>

definition clamped :: "bytes \<Rightarrow> nat \<Rightarrow> nat \<Rightarrow> bytes option" where
  "clamped src lo hi =
     (let l = min lo (length src); h = min hi (length src)
      in if l \<le> h then str_get src l h else Some [])"

definition tok_text :: "bytes \<Rightarrow> token \<Rightarrow> bytes option" where
  "tok_text src t = clamped src (span_lo (tk_span t)) (span_hi (tk_span t))"

definition token_text :: "annotations \<Rightarrow> bytes \<Rightarrow> token \<Rightarrow> bytes option" where
  "token_text a src t =
     (case an_float_text a (span_lo (tk_span t)) of Some x \<Rightarrow> Some x | None \<Rightarrow> tok_text src t)"

primrec those_texts :: "annotations \<Rightarrow> bytes \<Rightarrow> token list \<Rightarrow> bytes list option" where
  "those_texts a src [] = Some []"
| "those_texts a src (t # ts) =
     do { x \<leftarrow> token_text a src t; xs \<leftarrow> those_texts a src ts; Some (x # xs) }"

definition sig_texts :: "token list \<Rightarrow> bytes \<Rightarrow> annotations \<Rightarrow> bytes list option" where
  "sig_texts tokens src a = those_texts a src (filter (\<lambda>t. \<not> is_skipped a t) tokens)"

subsection \<open>Trivia\<close>

datatype triv = Tv_Newline | Tv_Semicolon | Tv_Comment bytes

text \<open>\<open>str::trim_end\<close>.\<close>

definition trim_end :: "bytes \<Rightarrow> bytes" where
  "trim_end s =
     (case from_utf8 s of
        Some cs \<Rightarrow> encode_str (rev (dropWhile is_whitespace (rev cs)))
      | None \<Rightarrow> s)"

function scan_gap_from :: "bytes \<Rightarrow> nat \<Rightarrow> triv list \<Rightarrow> triv list option" where
  "scan_gap_from b i out =
     (if length b \<le> i then Some out
      else if b ! i = CHR 0x0A then scan_gap_from b (i + 1) (out @ [Tv_Newline])
      else if b ! i = CHR '';'' then scan_gap_from b (i + 1) (out @ [Tv_Semicolon])
      else if b ! i = CHR ''/'' \<and> i + 1 < length b \<and> b ! (i + 1) = CHR ''/'' then
        (let j = eat_while (\<lambda>c. c \<noteq> CHR 0x0A) b i
         in case str_get b i j of
              None \<Rightarrow> None
            | Some c \<Rightarrow> scan_gap_from b j (out @ [Tv_Comment (trim_end c)]))
      else scan_gap_from b (i + 1) out)"
  by pat_completeness auto
termination
proof (relation "measure (\<lambda>(b, i, out). length b - i)", goal_cases)
  case (4 b i out x x2)
  then have "i < eat_while (\<lambda>c. c \<noteq> CHR 0x0A) b i" by (intro eat_while_gt) simp_all
  with 4 show ?case by auto
qed auto

declare scan_gap_from.simps [simp del]

definition scan_gap :: "bytes \<Rightarrow> triv list option" where
  "scan_gap gap = scan_gap_from gap 0 []"

subsection \<open>The emit pass\<close>

record formatter =
  fm_out :: bytes
  fm_depth :: nat

definition ends_with :: "bytes \<Rightarrow> bytes \<Rightarrow> bool" where
  "ends_with s suf \<longleftrightarrow> take (length suf) (rev s) = rev suf"

definition push_str :: "bytes \<Rightarrow> formatter \<Rightarrow> formatter" where
  "push_str x fm = fm\<lparr>fm_out := fm_out fm @ x\<rparr>"

definition at_line_start :: "formatter \<Rightarrow> bool" where
  "at_line_start fm \<longleftrightarrow> fm_out fm = [] \<or> ends_with (fm_out fm) [CHR 0x0A]"

definition break_line :: "nat \<Rightarrow> formatter \<Rightarrow> formatter" where
  "break_line nl fm =
     (if fm_out fm = [] then fm
      else
        (let fm1 = (if \<not> ends_with (fm_out fm) [CHR 0x0A] then push_str [CHR 0x0A] fm else fm)
         in if 2 \<le> nl \<and> \<not> ends_with (fm_out fm1) [CHR 0x0A, CHR 0x0A]
            then push_str [CHR 0x0A] fm1 else fm1))"

definition indent_line :: "nat \<Rightarrow> bool \<Rightarrow> formatter \<Rightarrow> formatter" where
  "indent_line depth continuation fm =
     push_str (concat (replicate (depth + (if continuation then 1 else 0)) ''  '')) fm"

definition is_binary_symbol :: "tok_kind \<Rightarrow> bool" where
  "is_binary_symbol k \<longleftrightarrow> k \<in> {Tk_Plus, Tk_Minus, Tk_Star, Tk_Slash, Tk_Percent, Tk_EqEq, Tk_NotEq, Tk_Lt,
     Tk_Le, Tk_Gt, Tk_Ge, Tk_AndAnd, Tk_OrOr, Tk_Amp, Tk_Pipe, Tk_Caret}"

definition is_continuation :: "annotations \<Rightarrow> token \<Rightarrow> bool" where
  "is_continuation a t \<longleftrightarrow>
     tk_kind t \<in> {Tk_Dot, Tk_DotDot, Tk_DotDotEq} \<or>
     is_binary_symbol (tk_kind t) \<and> span_lo (tk_span t) \<notin> an_unary_ops a"

text \<open>Whether a token ends a value, so that \<open>(\<close> or \<open>[\<close> after it is a call or an index.\<close>

definition is_value_end :: "tok_kind \<Rightarrow> bool" where
  "is_value_end k \<longleftrightarrow>
     as_ident k \<noteq> None \<or> is_int_kind k \<or> as_float k \<noteq> None \<or> as_str k \<noteq> None \<or> as_char k \<noteq> None \<or>
     k \<in> {Tk_RParen, Tk_RBracket, Tk_RBrace, Tk_Question, Tk_True, Tk_False}"

definition sep :: "annotations \<Rightarrow> token \<Rightarrow> token \<Rightarrow> bytes" where
  "sep a prev cur =
     (let p = tk_kind prev; c = tk_kind cur; plo = span_lo (tk_span prev); clo = span_lo (tk_span cur)
      in if plo \<in> an_unary_ops a \<and> p \<in> {Tk_Minus, Tk_Bang, Tk_Tilde} then []
         else if (p = Tk_Lt \<and> c = Tk_Lt \<or> p = Tk_Gt \<and> c = Tk_Gt) \<and> span_hi (tk_span prev) = clo then []
         else if c \<in> {Tk_Lt, Tk_Gt} \<and> in_type_range a clo then []
         else if p = Tk_Lt \<and> in_type_range a plo then []
         else if c \<in> {Tk_Comma, Tk_Colon, Tk_Semicolon, Tk_Question, Tk_Dot, Tk_DotDot, Tk_DotDotEq} then []
         else if p = Tk_Semicolon then '' ''
         else if p \<in> {Tk_Dot, Tk_DotDot, Tk_DotDotEq} then []
         else if p \<in> {Tk_LParen, Tk_LBracket} \<or> c \<in> {Tk_RParen, Tk_RBracket} then []
         else if c \<in> {Tk_LParen, Tk_LBracket} \<and> (is_value_end p \<or> p = Tk_Gt \<and> in_type_range a plo) \<or>
                 p = Tk_FloatScope \<and> c = Tk_LParen then []
         else if c = Tk_LBrace then '' ''
         else if p = Tk_LBrace then (if c = Tk_RBrace then [] else '' '')
         else if c = Tk_RBrace then (if p = Tk_LBrace then [] else '' '')
         else '' '')"

text \<open>A comment: after the text of its line, or on a line of its own.\<close>

definition emit_comment :: "bytes \<Rightarrow> nat \<Rightarrow> formatter \<Rightarrow> nat \<times> formatter" where
  "emit_comment c pending_nl fm =
     (if pending_nl = 0 \<and> \<not> at_line_start fm then (pending_nl, push_str ('' '' @ c) fm)
      else (0, push_str c (indent_line (fm_depth fm) False (break_line pending_nl fm))))"

primrec emit_trivia :: "triv list \<Rightarrow> nat \<Rightarrow> bool \<Rightarrow> formatter \<Rightarrow> nat \<times> bool \<times> formatter" where
  "emit_trivia [] pending_nl had_semi fm = (pending_nl, had_semi, fm)"
| "emit_trivia (ev # evs) pending_nl had_semi fm =
     (case ev of
        Tv_Newline \<Rightarrow> emit_trivia evs (pending_nl + 1) had_semi fm
      | Tv_Semicolon \<Rightarrow> emit_trivia evs pending_nl True fm
      | Tv_Comment c \<Rightarrow>
          (case emit_comment c pending_nl fm of (n, fm') \<Rightarrow> emit_trivia evs n had_semi fm'))"

definition emit :: "bytes \<Rightarrow> annotations \<Rightarrow> bytes \<Rightarrow> token option \<Rightarrow> token \<Rightarrow> formatter \<Rightarrow> formatter option" where
  "emit src a gap prev t fm0 =
     do {
       evs \<leftarrow> scan_gap gap;
       let (pending_nl, had_semi, fm1) = emit_trivia evs 0 False fm0;
       let fm2 = (if tk_kind t \<in> {Tk_RBrace, Tk_RParen, Tk_RBracket}
                  then fm1\<lparr>fm_depth := fm_depth fm1 - 1\<rparr> else fm1);
       let fm3 = (if 0 < pending_nl \<or> at_line_start fm2 then
                    indent_line (fm_depth fm2) (is_continuation a t) (break_line pending_nl fm2)
                  else if had_semi then push_str ''; '' fm2
                  else case prev of Some p \<Rightarrow> push_str (sep a p t) fm2 | None \<Rightarrow> fm2);
       x \<leftarrow> token_text a src t;
       let fm4 = push_str x fm3;
       Some (if tk_kind t \<in> {Tk_LBrace, Tk_LParen, Tk_LBracket}
             then fm4\<lparr>fm_depth := fm_depth fm4 + 1\<rparr> else fm4)
     }"

primrec emit_tokens ::
  "bytes \<Rightarrow> annotations \<Rightarrow> token list \<Rightarrow> nat \<Rightarrow> token option \<Rightarrow> formatter \<Rightarrow> (nat \<times> formatter) option" where
  "emit_tokens src a [] prev_hi prev fm = Some (prev_hi, fm)"
| "emit_tokens src a (t # ts) prev_hi prev fm =
     do {
       gap \<leftarrow> clamped src prev_hi (span_lo (tk_span t));
       fm' \<leftarrow> emit src a gap prev t fm;
       emit_tokens src a ts (span_hi (tk_span t)) (Some t) fm'
     }"

definition emit_trailing :: "bytes \<Rightarrow> formatter \<Rightarrow> formatter option" where
  "emit_trailing tail fm =
     do { evs \<leftarrow> scan_gap tail; Some (snd (snd (emit_trivia evs 0 False fm))) }"

definition run_formatter :: "bytes \<Rightarrow> annotations \<Rightarrow> token list \<Rightarrow> bytes option" where
  "run_formatter src a tokens =
     do {
       (prev_hi, fm) \<leftarrow> emit_tokens src a (filter (\<lambda>t. \<not> is_skipped a t) tokens) 0 None
                          \<lparr>fm_out = [], fm_depth = 0\<rparr>;
       tail \<leftarrow> str_get src (min prev_hi (length src)) (length src);
       fm' \<leftarrow> emit_trailing tail fm;
       Some (rev (dropWhile (\<lambda>c. c = CHR 0x0A) (rev (fm_out fm'))) @ [CHR 0x0A])
     }"

subsection \<open>The entry point\<close>

definition format_source :: "nat \<Rightarrow> bytes \<Rightarrow> bytes option option" where
  "format_source f src =
     do {
       (parse_tokens, diags1) \<leftarrow> tokenize f src [];
       (tree, diags2) \<leftarrow> parse_file parse_tokens diags1;
       if has_errors diags2 then Some None
       else do {
         let ann = collect tree src;
         (tokens, _) \<leftarrow> tokenize f src [];
         out \<leftarrow> run_formatter src ann tokens;
         (out_tokens, out_diags1) \<leftarrow> tokenize f out [];
         (out_tree, out_diags2) \<leftarrow> parse_file out_tokens out_diags1;
         if has_errors out_diags2 then Some None
         else do {
           let out_ann = collect out_tree out;
           texts \<leftarrow> sig_texts tokens src ann;
           out_texts \<leftarrow> sig_texts out_tokens out out_ann;
           Some (if texts \<noteq> out_texts then None else Some out)
         }
       }
     }"

end
