(* ===== verification/Lexer_Ends.thy ===== *)
theory Lexer_Ends
  imports Lexer_Weight
begin

section \<open>Where tokens begin and end\<close>

text \<open>
  When the lexer reports nothing, every token begins and ends between two characters of the
  source, never inside one: slicing the source by token spans cannot panic.
\<close>

declare One_nat_def [simp del]

lemma errs_only_length: "errs_only ds ds' \<Longrightarrow> length ds \<le> length ds'"
  by (auto simp: errs_only_def)

lemma lx_error_length: "length (lx_error lx m st ds) = length ds + 1"
  by (simp add: lx_error_def diag_error_def diag_push_def)

lemma lx_error_neq: "lx_error lx m st ds \<noteq> ds"
  using lx_error_length [of lx m st ds] by (metis add_eq_self_zero zero_neq_one)

lemma string_loop_closed:
  "lex_string_loop start lx s ds = (lx', s', ds') \<Longrightarrow>
     length ds < length ds' \<or> 0 < lx_pos lx' \<and> lx_src lx ! (lx_pos lx' - 1) = CHR 0x22"
proof (induction start lx s ds rule: lex_string_loop.induct)
  case (1 start lx s ds)
  note eq = "1.prems" [unfolded lex_string_loop.simps [of start lx s ds]]
  consider (eol) "at_line_end lx" | (close) "\<not> at_line_end lx" "lx_peek lx = Some CHR 0x22"
    | (cut) "\<not> at_line_end lx" "lx_peek lx = Some CHR 0x5C" "at_line_end (lx_bump lx 1)"
    | (esc) "\<not> at_line_end lx" "lx_peek lx = Some CHR 0x5C" "\<not> at_line_end (lx_bump lx 1)"
    | (plain) "\<not> at_line_end lx" "lx_peek lx \<noteq> Some CHR 0x22" "lx_peek lx \<noteq> Some CHR 0x5C"
    by blast
  then show ?case
  proof cases
    case eol
    with eq show ?thesis by (auto simp: lx_error_length)
  next
    case close
    with eq show ?thesis by (auto simp: lx_peek_Some)
  next
    case cut
    with eq show ?thesis by (auto simp: Let_def lx_error_length)
  next
    case esc
    obtain c lx2 ds2 where e: "lex_escape (lx_bump lx 1) ''string'' ds = (c, lx2, ds2)"
      by (metis prod_cases3)
    have "lx_src lx2 = lx_src lx" "length ds \<le> length ds2"
      using lex_escape_frame_peeked [OF esc(2,3) e] by (simp_all add: lx_frame_def errs_only_length)
    with "1.IH"(1) [OF esc(1) _ esc(2) refl esc(3) e [symmetric] refl] eq esc e
    show ?thesis by fastforce
  next
    case plain
    obtain c n where l: "literal_scalar lx = (c, n)" by force
    with "1.IH"(2) [OF plain l [symmetric]] eq plain show ?thesis by simp
  qed
qed

lemma lex_token_clean:
  assumes t: "lex_token lx ds = Some (lx', ds)" and v: "valid_utf8 (lx_src lx)"
  shows "clean (lx_src lx) (lx_pos lx')"
proof -
  have p: "lx_pos lx < length (lx_src lx)" and gt: "lx_pos lx < lx_pos lx'"
    using lex_token_Some [OF t] by (auto simp: lexed_def)
  obtain c where c: "lx_peek lx = Some c" using p by (simp add: lx_peek_Some)
  consider (num) "lex_number lx (lx_pos lx) ds = Some (lx', ds)"
    | (chr) "lex_char lx (lx_pos lx) ds = (lx', ds)"
    | (str) "lex_string lx (lx_pos lx) ds = (lx', ds)"
    | (ident) "lex_ident lx (lx_pos lx) = Some lx'"
    | (sym) "lex_symbol lx (lx_pos lx) ds = Some (lx', ds)"
    using t c by (auto simp: lex_token_def Let_def split: if_splits)
  then show ?thesis
  proof cases
    case num
    then show ?thesis using lex_number_plain gt clean_ascii_between v by blast
  next
    case chr
    obtain x lx1 ds1 where b: "lex_char_body (lx_bump lx 1) (lx_pos lx) ds = (x, lx1, ds1)"
      by (metis prod_cases3)
    have fr: "lx_src lx1 = lx_src lx" "length ds \<le> length ds1" "x = None \<Longrightarrow> length ds < length ds1"
      using lex_char_body_frame [OF b] by (auto simp: lx_frame_def errs_only_length lx_error_length)
    have "lx_peek lx1 = Some CHR 0x27 \<and> lx_pos lx' = lx_pos lx1 + 1"
    proof (rule ccontr)
      assume "\<not> ?thesis"
      then have "length ds < length ds"
        using chr b fr by (auto simp: lex_char_def lx_push_def lx_error_length split: option.splits if_splits)
      then show False by simp
    qed
    with fr v show ?thesis by (intro clean_after_ascii) (auto simp: lx_peek_Some)
  next
    case str
    obtain lx1 s ds1 where l: "lex_string_loop (lx_pos lx) (lx_bump lx 1) [] ds = (lx1, s, ds1)"
      by (metis prod_cases3)
    with str string_loop_closed [OF l] v show ?thesis
      by (intro clean_after_ascii) (auto simp: lex_string_def lx_push_def)
  next
    case ident
    then have "lx_pos lx' = eat_while is_ident_continue (lx_src lx) (lx_pos lx)"
      by (auto simp: lex_ident_def Let_def lx_push_def split: option.splits)
    then show ?thesis using clean_ascii_between [OF v ascii_eat_ident] gt by metis
  next
    case sym
    then obtain k n where "symbol_kind c (lx_ahead lx 1) (lx_ahead lx 2) = Some (k, n)" "lx_pos lx' = lx_pos lx + n"
      using c lx_error_neq by (auto simp: lex_symbol_def Let_def lx_push_def split: option.splits prod.splits)
    then show ?thesis using clean_ascii_between [OF v symbol_ascii [OF _ c]] gt by metis
  qed
qed

lemma skip_ws_clean: "valid_utf8 s \<Longrightarrow> clean s p \<Longrightarrow> clean s (skip_ws s p)"
proof (induction s p rule: skip_ws.induct)
  case (1 s p)
  have "clean s (Suc p)" if "p < length s" "is_inline_ws (s ! p)"
    using "1.prems"(1) that by (intro clean_after_ascii) (auto simp: is_inline_ws_def)
  moreover have "clean s (eat_while (\<lambda>c. \<not> is_newline c) s p)"
    using eat_while_stop [of "\<lambda>c. \<not> is_newline c" s p] not_is_cont_ascii
    by (auto simp: clean_def is_newline_def)
  ultimately show ?case using 1 by (subst skip_ws.simps) auto
qed

text \<open>
  A token of a silent run begins and ends between two characters; one that stands for text is
  not empty and does not begin with a newline; a semicolon is the byte \<open>;\<close>.
\<close>

definition well_cut :: "bytes \<Rightarrow> token \<Rightarrow> bool" where
  "well_cut s t \<longleftrightarrow> clean s (span_lo (tk_span t)) \<and> clean s (span_hi (tk_span t)) \<and>
     (is_real t \<longrightarrow> span_lo (tk_span t) < length s \<and> s ! span_lo (tk_span t) \<noteq> CHR 0x0A) \<and>
     (tk_kind t = Tk_Semicolon \<longrightarrow> s ! span_lo (tk_span t) = CHR '';'' \<and> span_hi (tk_span t) = span_lo (tk_span t) + 1)"

lemma keyword_not_semicolon: "keyword_kind t \<noteq> Tk_Semicolon"
  by (auto simp: keyword_kind_def keyword_table_def split: option.splits if_splits)

lemma symbol_semicolon: "symbol_kind c two three = Some (Tk_Semicolon, n) \<Longrightarrow> c = CHR '';'' \<and> n = 1"
  by (auto simp: symbol_kind_def split: if_splits)

lemma symbol_newline: "symbol_kind CHR 0x0A two three = None"
  by (simp add: symbol_kind_def)

lemma lex_token_start:
  assumes t: "lex_token lx ds = Some (lx', ds)" "lx_peek lx = Some c" shows "c \<noteq> CHR 0x0A"
proof
  assume "c = CHR 0x0A"
  with t have "lex_symbol lx (lx_pos lx) ds = Some (lx', ds)"
    by (simp add: lex_token_def Let_def is_digit_def is_ident_start_def is_alpha_def is_upper_def is_lower_def split: if_splits)
  with t(2) \<open>c = CHR 0x0A\<close> show False
    using lx_error_neq by (auto simp: lex_symbol_def symbol_newline Let_def split: option.splits)
qed

lemma lex_token_semicolon:
  assumes t: "lex_token lx ds = Some (lx', ds)" "lx_peek lx = Some c"
    and k: "lx_tokens lx' = lx_tokens lx @ [k]" "tk_kind k = Tk_Semicolon"
  shows "c = CHR '';'' \<and> lx_pos lx' = lx_pos lx + 1"
proof -
  consider (num) "lex_number lx (lx_pos lx) ds = Some (lx', ds)"
    | (chr) "lex_char lx (lx_pos lx) ds = (lx', ds)"
    | (str) "lex_string lx (lx_pos lx) ds = (lx', ds)"
    | (ident) "lex_ident lx (lx_pos lx) = Some lx'"
    | (sym) "lex_symbol lx (lx_pos lx) ds = Some (lx', ds)"
    using t by (auto simp: lex_token_def Let_def split: if_splits)
  then show ?thesis
  proof cases
    case num
    then show ?thesis using lex_number_plain [of lx ds lx' ds] k by (auto simp: one_number_def)
  next
    case chr
    obtain x lx1 ds1 where b: "lex_char_body (lx_bump lx 1) (lx_pos lx) ds = (x, lx1, ds1)"
      by (metis prod_cases3)
    with chr k lex_char_body_frame [OF b] show ?thesis
      by (auto simp: lex_char_def lx_push_def split: option.splits if_splits)
  next
    case str
    obtain lx1 s ds1 where l: "lex_string_loop (lx_pos lx) (lx_bump lx 1) [] ds = (lx1, s, ds1)"
      by (metis prod_cases3)
    with str k lex_string_loop_frame [OF l] show ?thesis by (auto simp: lex_string_def lx_push_def)
  next
    case ident
    with k keyword_not_semicolon show ?thesis by (auto simp: lex_ident_def Let_def lx_push_def split: option.splits)
  next
    case sym
    with t(2) k symbol_semicolon show ?thesis
      by (auto simp: lex_symbol_def Let_def lx_push_def split: option.splits prod.splits)
  qed
qed

lemma insert_end_cut:
  assumes "list_all (well_cut s) (lx_tokens lx)" "clean s (lx_pos lx)" "lx_pos lx < 2 ^ 32"
  shows "list_all (well_cut s) (lx_tokens (maybe_insert_end lx))"
  using assms by (cases rule: maybe_insert_end_cases [of lx]) (auto simp: well_cut_def lx_span_def is_real_def)

lemma lex_run_loop_cut:
  assumes "lex_run_loop (lx_init f s) ds = Some (lx, ds)" and small: "length s < 2 ^ 32" and v: "valid_utf8 s"
  shows "list_all (well_cut s) (lx_tokens lx)"
proof -
  let ?I = "\<lambda>lx d. lx_src lx = s \<and> lx_pos lx \<le> length s \<and> length ds \<le> length d \<and>
    (d = ds \<longrightarrow> clean s (lx_pos lx) \<and> list_all (well_cut s) (lx_tokens lx))"
  have "?I lx ds \<and> lx_pos lx \<ge> length (lx_src lx)"
  proof (rule lex_run_loop_invariant [OF assms(1), where I = ?I], goal_cases)
    case 1
    show ?case by (simp add: clean_start [OF v])
  next
    case (2 lx d)
    then show ?case using skip_ws_clean [OF v, of "lx_pos lx"] by (auto simp: skip_ws_le)
  next
    case (3 lx d)
    then have c: "clean s (lx_pos lx + 1)" by (intro clean_after_ascii [OF v]) (auto simp: lx_peek_Some)
    then have "list_all (well_cut s) (lx_tokens (maybe_insert_end (lx_bump lx 1)))" if "d = ds"
      using 3 that small by (intro insert_end_cut) (auto simp: lx_peek_Some)
    with 3 c show ?case by (auto simp: lx_peek_Some)
  next
    case (4 lx d lx' d')
    then have len: "length d \<le> length d'" and fr: "lx_frame lx lx'" by (auto simp: lexed_def)
    have "clean s (lx_pos lx') \<and> list_all (well_cut s) (lx_tokens lx')" if "d' = ds"
    proof -
      from that 4(1,4) len have d: "d = ds" by (auto simp: lexed_def)
      with 4 that obtain t where t: "lx_tokens lx' = lx_tokens lx @ [t]"
        "tk_span t = lx_span lx (lx_pos lx) (lx_pos lx')" using lexed_silent by blast
      have step: "lex_token lx ds = Some (lx', ds)" "lx_peek lx = Some (s ! lx_pos lx)"
        using 4 d that by (auto simp: lx_peek_Some)
      have "clean s (lx_pos lx')" using lex_token_clean [OF step(1)] 4(1) v by simp
      moreover have "tk_kind t = Tk_Semicolon \<Longrightarrow> s ! lx_pos lx = CHR '';'' \<and> lx_pos lx' = lx_pos lx + 1"
        using lex_token_semicolon [OF step t(1)] .
      moreover have "s ! lx_pos lx \<noteq> CHR 0x0A" using lex_token_start [OF step] .
      moreover have "lx_pos lx' \<le> length s" using fr 4(1) by (auto simp: lx_frame_def)
      ultimately show ?thesis using 4(1,2) d t small by (simp add: well_cut_def lx_span_def)
    qed
    with 4 fr len show ?case by (auto simp: lx_frame_def)
  qed
  then show ?thesis by simp
qed

lemma tokenize_cut:
  assumes "tokenize f s ds = Some (toks, ds)" and "length s < 2 ^ 32" and v: "valid_utf8 s"
  shows "list_all (well_cut s) toks"
proof -
  obtain lx where r: "lex_run_loop (lx_init f s) ds = Some (lx, ds)" and
    toks: "toks = lx_tokens (maybe_insert_end lx) @
      [\<lparr>tk_kind = Tk_Eof, tk_span = lx_span lx (lx_pos lx) (lx_pos lx), tk_radix = None\<rparr>]"
    using assms(1) by (rule tokenize_loop)
  have "lx_pos lx = length s" using lex_run_loop_frame [OF r] by simp
  with insert_end_cut [OF lex_run_loop_cut [OF r assms(2) v]] assms(2) show ?thesis
    by (simp add: toks well_cut_def lx_span_def clean_def is_real_def)
qed

end
