(* ===== verification/Formatter_Gaps.thy ===== *)
theory Formatter_Gaps
  imports Formatter Lexer_Ends
begin

section \<open>align\_fmt: the gaps between tokens\<close>

text \<open>
  What the formatter reads between two significant tokens of a clean source: the slices are on
  character boundaries, \<open>scan_gap\<close> does not panic on them, it finds exactly the comments of their
  lines, and every comment is ended by a newline in front of the next token.
\<close>

declare One_nat_def [simp del]

subsection \<open>Slices of a valid source\<close>

lemma valid_prefix:
  assumes "valid_utf8 s" "clean s b" "b \<le> length s" shows "valid_utf8 (take b s)"
proof -
  obtain cs where cs: "list_all is_scalar cs" "s = encode_str cs"
    using assms(1) from_utf8_sound by (auto simp: valid_utf8_def)
  have "\<exists>n. take b (encode_str cs) = encode_str (take n cs)" if "clean (encode_str cs) b" for b
    using cs(1) that
  proof (induction cs arbitrary: b)
    case (Cons c cs)
    show ?case
    proof (cases "len_utf8 c \<le> b")
      case True
      then have "clean (encode_str cs) (b - len_utf8 c)"
        using Cons.prems(2) by (auto simp: clean_def nth_append)
      with Cons obtain n where "take (b - len_utf8 c) (encode_str cs) = encode_str (take n cs)" by auto
      with True have "take b (encode_str (c # cs)) = encode_str (take (Suc n) (c # cs))" by simp
      then show ?thesis by blast
    next
      case False
      have "b = 0"
        using Cons.prems False encode_utf8_rest [of b c] by (auto simp: clean_def nth_append)
      then have "take b (encode_str (c # cs)) = encode_str (take 0 (c # cs))" by simp
      then show ?thesis by blast
    qed
  qed simp
  with cs assms(2) obtain n where "take b s = encode_str (take n cs)" by auto
  moreover have "list_all is_scalar (take n cs)" using cs(1) by (auto simp: list_all_iff dest: in_set_takeD)
  ultimately show ?thesis by (simp add: valid_utf8_def from_utf8_encode)
qed

lemma valid_slice:
  assumes "valid_utf8 s" "clean s a" "clean s b" "a \<le> b" "b \<le> length s"
  shows "valid_utf8 (take (b - a) (drop a s))" "str_get s a b = Some (take (b - a) (drop a s))"
proof -
  have v: "valid_utf8 (drop a s)" using clean_boundary [OF assms(1,2)] assms by (simp add: boundary_def)
  have "clean (drop a s) (b - a)" using assms by (simp add: clean_def)
  with v show "valid_utf8 (take (b - a) (drop a s))" using assms by (intro valid_prefix) simp_all
  show "str_get s a b = Some (take (b - a) (drop a s))"
    using assms clean_boundary [OF assms(1)] boundary_is_char_boundary by (simp add: str_get_def)
qed

lemma trim_end_valid: "valid_utf8 c \<Longrightarrow> valid_utf8 (trim_end c)"
proof -
  assume "valid_utf8 c"
  then obtain cs where cs: "from_utf8 c = Some cs" by (auto simp: valid_utf8_def)
  then have "list_all is_scalar cs" using from_utf8_sound by blast
  then have "list_all is_scalar (rev (dropWhile is_whitespace (rev cs)))"
    by (auto simp: list_all_iff dest!: set_dropWhileD)
  with cs show ?thesis by (simp add: trim_end_def valid_utf8_def from_utf8_encode)
qed

text \<open>What a gap holds: comments are proper, and one is followed by a newline or ends the gap.\<close>

definition is_comment :: "triv \<Rightarrow> bool" where
  "is_comment ev \<longleftrightarrow> (\<exists>c. ev = Tv_Comment c)"

fun closed_events :: "triv list \<Rightarrow> bool" where
  "closed_events (x # y # evs) \<longleftrightarrow> (is_comment x \<longrightarrow> y = Tv_Newline) \<and> closed_events (y # evs)"
| "closed_events evs \<longleftrightarrow> True"

lemma closed_events_snoc:
  "closed_events (evs @ [x]) \<longleftrightarrow> closed_events evs \<and> (evs \<noteq> [] \<and> is_comment (last evs) \<longrightarrow> x = Tv_Newline)"
  by (induction evs rule: closed_events.induct) auto

lemma trim_end_split:
  assumes "valid_utf8 c"
  obtains ws where "c = trim_end c @ encode_str ws" "list_all is_whitespace ws" "list_all is_scalar ws"
proof -
  obtain cs where cs: "from_utf8 c = Some cs" using assms by (auto simp: valid_utf8_def)
  then have e: "c = encode_str cs" "list_all is_scalar cs" using from_utf8_sound by blast+
  let ?ws = "rev (takeWhile is_whitespace (rev cs))"
  have sp: "rev (dropWhile is_whitespace (rev cs)) @ ?ws = cs"
    by (simp only: rev_append [symmetric] takeWhile_dropWhile_id rev_rev_ident)
  have "c = encode_str (rev (dropWhile is_whitespace (rev cs)) @ ?ws)" using e(1) by (simp only: sp)
  moreover have "trim_end c = encode_str (rev (dropWhile is_whitespace (rev cs)))" by (simp add: trim_end_def cs)
  ultimately have "c = trim_end c @ encode_str ?ws" by (metis encode_str_append)
  moreover have "list_all is_whitespace ?ws" by (auto simp: list_all_iff dest: set_takeWhileD)
  moreover have "list_all is_scalar ?ws" using e(2) sp by (metis list_all_append)
  ultimately show thesis using that by blast
qed

definition proper_comment :: "bytes \<Rightarrow> bool" where
  "proper_comment c \<longleftrightarrow> valid_utf8 c \<and> c \<noteq> [] \<and> last c \<noteq> CHR 0x0A"

lemma encode_utf8_slash:
  assumes "is_scalar c" "encode_utf8 c ! 0 = CHR ''/''" shows "c = 0x2F"
proof (cases "c < 128")
  case True
  then have "encode_utf8 c ! 0 = char_of c" by (simp add: encode_utf8_def)
  with assms(2) have "val (char_of c) = val CHR ''/''" by (simp only:)
  moreover have "val (char_of c) = c" using True by simp
  moreover have "val CHR ''/'' = 0x2F" by simp
  ultimately show ?thesis by (simp only:)
next
  case False
  moreover have "0 < len_utf8 c" by (simp add: len_utf8_def)
  ultimately have "128 \<le> val (encode_utf8 c ! 0)" using encode_utf8_high [of c 0] assms(1) by linarith
  then show ?thesis by (simp add: assms(2))
qed

lemma trim_end_proper:
  assumes "valid_utf8 c" "c \<noteq> []" "c ! 0 = CHR ''/''" "CHR 0x0A \<notin> set c"
  shows "proper_comment (trim_end c)"
proof -
  obtain ws where ws: "c = trim_end c @ encode_str ws" "list_all is_whitespace ws" "list_all is_scalar ws"
    using assms(1) by (rule trim_end_split)
  have "trim_end c \<noteq> []"
  proof
    assume "trim_end c = []"
    with ws assms(2) obtain w ws' where "ws = w # ws'" "c = encode_str (w # ws')" by (cases ws) auto
    with ws assms(3) have "w = 0x2F" using encode_utf8_slash [of w] by (simp add: nth_append)
    with ws \<open>ws = w # ws'\<close> show False by (simp add: is_whitespace_def)
  qed
  moreover from this have "last (trim_end c) \<in> set c" using ws(1) by (metis UnCI last_in_set set_append)
  ultimately show ?thesis using assms trim_end_valid by (auto simp: proper_comment_def)
qed

definition events_ok :: "triv list \<Rightarrow> bool" where
  "events_ok evs \<longleftrightarrow> closed_events evs \<and> (\<forall>c. Tv_Comment c \<in> set evs \<longrightarrow> proper_comment c)"

lemma gap_comment:
  assumes v: "valid_utf8 b" and i: "i < length b" "b ! i = CHR ''/''"
    and j: "j = eat_while (\<lambda>c. c \<noteq> CHR 0x0A) b i"
  shows "\<exists>c. str_get b i j = Some c \<and> proper_comment (trim_end c) \<and> i < j \<and> (j < length b \<longrightarrow> b ! j = CHR 0x0A)"
proof -
  let ?c = "take (j - i) (drop i b)"
  have len: "i < j" "j \<le> length b"
    using eat_while_gt [of i b "\<lambda>c. c \<noteq> CHR 0x0A"] eat_while_le [of i b "\<lambda>c. c \<noteq> CHR 0x0A"] i j by auto
  have stop: "j < length b \<Longrightarrow> b ! j = CHR 0x0A" using eat_while_stop [of "\<lambda>c. c \<noteq> CHR 0x0A" b i] j by auto
  then have "clean b i" "clean b j" using i not_is_cont_ascii by (auto simp: clean_def)
  note sl = valid_slice [OF v this less_imp_le [OF len(1)] len(2)]
  have "b ! k \<noteq> CHR 0x0A" if "i \<le> k" "k < j" for k
    using eat_while_all [OF that(1) that(2) [unfolded j]] .
  then have "CHR 0x0A \<notin> set ?c" using len by (fastforce simp: in_set_conv_nth)
  moreover have "?c \<noteq> []" "?c ! 0 = CHR ''/''" using len i by simp_all
  ultimately have "proper_comment (trim_end ?c)" using sl(1) by (intro trim_end_proper)
  with sl(2) stop len(1) show ?thesis by blast
qed

lemma scan_gap_from_ok:
  "valid_utf8 b \<Longrightarrow> events_ok out \<Longrightarrow>
   (out \<noteq> [] \<and> is_comment (last out) \<and> i < length b \<longrightarrow> b ! i = CHR 0x0A) \<Longrightarrow>
   \<exists>evs. scan_gap_from b i out = Some evs \<and> events_ok evs"
proof (induction b i out rule: scan_gap_from.induct)
  case (1 b i out)
  consider (stop) "length b \<le> i" | (nl) "i < length b" "b ! i = CHR 0x0A"
    | (semi) "i < length b" "b ! i = CHR '';''"
    | (comment) "i < length b" "b ! i = CHR ''/''" "i + 1 < length b \<and> b ! (i + 1) = CHR ''/''"
    | (blank) "i < length b" "b ! i \<noteq> CHR 0x0A" "b ! i \<noteq> CHR '';''"
        "\<not> (b ! i = CHR ''/'' \<and> i + 1 < length b \<and> b ! (i + 1) = CHR ''/'')"
    by fastforce
  then show ?case
  proof cases
    case stop
    with "1.prems" show ?thesis by (simp add: scan_gap_from.simps [of b])
  next
    case nl
    then have "events_ok (out @ [Tv_Newline])" using "1.prems" by (auto simp: events_ok_def closed_events_snoc)
    with "1.IH"(1) nl "1.prems" show ?thesis
      by (subst scan_gap_from.simps) (simp add: is_comment_def)
  next
    case semi
    then have "events_ok (out @ [Tv_Semicolon])" using "1.prems" by (auto simp: events_ok_def closed_events_snoc)
    with "1.IH"(2) semi "1.prems" show ?thesis
      by (subst scan_gap_from.simps) (simp add: is_comment_def)
  next
    case comment
    let ?j = "eat_while (\<lambda>c. c \<noteq> CHR 0x0A) b i"
    obtain c where c: "str_get b i ?j = Some c" "proper_comment (trim_end c)" "?j < length b \<longrightarrow> b ! ?j = CHR 0x0A"
      using gap_comment [OF "1.prems"(1) comment(1,2) refl] by blast
    then have "events_ok (out @ [Tv_Comment (trim_end c)])"
      using "1.prems" comment by (auto simp: events_ok_def closed_events_snoc)
    with "1.IH"(3) comment c "1.prems" show ?thesis by (subst scan_gap_from.simps) (simp add: Let_def)
  next
    case blank
    with "1.IH"(4) "1.prems" show ?thesis by (subst scan_gap_from.simps) auto
  qed
qed

lemma scan_gap_ok: "valid_utf8 gap \<Longrightarrow> \<exists>evs. scan_gap gap = Some evs \<and> events_ok evs"
  using scan_gap_from_ok [of gap "[]" 0] by (simp add: scan_gap_def events_ok_def)

subsection \<open>The comments of a gap\<close>

text \<open>
  Without the scanner: the lines of the text, and of each line what follows from its first two
  slashes on, without the whitespace at its end.
\<close>

fun lines_of :: "bytes \<Rightarrow> bytes list" where
  "lines_of [] = [[]]"
| "lines_of (c # s) =
     (if c = CHR 0x0A then [] # lines_of s else (c # hd (lines_of s)) # tl (lines_of s))"

fun line_comment :: "bytes \<Rightarrow> bytes option" where
  "line_comment (c # d # s) = (if c = CHR ''/'' \<and> d = CHR ''/'' then Some (c # d # s) else line_comment (d # s))"
| "line_comment s = None"

definition gap_comments :: "bytes \<Rightarrow> bytes list" where
  "gap_comments s = map trim_end (List.map_filter line_comment (lines_of s))"

definition event_comments :: "triv list \<Rightarrow> bytes list" where
  "event_comments evs = concat (map (\<lambda>ev. case ev of Tv_Comment c \<Rightarrow> [c] | _ \<Rightarrow> []) evs)"

lemma event_comments_simps [simp]:
  "event_comments [] = []" "event_comments (Tv_Newline # evs) = event_comments evs"
  "event_comments (Tv_Semicolon # evs) = event_comments evs"
  "event_comments (Tv_Comment c # evs) = c # event_comments evs"
  "event_comments (evs @ fs) = event_comments evs @ event_comments fs"
  by (simp_all add: event_comments_def)

lemma lines_of_nonempty [simp]: "lines_of s \<noteq> []"
  by (cases s) simp_all

lemma gap_comments_simps:
  "gap_comments [] = []" "gap_comments (CHR 0x0A # s) = gap_comments s"
  by (simp_all add: gap_comments_def List.map_filter_def)

lemma line_comment_skip:
  "\<not> (c = CHR ''/'' \<and> l \<noteq> [] \<and> hd l = CHR ''/'') \<Longrightarrow> line_comment (c # l) = line_comment l"
  by (cases l) auto

lemma gap_comments_skip:
  assumes "c \<noteq> CHR 0x0A" "\<not> (c = CHR ''/'' \<and> s \<noteq> [] \<and> hd s = CHR ''/'')"
  shows "gap_comments (c # s) = gap_comments s"
proof -
  obtain l ls where l: "lines_of s = l # ls" by (cases "lines_of s") simp_all
  have "l \<noteq> [] \<Longrightarrow> s \<noteq> [] \<and> hd s = hd l" using l by (cases s) (auto split: if_splits)
  then have "line_comment (c # l) = line_comment l" using assms(2) by (intro line_comment_skip) auto
  then show ?thesis using assms(1) l by (simp add: gap_comments_def List.map_filter_def)
qed

lemma lines_of_line:
  "CHR 0x0A \<notin> set l \<Longrightarrow> lines_of l = [l]" "CHR 0x0A \<notin> set l \<Longrightarrow> lines_of (l @ CHR 0x0A # s) = l # lines_of s"
  by (induction l) auto

lemma gap_comments_comment:
  assumes "CHR 0x0A \<notin> set c" "c = CHR ''/'' # CHR ''/'' # r" "s = [] \<or> hd s = CHR 0x0A"
  shows "gap_comments (c @ s) = trim_end c # gap_comments s"
proof -
  have c: "line_comment c = Some c" by (simp add: assms(2))
  have "lines_of (c @ s) = c # (if s = [] then [] else lines_of (tl s))"
    using lines_of_line [OF assms(1)] assms(3) by (cases s) auto
  moreover have "gap_comments s = (if s = [] then [] else gap_comments (tl s))"
    using assms(3) gap_comments_simps by (cases s) auto
  ultimately show ?thesis using c by (simp add: gap_comments_def List.map_filter_def)
qed

lemma scan_gap_comment:
  assumes "i + 1 < length b" "b ! i = CHR ''/''" "b ! (i + 1) = CHR ''/''"
    and "eat_while (\<lambda>c. c \<noteq> CHR 0x0A) b i = j"
  shows "scan_gap_from b i out =
     (case str_get b i j of None \<Rightarrow> None | Some c \<Rightarrow> scan_gap_from b j (out @ [Tv_Comment (trim_end c)]))"
  using assms(1-3) unfolding assms(4) [symmetric] by (subst scan_gap_from.simps) (simp add: Let_def)

text \<open>The scanner finds exactly these comments.\<close>

lemma scan_gap_from_comments:
  "scan_gap_from b i out = Some evs \<Longrightarrow> event_comments evs = event_comments out @ gap_comments (drop i b)"
proof (induction b i out rule: scan_gap_from.induct)
  case (1 b i out)
  let ?j = "eat_while (\<lambda>c. c \<noteq> CHR 0x0A) b i"
  consider (stop) "length b \<le> i" | (nl) "i < length b" "b ! i = CHR 0x0A"
    | (comment) "i + 1 < length b" "b ! i = CHR ''/''" "b ! (i + 1) = CHR ''/''"
    | (other) "i < length b" "b ! i \<noteq> CHR 0x0A" "\<not> (b ! i = CHR ''/'' \<and> i + 1 < length b \<and> b ! (i + 1) = CHR ''/'')"
    by fastforce
  then show ?case
  proof cases
    case stop
    with "1.prems" show ?thesis by (simp add: scan_gap_from.simps [of b] gap_comments_simps)
  next
    case nl
    then have "drop i b = CHR 0x0A # drop (i + 1) b" by (metis Cons_nth_drop_Suc Suc_eq_plus1)
    with nl "1.prems" "1.IH"(1) show ?thesis
      by (simp add: scan_gap_from.simps [of b i] gap_comments_simps)
  next
    case comment
    obtain c where c: "str_get b i ?j = Some c" "scan_gap_from b ?j (out @ [Tv_Comment (trim_end c)]) = Some evs"
      using "1.prems" unfolding scan_gap_comment [OF comment refl] by (auto split: option.splits)
    have j: "i < ?j" "?j \<le> length b" "c = take (?j - i) (drop i b)"
      using c(1) eat_while_gt [of i b "\<lambda>c. c \<noteq> CHR 0x0A"] comment by (auto simp: str_get_def split: if_splits)
    have all: "b ! k \<noteq> CHR 0x0A" if "i \<le> k" "k < ?j" for k using eat_while_all [OF that] .
    have "?j \<noteq> i + 1" using eat_while_stop [of "\<lambda>c. c \<noteq> CHR 0x0A" b i] comment by auto
    then have j2: "i + 2 \<le> ?j" using j(1) by linarith
    have nl: "CHR 0x0A \<notin> set c" using all j by (fastforce simp: in_set_conv_nth)
    have "c ! 0 = CHR ''/''" "c ! 1 = CHR ''/''" "2 \<le> length c" using comment j j2 by auto
    then obtain r where r: "c = CHR ''/'' # CHR ''/'' # r" by (cases c; cases "tl c") auto
    have "drop ?j b = [] \<or> hd (drop ?j b) = CHR 0x0A"
      using eat_while_stop [of "\<lambda>c. c \<noteq> CHR 0x0A" b i] by (cases "?j < length b") (auto simp: hd_drop_conv_nth)
    moreover have "drop i b = c @ drop ?j b"
      using j by (metis append_take_drop_id drop_drop le_add_diff_inverse2 less_imp_le)
    ultimately have "gap_comments (drop i b) = trim_end c # gap_comments (drop ?j b)"
      using gap_comments_comment [OF nl r] by simp
    moreover have "event_comments evs = event_comments (out @ [Tv_Comment (trim_end c)]) @ gap_comments (drop ?j b)"
      using "1.IH"(3) [OF _ _ _ _ refl c] comment by simp
    ultimately show ?thesis by simp
  next
    case other
    have d: "drop i b = b ! i # drop (i + 1) b" using other(1) by (metis Cons_nth_drop_Suc Suc_eq_plus1)
    have "gap_comments (drop i b) = gap_comments (drop (i + 1) b)"
      unfolding d using other by (intro gap_comments_skip) (auto simp: hd_drop_conv_nth)
    with other "1.prems" "1.IH"(2,4) show ?thesis
      by (simp add: scan_gap_from.simps [of b i] split: if_splits)
  qed
qed

lemma scan_gap_comments: "scan_gap gap = Some evs \<Longrightarrow> event_comments evs = gap_comments gap"
  using scan_gap_from_comments [of gap 0 "[]" evs] by (simp add: scan_gap_def)

subsection \<open>The gaps between significant tokens\<close>

text \<open>\<open>loose s p q\<close>: from \<open>p\<close> to \<open>q\<close> there are only whitespace, line comments and semicolons.\<close>

inductive loose :: "bytes \<Rightarrow> nat \<Rightarrow> nat \<Rightarrow> bool" for s where
  loose_refl: "loose s p p"
| loose_byte: "p < length s \<Longrightarrow> is_inline_ws (s ! p) \<or> is_newline (s ! p) \<or> s ! p = CHR '';'' \<Longrightarrow>
    loose s (Suc p) q \<Longrightarrow> loose s p q"
| loose_comment: "p + 1 < length s \<Longrightarrow> s ! p = CHR ''/'' \<Longrightarrow> s ! (p + 1) = CHR ''/'' \<Longrightarrow>
    loose s (eat_while (\<lambda>c. \<not> is_newline c) s p) q \<Longrightarrow> loose s p q"

lemma loose_trans: "loose s p q \<Longrightarrow> loose s q r \<Longrightarrow> loose s p r"
  by (induction rule: loose.induct) (auto intro: loose.intros)

lemma trivia_loose: "trivia s p q \<Longrightarrow> loose s p q"
  by (induction rule: trivia.induct) (auto intro: loose.intros)

lemma loose_semi: "p < length s \<Longrightarrow> s ! p = CHR '';'' \<Longrightarrow> loose s p (p + 1)"
  by (rule loose_byte) (auto simp: Suc_eq_plus1 intro: loose_refl)

lemma loose_le: "loose s p q \<Longrightarrow> p \<le> q"
proof (induction rule: loose.induct)
  case (loose_comment p q)
  then show ?case using eat_while_ge order_trans by blast
qed simp_all

abbreviation stretch :: "bytes \<Rightarrow> nat \<Rightarrow> nat \<Rightarrow> bytes" where
  "stretch s p q \<equiv> take (q - p) (drop p s)"

text \<open>A comment in front of a token is ended by a newline in front of that token.\<close>

lemma loose_events:
  assumes "loose s p q" and q: "q < length s" "s ! q \<noteq> CHR 0x0A"
  shows "p0 \<le> p \<Longrightarrow> (out \<noteq> [] \<and> is_comment (last out) \<longrightarrow> s ! p = CHR 0x0A) \<Longrightarrow>
    scan_gap_from (stretch s p0 q) (p - p0) out = Some evs \<Longrightarrow> \<not> (evs \<noteq> [] \<and> is_comment (last evs))"
  using assms
proof (induction arbitrary: out rule: loose.induct)
  case (loose_refl p)
  then show ?case by (auto simp: scan_gap_from.simps [of _ "p - p0"])
next
  case (loose_byte p q)
  let ?b = "stretch s p0 q"
  have "Suc p \<le> q" using loose_le [OF loose_byte.hyps(3)] .
  then have b: "p - p0 < length ?b" "?b ! (p - p0) = s ! p" using loose_byte.prems by auto
  have st: "Suc p - p0 = p - p0 + 1" using loose_byte.prems by simp
  show ?case
    using loose_byte.IH [of "out @ [Tv_Newline]"] loose_byte.IH [of "out @ [Tv_Semicolon]"] loose_byte.IH [of out]
      loose_byte.prems loose_byte.hyps(2) b
    by (auto simp: st scan_gap_from.simps [of ?b "p - p0"] is_inline_ws_def is_newline_def is_comment_def
        split: if_splits)
next
  case (loose_comment p q)
  let ?b = "stretch s p0 q" and ?e = "eat_while (\<lambda>c. \<not> is_newline c) s p"
  have le: "p0 \<le> p" and q: "q < length s" "s ! q \<noteq> CHR 0x0A" using loose_comment.prems by simp_all
  have "?e \<le> q" using loose_le [OF loose_comment.hyps(4)] .
  moreover from this have nl: "s ! ?e = CHR 0x0A"
    using eat_while_stop [of "\<lambda>c. \<not> is_newline c" s p] q by (simp add: is_newline_def)
  ultimately have e: "?e < q" using q(2) by (auto simp: le_less)
  have ge: "p \<le> ?e" "?e \<noteq> p" "?e \<noteq> p + 1"
    using eat_while_ge [of p "\<lambda>c. \<not> is_newline c" s] nl loose_comment.hyps(2,3) by auto
  then have pe: "p + 2 \<le> ?e" by linarith
  have at: "k < length ?b \<longleftrightarrow> p0 + k < q" "p0 + k < q \<Longrightarrow> ?b ! k = s ! (p0 + k)" for k using q by auto
  have b: "p - p0 + 1 < length ?b" "?b ! (p - p0) = CHR ''/''" "?b ! (p - p0 + 1) = CHR ''/''"
    using at [of "p - p0"] at [of "p - p0 + 1"] pe e le loose_comment.hyps(2,3) by auto
  have "s ! k \<noteq> CHR 0x0A" if "p \<le> k" "k < ?e" for k
    using eat_while_all [OF that] by (simp add: is_newline_def)
  then have j: "eat_while (\<lambda>c. c \<noteq> CHR 0x0A) ?b (p - p0) = ?e - p0"
    using at pe e le nl q(1) by (intro eat_while_eqI) auto
  obtain c where c: "scan_gap_from ?b (?e - p0) (out @ [Tv_Comment c]) = Some evs"
    using loose_comment.prems(3) unfolding scan_gap_comment [OF b j] by (auto split: option.splits)
  show ?case using loose_comment.IH [OF _ _ c q] nl ge(1) le by simp
qed

text \<open>
  The significant tokens of a clean source: in order, cut between characters, with loose gaps,
  and none begins with a newline.
\<close>

fun sig_ok :: "bytes \<Rightarrow> nat \<Rightarrow> token list \<Rightarrow> bool" where
  "sig_ok s p [] \<longleftrightarrow> p \<le> length s \<and> clean s p"
| "sig_ok s p (t # ts) \<longleftrightarrow>
     (let lo = span_lo (tk_span t); hi = span_hi (tk_span t)
      in clean s p \<and> clean s lo \<and> loose s p lo \<and> lo < hi \<and> lo < length s \<and> s ! lo \<noteq> CHR 0x0A \<and> sig_ok s hi ts)"

lemma trivia_end: "trivia s p q \<Longrightarrow> q = length s \<Longrightarrow> p \<le> length s"
  using loose_le trivia_loose by blast

lemma sig_ok_filter:
  "tiled s p (extents ts) (length s) \<Longrightarrow> list_all (well_cut s) ts \<Longrightarrow> loose s p0 p \<Longrightarrow> clean s p0 \<Longrightarrow>
   sig_ok s p0 (filter (\<lambda>t. \<not> is_skipped a t) ts)"
proof (induction ts arbitrary: p p0)
  case Nil
  then have "loose s p0 (length s)" by (auto elim: tiled.cases intro: loose_trans trivia_loose)
  with Nil show ?case using loose_le by simp
next
  case (Cons t ts)
  let ?lo = "span_lo (tk_span t)" and ?hi = "span_hi (tk_span t)"
  show ?case
  proof (cases "is_real t")
    case False
    then have "is_skipped a t" "extents (t # ts) = extents ts"
      by (auto simp: is_real_def is_skipped_def extents_def)
    with Cons show ?thesis by simp
  next
    case True
    then have "extents (t # ts) = (?lo, ?hi) # extents ts" by (simp add: extents_def extent_def)
    with Cons.prems(1) have t: "trivia s p ?lo" "?lo < ?hi" "tiled s ?hi (extents ts) (length s)"
      by (auto elim: tiled.cases)
    have w: "clean s ?lo" "clean s ?hi" "?lo < length s" "s ! ?lo \<noteq> CHR 0x0A"
      "tk_kind t = Tk_Semicolon \<Longrightarrow> s ! ?lo = CHR '';'' \<and> ?hi = ?lo + 1"
      using Cons.prems(2) True by (simp_all add: well_cut_def)
    have l: "loose s p0 ?lo" using Cons.prems(3) t(1) loose_trans trivia_loose by blast
    show ?thesis
    proof (cases "is_skipped a t")
      case sk: True
      with True have "tk_kind t = Tk_Semicolon" by (auto simp: is_skipped_def is_real_def)
      then have "loose s p0 ?hi" using l w loose_semi loose_trans by metis
      from Cons.IH [OF t(3) _ this] Cons.prems sk show ?thesis by simp
    next
      case False
      from Cons.IH [OF t(3) _ loose_refl w(2)] Cons.prems False w t l show ?thesis by (simp add: Let_def)
    qed
  qed
qed

lemma tokenize_sig:
  assumes "tokenize f s ds = Some (toks, ds)" "length s < 2 ^ 32" "valid_utf8 s"
  shows "sig_ok s 0 (filter (\<lambda>t. \<not> is_skipped a t) toks)"
proof -
  obtain lx where r: "lex_run_loop (lx_init f s) ds = Some (lx, ds)" and
    toks: "toks = lx_tokens (maybe_insert_end lx) @
      [\<lparr>tk_kind = Tk_Eof, tk_span = lx_span lx (lx_pos lx) (lx_pos lx), tk_radix = None\<rparr>]"
    using assms(1) by (rule tokenize_loop)
  from lex_run_loop_tiled [OF r assms(2)] toks have "tiled s 0 (extents toks) (length s)" by simp
  with tokenize_cut [OF assms] clean_start [OF assms(3)] show ?thesis
    by (intro sig_ok_filter [OF _ _ loose_refl])
qed

lemma sig_ok_bound: "sig_ok s p ts \<Longrightarrow> p \<le> length s"
  by (cases ts) (auto simp: Let_def dest: loose_le)

lemma sig_ok_gap:
  assumes "sig_ok s p (t # ts)" "valid_utf8 s"
  shows "\<exists>evs. clamped s p (span_lo (tk_span t)) = Some (stretch s p (span_lo (tk_span t))) \<and>
    scan_gap (stretch s p (span_lo (tk_span t))) = Some evs \<and> events_ok evs \<and>
    \<not> (evs \<noteq> [] \<and> is_comment (last evs))"
proof -
  let ?lo = "span_lo (tk_span t)"
  have o: "clean s p" "clean s ?lo" "loose s p ?lo" "?lo < length s" "s ! ?lo \<noteq> CHR 0x0A"
    using assms(1) by (simp_all add: Let_def)
  have le: "p \<le> ?lo" using loose_le [OF o(3)] .
  note sl = valid_slice [OF assms(2) o(1,2) le less_imp_le [OF o(4)]]
  have "clamped s p ?lo = Some (stretch s p ?lo)" using sl(2) o(4) le by (simp add: clamped_def Let_def)
  moreover obtain evs where "scan_gap (stretch s p ?lo) = Some evs" "events_ok evs"
    using scan_gap_ok [OF sl(1)] by blast
  moreover from this(1) have "\<not> (evs \<noteq> [] \<and> is_comment (last evs))"
    using loose_events [OF o(3-5) order_refl, of "[]" evs] by (simp add: scan_gap_def)
  ultimately show ?thesis by blast
qed

lemma sig_ok_text:
  assumes "sig_ok s p (t # ts)" "valid_utf8 s"
  shows "tok_text s t = Some (stretch s (span_lo (tk_span t)) (span_hi (tk_span t)))"
    "valid_utf8 (stretch s (span_lo (tk_span t)) (span_hi (tk_span t)))"
proof -
  let ?lo = "span_lo (tk_span t)" and ?hi = "span_hi (tk_span t)"
  have r: "sig_ok s ?hi ts" "clean s ?lo" "?lo < ?hi" using assms(1) by (simp_all add: Let_def)
  have hi: "?hi \<le> length s" "clean s ?hi" using sig_ok_bound [OF r(1)] r(1) by (cases ts; simp add: Let_def)+
  from valid_slice [OF assms(2) r(2) hi(2) less_imp_le [OF r(3)] hi(1)] r(3) hi(1)
  show "tok_text s t = Some (stretch s ?lo ?hi)" "valid_utf8 (stretch s ?lo ?hi)"
    by (simp_all add: tok_text_def clamped_def Let_def)
qed

end
