(* ===== verification/Parser_Eval.thy ===== *)
theory Parser_Eval
  imports Parser
begin

section \<open>Running the parser in proofs\<close>

text \<open>
  Rules with which the simplifier runs the parser on a concrete token list: every method is
  unfolded only when it is applied to a state, and the loops, lookahead walks and nested calls are
  unfolded one step at a time while their bound is positive.
\<close>

declare One_nat_def [simp del]

lemma iterP_step:
  "0 < n \<Longrightarrow> iterP n body s p =
     bindP (body s) (\<lambda>r. case r of Inl s' \<Rightarrow> iterP (n - 1) body s' | Inr v \<Rightarrow> retP v) p"
  by (cases n) (simp_all add: One_nat_def)

lemma knot_step:
  "0 < n \<Longrightarrow> c_expr (knot n) m p = parse_expr (knot (n - 1)) m p"
  "0 < n \<Longrightarrow> c_prefix (knot n) p = parse_prefix (knot (n - 1)) p"
  "0 < n \<Longrightarrow> c_if (knot n) p = parse_if (knot (n - 1)) p"
  "0 < n \<Longrightarrow> c_type (knot n) p = parse_type (c_type (knot (n - 1))) p"
  by (cases n; simp add: tie_def One_nat_def)+

lemma scan_step:
  "0 < n \<Longrightarrow> group_end n p i depth =
     (if p_peek_at p i = Tk_LParen then group_end (n - 1) p (i + 1) (depth + 1)
      else if p_peek_at p i = Tk_RParen then
        (if depth - 1 = 0 then Some (Some (i + 1)) else group_end (n - 1) p (i + 1) (depth - 1))
      else if p_peek_at p i = Tk_Eof then Some None
      else group_end (n - 1) p (i + 1) depth)"
  "0 < n \<Longrightarrow> name_list_end n p i count =
     (if \<not> identifier_at p i then Some None
      else if p_peek_at p (i + 1) = Tk_RParen then Some (Some (count + 1, i + 2))
      else if p_peek_at p (i + 1) \<noteq> Tk_Comma then Some None
      else if p_peek_at p (i + 2) = Tk_RParen then Some (Some (count + 1, i + 3))
      else name_list_end (n - 1) p (i + 2) (count + 1))"
  "0 < n \<Longrightarrow> path_scan n p segs i =
     (if p_peek_at p i = Tk_Dot \<and> noninitial_path_segment_at p (i + 1)
      then path_scan (n - 1) p (segs + 1) (i + 2) else Some (segs, i))"
  by (cases n; simp add: One_nat_def)+

lemma bumps_step: "bumps 0 p = POk () p" "0 < n \<Longrightarrow> bumps n p = seqP bump (bumps (n - 1)) p"
  by (simp add: retP_def) (cases n; simp add: One_nat_def)

lemma more_segments_step:
  "more_segments 0 segs p = POk segs p"
  "0 < n \<Longrightarrow> more_segments n segs p =
     seqP (expect Tk_Dot (quoted ''.''))
     (bindP (parse_noninitial_path_segment ''type name'') (\<lambda>i. more_segments (n - 1) (segs @ [i]))) p"
  by (simp add: retP_def) (cases n; simp add: One_nat_def)

lemmas method_run =
  retP_def noneP_def bindP_def fun_cong [OF seqP_def] attemptP_def fun_cong [OF optP_def]
  readP_def loopP_def fun_cong [OF spanP_def] fun_cong [OF prev_spanP_def] fun_cong [OF bump_def]
  fun_cong [OF eat_def] errorP_def fun_cong [OF error_here_def] fun_cong [OF expect_def]
  fun_cong [OF eat_stmt_end_def] fun_cong [OF skip_ends_def] fun_cong [OF expect_stmt_end_def]
  fun_cong [OF take_if_def] fun_cong [OF skip_until_def] fun_cong [OF span_from_def]
  reject_identifier_def fun_cong [OF parse_ident_def] fun_cong [OF parse_referenced_ident_def]
  fun_cong [OF parse_noninitial_path_segment_def] fun_cong [OF path_rest_def]
  fun_cong [OF parse_path_def] fun_cong [OF parse_path_some_def] fun_cong [OF failP_def]
  fun_cong [OF fail_here_def] fun_cong [OF parse_cast_type_def] fun_cong [OF array_length_def]
  fun_cong [OF array_separator_def] fun_cong [OF parse_array_type_def]
  fun_cong [OF fn_type_mode_def] fun_cong [OF comma_list_def] fun_cong [OF parse_fn_type_def]
  fun_cong [OF more_elements_def] fun_cong [OF parse_paren_type_def]
  fun_cong [OF parse_named_type_def] fun_cong [OF parse_type_def] with_nsl_def guard_depth_def
  scanP_def fun_cong [OF ending_here_def] fun_cong [OF parse_delimited_expr_def]
  fun_cong [OF negative_literal_def] fun_cong [OF positive_literal_def]
  fun_cong [OF parse_pattern_literal_def] fun_cong [OF range_pattern_def]
  fun_cong [OF parse_single_value_pattern_def] fun_cong [OF pipe_list_def]
  fun_cong [OF value_patterns_def] fun_cong [OF or_pattern_name_def]
  fun_cong [OF line_comma_list_def] fun_cong [OF discard_or_tail_def]
  fun_cong [OF payload_bindings_def] fun_cong [OF name_pattern_def]
  fun_cong [OF parse_arm_pattern_def] fun_cong [OF check_alignment_def]
  fun_cong [OF parse_align_attr_def] fun_cong [OF optional_type_def] fun_cong [OF parse_let_def]
  fun_cong [OF tuple_names_def] fun_cong [OF parse_let_tuple_def] fun_cong [OF exit_value_def]
  fun_cong [OF parse_return_def] fun_cong [OF parse_break_def] fun_cong [OF expr_stmt_def]
  fun_cong [OF let_stmt_def] fun_cong [OF block_turn_def] fun_cong [OF parse_block_def]
  fun_cong [OF hole_rest_def] parse_hole_expr_def fun_cong [OF parse_part_def]
  fun_cong [OF template_expr_def] fun_cong [OF field_init_turn_def]
  fun_cong [OF parse_struct_lit_def] fun_cong [OF ident_expr_def] fun_cong [OF lambda_params_def]
  fun_cong [OF lambda_expr_def] fun_cong [OF keyword_block_def] fun_cong [OF arena_expr_def]
  fun_cong [OF float_options_def] fun_cong [OF float_expr_def] fun_cong [OF paren_expr_def]
  fun_cong [OF array_expr_def] fun_cong [OF parse_match_arm_def] fun_cong [OF parse_match_def]
  fun_cong [OF block_expr_def] fun_cong [OF else_branch_def] fun_cong [OF parse_if_def]
  fun_cong [OF parse_primary_def] fun_cong [OF call_suffix_def] fun_cong [OF field_suffix_def]
  fun_cong [OF tuple_suffix_def] fun_cong [OF slice_end_def] fun_cong [OF slice_rest_def]
  fun_cong [OF bracket_suffix_def] fun_cong [OF postfix_turn_def] fun_cong [OF parse_postfix_def]
  fun_cong [OF parse_prefix_inner_def] fun_cong [OF parse_prefix_def] fun_cong [OF parse_cast_def]
  fun_cong [OF binary_turn_def] fun_cong [OF else_unwrap_def] fun_cong [OF parse_expr_inner_def]
  fun_cong [OF parse_expr_def] fun_cong [OF type_param_decl_def]
  fun_cong [OF type_params_decl_def] fun_cong [OF parse_test_def] fun_cong [OF parse_resource_def]
  fun_cong [OF parse_const_def] fun_cong [OF parse_layout_attr_def]
  fun_cong [OF parse_type_attrs_def] fun_cong [OF brace_list_def]
  fun_cong [OF parse_field_def_def] fun_cong [OF parse_variant_def_def] fun_cong [OF error_if_def]
  fun_cong [OF parse_type_decl_def] fun_cong [OF param_mode_at_def] fun_cong [OF parse_param_def]
  fun_cong [OF return_type_def] fun_cong [OF parse_fn_body_def] fun_cong [OF parse_fn_def]
  fun_cong [OF parse_link_clause_def] fun_cong [OF parse_extern_sig_def]
  fun_cong [OF extern_sigs_def] fun_cong [OF parse_extern_def] fun_cong [OF item_after_vis_def]
  fun_cong [OF parse_item_def] fun_cong [OF parse_module_def] fun_cong [OF parse_imports_def]
  fun_cong [OF items_turn_def] fun_cong [OF parse_file_items_def]

lemmas token_run =
  parser_new_def p_peek_def p_peek_at_def p_at_def p_at_stmt_end_def p_span_def p_prev_span_def
  is_identifier_def identifier_at_def as_ident_def as_str_def as_int_def as_char_def as_float_def
  reserved_word_def reserved_words_def MAX_EXPR_DEPTH_def literal_kind_def prefix_op_def binop_def
  single_binops_def recovered_name_def noninitial_path_segment_at_def foreign_loop_word_def
  looks_like_destructure_def looks_like_aligned_binding_def binding_at_def struct_lit_path_len_def
  at_value_pattern_def opt_snoc_def follows_name_def mk_ident_def name_expr_def starts_type_def

lemmas parser_run = iterP_step knot_step scan_step bumps_step more_segments_step method_run token_run

end
