(* ===== verification/Formatter_Example.thy ===== *)
theory Formatter_Example
  imports Formatter Parser_Eval
begin

section \<open>A program the formatter changes\<close>

text \<open>
  A statement that ends in \<open>;\<close>, followed on the next line by one that starts with a minus. The
  formatter takes a \<open>;\<close> in front of a line break for redundant and drops it; the lexer reads the
  second line as a continuation of the first.
\<close>

declare One_nat_def [simp del]

definition kept_apart :: bytes where
  "kept_apart = ''fn f() {'' @ [CHR 0x0A] @ ''  x := a;'' @ [CHR 0x0A] @ ''  -b;'' @ [CHR 0x0A] @
     ''  return x'' @ [CHR 0x0A] @ ''}'' @ [CHR 0x0A]"

definition run_together :: bytes where
  "run_together = ''fn f() {'' @ [CHR 0x0A] @ ''  x := a'' @ [CHR 0x0A] @ ''  -b'' @ [CHR 0x0A] @
     ''  return x'' @ [CHR 0x0A] @ ''}'' @ [CHR 0x0A]"

definition tok_at :: "tok_kind \<Rightarrow> nat \<Rightarrow> nat \<Rightarrow> token" where
  "tok_at k lo hi = \<lparr>tk_kind = k, tk_span = \<lparr>span_file = 0, span_lo = lo, span_hi = hi\<rparr>, tk_radix = None\<rparr>"

definition name_at :: "bytes \<Rightarrow> nat \<Rightarrow> nat \<Rightarrow> ident" where
  "name_at s lo hi = \<lparr>id_name = s, id_span = \<lparr>span_file = 0, span_lo = lo, span_hi = hi\<rparr>\<rparr>"

definition var_at :: "bytes \<Rightarrow> nat \<Rightarrow> nat \<Rightarrow> expr" where
  "var_at s lo hi =
     (let sp = \<lparr>span_file = 0, span_lo = lo, span_hi = hi\<rparr>
      in Expr (E_Path \<lparr>path_segments = [name_at s lo hi], path_span = sp\<rparr>) sp)"

definition fn_file :: "stmt list \<Rightarrow> nat \<Rightarrow> ast_file" where
  "fn_file stmts hi =
     \<lparr>af_module = None, af_imports = [],
      af_items = [It_Fn \<lparr>fd_vis = Vis_Private, fd_name = name_at ''f'' 3 4, fd_type_params = [], fd_params = [],
        fd_ret = None, fd_body = FB_Block (Block stmts None \<lparr>span_file = 0, span_lo = 7, span_hi = hi\<rparr>),
        fd_span = \<lparr>span_file = 0, span_lo = 0, span_hi = hi\<rparr>\<rparr>]\<rparr>"

definition apart_tokens :: "token list" where
  "apart_tokens =
     [tok_at Tk_Fn 0 2, tok_at (Tk_Ident ''f'') 3 4, tok_at Tk_LParen 4 5, tok_at Tk_RParen 5 6,
      tok_at Tk_LBrace 7 8, tok_at (Tk_Ident ''x'') 11 12, tok_at Tk_ColonEq 13 15,
      tok_at (Tk_Ident ''a'') 16 17, tok_at Tk_Semicolon 17 18, tok_at Tk_Minus 21 22,
      tok_at (Tk_Ident ''b'') 22 23, tok_at Tk_Semicolon 23 24, tok_at Tk_Return 27 33,
      tok_at (Tk_Ident ''x'') 34 35, tok_at Tk_End 36 36, tok_at Tk_RBrace 36 37, tok_at Tk_End 38 38,
      tok_at Tk_Eof 38 38]"

definition together_tokens :: "token list" where
  "together_tokens =
     [tok_at Tk_Fn 0 2, tok_at (Tk_Ident ''f'') 3 4, tok_at Tk_LParen 4 5, tok_at Tk_RParen 5 6,
      tok_at Tk_LBrace 7 8, tok_at (Tk_Ident ''x'') 11 12, tok_at Tk_ColonEq 13 15,
      tok_at (Tk_Ident ''a'') 16 17, tok_at Tk_Minus 20 21, tok_at (Tk_Ident ''b'') 21 22,
      tok_at Tk_End 23 23, tok_at Tk_Return 25 31, tok_at (Tk_Ident ''x'') 32 33, tok_at Tk_End 34 34,
      tok_at Tk_RBrace 34 35, tok_at Tk_End 36 36, tok_at Tk_Eof 36 36]"

definition apart_tree :: ast_file where
  "apart_tree = fn_file
     [S_Let False (name_at ''x'' 11 12) None (var_at ''a'' 16 17) None,
      S_Expr (Expr (E_Unary Un_Neg (var_at ''b'' 22 23)) \<lparr>span_file = 0, span_lo = 21, span_hi = 23\<rparr>),
      S_Return (Some (var_at ''x'' 34 35))] 37"

definition together_tree :: ast_file where
  "together_tree = fn_file
     [S_Let False (name_at ''x'' 11 12) None
        (Expr (E_Binary Op_Sub (var_at ''a'' 16 17) (var_at ''b'' 21 22)) \<lparr>span_file = 0, span_lo = 16, span_hi = 22\<rparr>)
        None,
      S_Return (Some (var_at ''x'' 32 33))] 35"

lemmas tree_at = fn_file_def var_at_def name_at_def Let_def

lemma apart_lexed: "tokenize 0 kept_apart [] = Some (apart_tokens, [])"
  by code_simp

lemma together_lexed: "tokenize 0 run_together [] = Some (together_tokens, [])"
  by code_simp

lemma weights: "weight (parser_new apart_tokens []) = 18" "weight (parser_new together_tokens []) = 17"
  by (simp_all add: weight_def parser_new_def apart_tokens_def together_tokens_def tok_at_def tok_weight_def as_str_def)

lemma apart_items:
  "parse_file_items (knot 18) (parser_new apart_tokens []) = POk apart_tree (p_advance (parser_new apart_tokens []) 17)"
  by (simp add: apart_tokens_def tok_at_def apart_tree_def tree_at p_advance_def parser_run
      split del: if_split del: iterP.simps)

lemma together_items:
  "parse_file_items (knot 17) (parser_new together_tokens []) =
     POk together_tree (p_advance (parser_new together_tokens []) 16)"
  by (simp add: together_tokens_def tok_at_def together_tree_def tree_at p_advance_def parser_run
      split del: if_split del: iterP.simps)

lemma advanced_diags: "ps_diags (p_advance (parser_new ts ds) k) = ds"
  by (simp add: p_advance_def parser_new_def)

lemma apart_parsed_on: "parse_file_on 18 apart_tokens [] = Returned apart_tree []"
proof -
  have "cap_expr_depths apart_tree [] = (apart_tree, [])" by code_simp
  then show ?thesis by (simp add: parse_file_on_def apart_items advanced_diags)
qed

lemma apart_parsed: "parse_file apart_tokens [] = Some (apart_tree, [])"
  by (simp add: parse_file_def weights apart_parsed_on)

lemma together_parsed: "parse_file together_tokens [] = Some (together_tree, [])"
proof -
  have "cap_expr_depths together_tree [] = (together_tree, [])" by code_simp
  then show ?thesis
    by (simp add: parse_file_def parse_file_on_def weights together_items advanced_diags)
qed

lemma apart_printed: "run_formatter kept_apart (collect apart_tree kept_apart) apart_tokens = Some run_together"
  by code_simp

lemma same_texts:
  "\<exists>texts. sig_texts apart_tokens kept_apart (collect apart_tree kept_apart) = Some texts \<and>
     sig_texts together_tokens run_together (collect together_tree run_together) = Some texts"
proof -
  have "sig_texts apart_tokens kept_apart (collect apart_tree kept_apart) =
      sig_texts together_tokens run_together (collect together_tree run_together)" by code_simp
  moreover have "sig_texts apart_tokens kept_apart (collect apart_tree kept_apart) \<noteq> None" by code_simp
  ultimately show ?thesis by auto
qed

lemma apart_formatted: "format_source 0 kept_apart = Some (Some run_together)"
proof -
  obtain x where "sig_texts apart_tokens kept_apart (collect apart_tree kept_apart) = Some x"
    "sig_texts together_tokens run_together (collect together_tree run_together) = Some x"
    using same_texts by blast
  then show ?thesis
    by (simp add: format_source_def apart_lexed apart_parsed apart_printed together_lexed together_parsed
        has_errors_def Let_def)
qed

text \<open>The statements of the function a file consists of.\<close>

definition body_stmts :: "ast_file \<Rightarrow> stmt list" where
  "body_stmts tree =
     (case af_items tree of
        [It_Fn d] \<Rightarrow> (case fd_body d of FB_Block (Block stmts _ _) \<Rightarrow> stmts | _ \<Rightarrow> [])
      | _ \<Rightarrow> [])"

text \<open>
  The source binds \<open>x\<close> to \<open>a\<close>, evaluates \<open>-b\<close> and returns \<open>x\<close>: three statements. It lexes and parses
  without a report and is formatted; what comes out lexes and parses without a report and has the
  same significant tokens, but two statements: \<open>x\<close> is bound to \<open>a - b\<close>.
\<close>

lemma formatter_changes_meaning:
  "format_source 0 kept_apart = Some (Some run_together) \<and>
     (\<exists>ts tree ts' tree' texts. tokenize 0 kept_apart [] = Some (ts, []) \<and> parse_file ts [] = Some (tree, []) \<and>
        tokenize 0 run_together [] = Some (ts', []) \<and> parse_file ts' [] = Some (tree', []) \<and>
        sig_texts ts kept_apart (collect tree kept_apart) = Some texts \<and>
        sig_texts ts' run_together (collect tree' run_together) = Some texts \<and>
        body_stmts tree =
          [S_Let False (name_at ''x'' 11 12) None (var_at ''a'' 16 17) None,
           S_Expr (Expr (E_Unary Un_Neg (var_at ''b'' 22 23)) (span_new 0 21 23)),
           S_Return (Some (var_at ''x'' 34 35))] \<and>
        body_stmts tree' =
          [S_Let False (name_at ''x'' 11 12) None
             (Expr (E_Binary Op_Sub (var_at ''a'' 16 17) (var_at ''b'' 21 22)) (span_new 0 16 22)) None,
           S_Return (Some (var_at ''x'' 32 33))])"
proof -
  have "body_stmts apart_tree =
      [S_Let False (name_at ''x'' 11 12) None (var_at ''a'' 16 17) None,
       S_Expr (Expr (E_Unary Un_Neg (var_at ''b'' 22 23)) (span_new 0 21 23)),
       S_Return (Some (var_at ''x'' 34 35))]"
    "body_stmts together_tree =
      [S_Let False (name_at ''x'' 11 12) None
         (Expr (E_Binary Op_Sub (var_at ''a'' 16 17) (var_at ''b'' 21 22)) (span_new 0 16 22)) None,
       S_Return (Some (var_at ''x'' 32 33))]"
    by (simp_all add: body_stmts_def apart_tree_def together_tree_def fn_file_def span_new_def)
  with apart_formatted apart_lexed apart_parsed together_lexed together_parsed same_texts show ?thesis by blast
qed

text \<open>The tree of the source, which is parsed without an error, has the invariants of the nodes.\<close>

theorem parsed_tree_ok_witness:
  "parse_file_on 18 apart_tokens [] = Returned apart_tree [] \<and> capped_file_ok apart_tree \<and> file_ok apart_tree"
  using parsed_tree_ok [OF apart_parsed_on] apart_parsed_on by (simp add: has_errors_def)

end
