(* ===== verification/Formatter_Props.thy ===== *)
theory Formatter_Props
  imports Formatter_Gaps Formatter_Example
begin

section \<open>align\_fmt: properties\<close>

text \<open>
  The formatter's output is the significant tokens' texts in their order, with every comment of
  the source in its place and nothing else but spaces, line breaks and \<open>; \<close> between them; no
  comment runs into what follows it; and the formatter never panics.
\<close>

declare One_nat_def [simp del]

subsection \<open>Layouts\<close>

datatype piece = Pc_Text bytes | Pc_Comment bytes | Pc_Blank bytes | Pc_Semi

primrec piece_bytes :: "piece \<Rightarrow> bytes" where
  "piece_bytes (Pc_Text x) = x"
| "piece_bytes (Pc_Comment c) = c"
| "piece_bytes (Pc_Blank b) = b"
| "piece_bytes Pc_Semi = ''; ''"

definition render :: "piece list \<Rightarrow> bytes" where
  "render ps = concat (map piece_bytes ps)"

definition texts_of :: "piece list \<Rightarrow> bytes list" where
  "texts_of ps = concat (map (\<lambda>p. case p of Pc_Text x \<Rightarrow> [x] | _ \<Rightarrow> []) ps)"

definition comments_of :: "piece list \<Rightarrow> bytes list" where
  "comments_of ps = concat (map (\<lambda>p. case p of Pc_Comment c \<Rightarrow> [c] | _ \<Rightarrow> []) ps)"

text \<open>Blanks are spaces and newlines, and a comment is followed by a newline or by nothing.\<close>

definition blank_ok :: "piece \<Rightarrow> bool" where
  "blank_ok p \<longleftrightarrow> (\<forall>b. p = Pc_Blank b \<longrightarrow> set b \<subseteq> {CHR '' '', CHR 0x0A})"

definition starts_line :: "piece \<Rightarrow> bool" where
  "starts_line p \<longleftrightarrow> (\<exists>b. p = Pc_Blank (CHR 0x0A # b))"

fun lines_ok :: "piece list \<Rightarrow> bool" where
  "lines_ok (p # q # ps) \<longleftrightarrow> ((\<exists>c. p = Pc_Comment c) \<longrightarrow> starts_line q) \<and> lines_ok (q # ps)"
| "lines_ok ps \<longleftrightarrow> True"

definition after_comment :: "piece list \<Rightarrow> bool" where
  "after_comment ps \<longleftrightarrow> ps \<noteq> [] \<and> (\<exists>c. last ps = Pc_Comment c)"

lemma layout_simps [simp]:
  "render [] = []" "render (ps @ qs) = render ps @ render qs" "render (p # ps) = piece_bytes p @ render ps"
  "texts_of [] = []" "texts_of (ps @ qs) = texts_of ps @ texts_of qs" "comments_of [] = []"
  "comments_of (ps @ qs) = comments_of ps @ comments_of qs"
  "texts_of (Pc_Text x # ps) = x # texts_of ps" "texts_of (Pc_Comment x # ps) = texts_of ps"
  "texts_of (Pc_Blank x # ps) = texts_of ps" "texts_of (Pc_Semi # ps) = texts_of ps"
  "comments_of (Pc_Text x # ps) = comments_of ps" "comments_of (Pc_Comment x # ps) = x # comments_of ps"
  "comments_of (Pc_Blank x # ps) = comments_of ps" "comments_of (Pc_Semi # ps) = comments_of ps"
  by (simp_all add: render_def texts_of_def comments_of_def)

lemma after_comment_simps [simp]:
  "\<not> after_comment []" "after_comment (ps @ [p]) \<longleftrightarrow> (\<exists>c. p = Pc_Comment c)"
  by (simp_all add: after_comment_def)

lemma lines_ok_snoc: "lines_ok (ps @ [p]) \<longleftrightarrow> lines_ok ps \<and> (after_comment ps \<longrightarrow> starts_line p)"
  by (induction ps rule: lines_ok.induct) (auto simp: after_comment_def)

text \<open>What the formatter has written so far is a layout; after a comment the line is not ended yet.\<close>

definition laid :: "piece list \<Rightarrow> formatter \<Rightarrow> bool" where
  "laid ps fm \<longleftrightarrow> fm_out fm = render ps \<and> list_all blank_ok ps \<and> lines_ok ps \<and> list_all (\<lambda>p. valid_utf8 (piece_bytes p)) ps \<and>
     (after_comment ps \<longrightarrow> fm_out fm \<noteq> [] \<and> last (fm_out fm) \<noteq> CHR 0x0A)"

lemma ends_with_single: "ends_with s [x] \<longleftrightarrow> s \<noteq> [] \<and> last s = x"
  by (cases s rule: rev_cases) (auto simp: ends_with_def)

lemma laid_depth [simp]: "laid ps (fm\<lparr>fm_depth := d\<rparr>) = laid ps fm"
  by (simp add: laid_def)

lemma valid_ascii: "\<forall>c\<in>set b. val c < 128 \<Longrightarrow> valid_utf8 b"
proof (induction b)
  case (Cons c b)
  have "valid_utf8 [c]"
    using Cons.prems valid_utf8_encode [of "val c"] by (simp add: encode_utf8_def is_scalar_def)
  with Cons valid_utf8_append [of "[c]" b] show ?case by simp
qed (simp add: valid_utf8_def)

lemma laid_push:
  assumes "laid ps fm" "blank_ok p" "after_comment ps \<longrightarrow> starts_line p" "valid_utf8 (piece_bytes p)"
    "\<And>c. p = Pc_Comment c \<Longrightarrow> proper_comment c"
  shows "laid (ps @ [p]) (push_str (piece_bytes p) fm)"
  using assms by (auto simp: laid_def push_str_def lines_ok_snoc proper_comment_def)

lemma laid_blank:
  assumes "laid ps fm" "set b \<subseteq> {CHR '' '', CHR 0x0A}" "after_comment ps \<longrightarrow> b \<noteq> [] \<and> hd b = CHR 0x0A"
  shows "laid (ps @ [Pc_Blank b]) (push_str b fm)"
proof -
  have "valid_utf8 b" using assms(2) by (intro valid_ascii) auto
  with laid_push [OF assms(1), of "Pc_Blank b"] assms(2,3) show ?thesis
    by (cases b) (auto simp: blank_ok_def starts_line_def)
qed

text \<open>A new line, with its indentation.\<close>

lemma push_str_push: "push_str y (push_str x fm) = push_str (x @ y) fm"
  by (simp add: push_str_def)

lemma break_line_push:
  "\<exists>b. break_line n fm = push_str b fm \<and> set b \<subseteq> {CHR 0x0A} \<and>
     (fm_out fm \<noteq> [] \<and> last (fm_out fm) \<noteq> CHR 0x0A \<longrightarrow> b \<noteq> [])"
proof -
  define b1 where "b1 = (if fm_out fm \<noteq> [] \<and> last (fm_out fm) \<noteq> CHR 0x0A then [CHR 0x0A] else [])"
  define b2 where "b2 = (if fm_out fm \<noteq> [] \<and> 2 \<le> n \<and> \<not> ends_with (fm_out fm @ b1) [CHR 0x0A, CHR 0x0A]
    then [CHR 0x0A] else [])"
  have "break_line n fm = push_str (b1 @ b2) fm"
    by (simp add: break_line_def Let_def b1_def b2_def ends_with_single push_str_def)
  moreover have "set (b1 @ b2) \<subseteq> {CHR 0x0A}" by (auto simp: b1_def b2_def split: if_splits)
  moreover have "fm_out fm \<noteq> [] \<and> last (fm_out fm) \<noteq> CHR 0x0A \<longrightarrow> b1 @ b2 \<noteq> []" by (simp add: b1_def)
  ultimately show ?thesis by blast
qed

lemma new_line:
  assumes "laid ps fm"
  shows "\<exists>b. laid (ps @ [Pc_Blank b]) (indent_line d c (break_line n fm)) \<and> fm_depth (indent_line d c (break_line n fm)) = fm_depth fm"
proof -
  obtain b where b: "break_line n fm = push_str b fm" "set b \<subseteq> {CHR 0x0A}"
    "fm_out fm \<noteq> [] \<and> last (fm_out fm) \<noteq> CHR 0x0A \<longrightarrow> b \<noteq> []" using break_line_push by blast
  let ?i = "concat (replicate (d + (if c then 1 else 0)) ''  '')"
  have "set ?i \<subseteq> {CHR '' ''}" by auto
  moreover have "after_comment ps \<Longrightarrow> b \<noteq> [] \<and> hd b = CHR 0x0A"
    using assms b(2,3) by (cases b) (auto simp: laid_def)
  ultimately have "laid (ps @ [Pc_Blank (b @ ?i)]) (push_str (b @ ?i) fm)"
    using b(2) by (intro laid_blank [OF assms]) auto
  then show ?thesis by (auto simp: indent_line_def b(1) push_str_push) (auto simp: push_str_def)
qed

subsection \<open>The emit pass\<close>

lemma emit_comment_laid:
  assumes "laid ps fm" "proper_comment c" "after_comment ps \<longrightarrow> 0 < n"
  shows "\<exists>b fm'. emit_comment c n fm = (0, fm') \<and> laid (ps @ [Pc_Blank b, Pc_Comment c]) fm'"
proof (cases "n = 0 \<and> \<not> at_line_start fm")
  case True
  then have "laid (ps @ [Pc_Blank '' '']) (push_str '' '' fm)" using assms by (intro laid_blank) auto
  from laid_push [OF this, of "Pc_Comment c"] assms(2) True
  show ?thesis by (auto simp: emit_comment_def push_str_push proper_comment_def blank_ok_def)
next
  case False
  obtain b where "laid (ps @ [Pc_Blank b]) (indent_line (fm_depth fm) False (break_line n fm))"
    using new_line [OF assms(1)] by blast
  from laid_push [OF this, of "Pc_Comment c"] assms(2) False
  show ?thesis by (auto simp: emit_comment_def proper_comment_def blank_ok_def)
qed

lemma emit_trivia_laid:
  assumes "laid ps fm" "events_ok evs" "after_comment ps \<and> n = 0 \<and> evs \<noteq> [] \<longrightarrow> hd evs = Tv_Newline"
  shows "\<exists>qs n' h' fm'. emit_trivia evs n h fm = (n', h', fm') \<and> laid (ps @ qs) fm' \<and>
    texts_of qs = [] \<and> comments_of qs = event_comments evs \<and>
    (after_comment (ps @ qs) \<and> n' = 0 \<longrightarrow> (if evs = [] then after_comment ps \<and> n = 0 else is_comment (last evs)))"
  using assms
proof (induction evs arbitrary: ps n h fm)
  case Nil
  then show ?case by (intro exI [of _ "[]"]) auto
next
  case (Cons ev evs)
  have ok: "events_ok evs" using Cons.prems(2) by (cases evs) (auto simp: events_ok_def)
  show ?case
  proof (cases ev)
    case Tv_Newline
    with Cons.IH [OF Cons.prems(1) ok, of "n + 1" h] show ?thesis by (fastforce split: if_splits)
  next
    case Tv_Semicolon
    with Cons.IH [OF Cons.prems(1) ok, of n True] Cons.prems(3) show ?thesis by (fastforce split: if_splits)
  next
    case (Tv_Comment c)
    then have "proper_comment c" "after_comment ps \<longrightarrow> 0 < n" using Cons.prems(2,3) by (auto simp: events_ok_def)
    from emit_comment_laid [OF Cons.prems(1) this] obtain b fm1 where
      e: "emit_comment c n fm = (0, fm1)" "laid (ps @ [Pc_Blank b, Pc_Comment c]) fm1" by blast
    have "evs \<noteq> [] \<longrightarrow> hd evs = Tv_Newline"
      using Cons.prems(2) Tv_Comment by (cases evs) (auto simp: events_ok_def is_comment_def)
    with Cons.IH [OF e(2) ok, of 0 h] obtain qs n' h' fm' where
      "emit_trivia evs 0 h fm1 = (n', h', fm')" "laid (ps @ [Pc_Blank b, Pc_Comment c] @ qs) fm'"
      "texts_of qs = []" "comments_of qs = event_comments evs"
      "after_comment (ps @ [Pc_Blank b, Pc_Comment c] @ qs) \<and> n' = 0 \<longrightarrow> evs = [] \<or> is_comment (last evs)"
      by (auto split: if_splits)
    then show ?thesis using Tv_Comment e(1)
      by (intro exI [of _ "[Pc_Blank b, Pc_Comment c] @ qs"]) (auto simp: is_comment_def)
  qed
qed

lemma sep_blank: "sep a p t = [] \<or> sep a p t = '' ''"
  by (simp add: sep_def Let_def)

lemma sep_laid: "laid ps fm \<Longrightarrow> \<not> after_comment ps \<Longrightarrow> laid (ps @ [Pc_Blank (sep a p t)]) (push_str (sep a p t) fm)"
  using sep_blank [of a p t] by (intro laid_blank) auto

text \<open>The layout in front of a token.\<close>

lemma lead_laid:
  assumes "laid ps fm" "\<not> (after_comment ps \<and> n = 0)"
  shows "\<exists>q. texts_of q = [] \<and> comments_of q = [] \<and> \<not> after_comment (ps @ q) \<and>
    laid (ps @ q) (if 0 < n \<or> at_line_start fm then indent_line (fm_depth fm) k (break_line n fm)
      else if h then push_str ''; '' fm
      else case prev of Some p \<Rightarrow> push_str (sep a p t) fm | None \<Rightarrow> fm)"
proof -
  consider (line) "0 < n \<or> at_line_start fm" | (semi) "n = 0" "\<not> at_line_start fm" h
    | (sep) p where "n = 0" "\<not> at_line_start fm" "\<not> h" "prev = Some p"
    | (none) "n = 0" "\<not> at_line_start fm" "\<not> h" "prev = None"
    by (cases prev) auto
  then show ?thesis
  proof cases
    case line
    obtain b where "laid (ps @ [Pc_Blank b]) (indent_line (fm_depth fm) k (break_line n fm))"
      using new_line [OF assms(1)] by blast
    with line show ?thesis by (intro exI [of _ "[Pc_Blank b]"]) auto
  next
    case semi
    have "valid_utf8 ''; ''" by (rule valid_ascii) auto
    with laid_push [OF assms(1), of Pc_Semi] semi assms(2) show ?thesis
      by (intro exI [of _ "[Pc_Semi]"]) (auto simp: blank_ok_def)
  next
    case (sep p)
    with sep_laid [OF assms(1), of a p t] assms(2) show ?thesis
      by (intro exI [of _ "[Pc_Blank (sep a p t)]"]) auto
  next
    case none
    with assms show ?thesis by (intro exI [of _ "[]"]) auto
  qed
qed

lemma emit_laid:
  assumes "laid ps fm" "\<not> after_comment ps" "scan_gap gap = Some evs" "events_ok evs"
    "\<not> (evs \<noteq> [] \<and> is_comment (last evs))" "token_text a src t = Some x" "valid_utf8 x"
  shows "\<exists>qs fm'. emit src a gap prev t fm = Some fm' \<and> laid (ps @ qs) fm' \<and> \<not> after_comment (ps @ qs) \<and>
    texts_of qs = [x] \<and> comments_of qs = event_comments evs"
proof -
  obtain qs n h fm1 where e: "emit_trivia evs 0 False fm = (n, h, fm1)" "laid (ps @ qs) fm1"
    "texts_of qs = []" "comments_of qs = event_comments evs" "\<not> (after_comment (ps @ qs) \<and> n = 0)"
    using emit_trivia_laid [OF assms(1,4), of 0 False] assms(2,5) by (auto split: if_splits)
  define fm2 where "fm2 = (if tk_kind t \<in> {Tk_RBrace, Tk_RParen, Tk_RBracket}
    then fm1\<lparr>fm_depth := fm_depth fm1 - 1\<rparr> else fm1)"
  have "laid (ps @ qs) fm2" using e(2) by (simp add: fm2_def)
  define fm3 where "fm3 = (if 0 < n \<or> at_line_start fm2
    then indent_line (fm_depth fm2) (is_continuation a t) (break_line n fm2)
    else if h then push_str ''; '' fm2
    else case prev of Some p \<Rightarrow> push_str (sep a p t) fm2 | None \<Rightarrow> fm2)"
  obtain q where q: "texts_of q = []" "comments_of q = []" "\<not> after_comment ((ps @ qs) @ q)"
    "laid ((ps @ qs) @ q) fm3"
    using lead_laid [OF \<open>laid (ps @ qs) fm2\<close> e(5), where k = "is_continuation a t" and h = h and prev = prev and a = a and t = t] unfolding fm3_def by blast
  define fm4 where "fm4 = push_str x fm3"
  have "laid (((ps @ qs) @ q) @ [Pc_Text x]) fm4"
    using laid_push [OF q(4), of "Pc_Text x"] q(3) assms(7) by (simp add: fm4_def blank_ok_def)
  moreover have "emit src a gap prev t fm =
      Some (if tk_kind t \<in> {Tk_LBrace, Tk_LParen, Tk_LBracket} then fm4\<lparr>fm_depth := fm_depth fm4 + 1\<rparr> else fm4)"
    unfolding emit_def fm4_def fm3_def fm2_def by (simp only: assms(3,6) e(1) Let_def Option.bind.simps prod.case)
  moreover have "\<not> after_comment (((ps @ qs) @ q) @ [Pc_Text x])" by (simp add: after_comment_def)
  ultimately show ?thesis using e(3,4) q(1,2) by (intro exI [of _ "qs @ q @ [Pc_Text x]"]) (simp_all add: after_comment_def)
qed

text \<open>The comments of a source: those in the gaps between the tokens that are printed.\<close>

primrec source_comments :: "bytes \<Rightarrow> token list \<Rightarrow> nat \<Rightarrow> bytes list" where
  "source_comments s [] p = gap_comments (drop p s)"
| "source_comments s (t # ts) p =
     gap_comments (stretch s p (span_lo (tk_span t))) @ source_comments s ts (span_hi (tk_span t))"

text \<open>
  The text of a token: the source at its span, except where an option of \<open>float\<close> has been given a
  place in the canonical order.
\<close>

definition printed_text :: "annotations \<Rightarrow> bytes \<Rightarrow> token \<Rightarrow> bytes" where
  "printed_text a s t =
     (case an_float_text a (span_lo (tk_span t)) of
        Some x \<Rightarrow> x
      | None \<Rightarrow> stretch s (span_lo (tk_span t)) (span_hi (tk_span t)))"

definition canonical_text :: "annotations \<Rightarrow> bool" where
  "canonical_text a \<longleftrightarrow> (\<forall>lo x. an_float_text a lo = Some x \<longrightarrow> x = ''reassoc'' \<or> x = ''contract'')"

lemma option_names_valid: "valid_utf8 ''reassoc''" "valid_utf8 ''contract''"
  by (rule valid_ascii, simp)+

lemma token_text_ok:
  assumes "sig_ok s p (t # ts)" "valid_utf8 s" "canonical_text a"
  shows "token_text a s t = Some (printed_text a s t)" "valid_utf8 (printed_text a s t)"
proof -
  note x = sig_ok_text [OF assms(1,2)]
  show "token_text a s t = Some (printed_text a s t)"
    using x by (simp add: token_text_def printed_text_def split: option.split)
  show "valid_utf8 (printed_text a s t)"
    using x assms(3) option_names_valid by (auto simp: printed_text_def canonical_text_def split: option.split)
qed

lemma emit_tokens_laid:
  assumes "sig_ok s p ts" "valid_utf8 s" "canonical_text a" "laid ps fm" "\<not> after_comment ps"
  shows "\<exists>qs q fm' xs. emit_tokens s a ts p prev fm = Some (q, fm') \<and> laid (ps @ qs) fm' \<and>
    \<not> after_comment (ps @ qs) \<and> those_texts a s ts = Some xs \<and> xs = map (printed_text a s) ts \<and>
    texts_of qs = xs \<and> q \<le> length s \<and> clean s q \<and>
    source_comments s ts p = comments_of qs @ gap_comments (drop q s)"
  using assms
proof (induction ts arbitrary: p prev fm ps)
  case Nil
  then show ?case by (intro exI [of _ "[]"]) simp
next
  case (Cons t ts)
  obtain evs where g: "clamped s p (span_lo (tk_span t)) = Some (stretch s p (span_lo (tk_span t)))"
    "scan_gap (stretch s p (span_lo (tk_span t))) = Some evs" "events_ok evs" "\<not> (evs \<noteq> [] \<and> is_comment (last evs))"
    using sig_ok_gap [OF Cons.prems(1,2)] by blast
  define x where "x = printed_text a s t"
  have x: "token_text a s t = Some x" "valid_utf8 x" using token_text_ok [OF Cons.prems(1-3)] by (simp_all add: x_def)
  obtain qs fm1 where e: "emit s a (stretch s p (span_lo (tk_span t))) prev t fm = Some fm1" "laid (ps @ qs) fm1"
    "\<not> after_comment (ps @ qs)" "texts_of qs = [x]" "comments_of qs = event_comments evs"
    using emit_laid [OF Cons.prems(4,5) g(2-4) x] by blast
  have "sig_ok s (span_hi (tk_span t)) ts" using Cons.prems(1) by (simp add: Let_def)
  from Cons.IH [OF this Cons.prems(2,3) e(2,3), of "Some t"] obtain rs q fm' xs where
    r: "emit_tokens s a ts (span_hi (tk_span t)) (Some t) fm1 = Some (q, fm')" "laid ((ps @ qs) @ rs) fm'"
    "\<not> after_comment ((ps @ qs) @ rs)" "those_texts a s ts = Some xs" "xs = map (printed_text a s) ts"
    "texts_of rs = xs" "q \<le> length s" "clean s q"
    "source_comments s ts (span_hi (tk_span t)) = comments_of rs @ gap_comments (drop q s)" by blast
  then show ?case using g(1) x(1) e scan_gap_comments [OF g(2)]
    by (intro exI [of _ "qs @ rs"] exI [of _ q] exI [of _ fm'] exI [of _ "x # xs"]) (simp add: x_def)
qed

definition strip_newlines :: "bytes \<Rightarrow> bytes" where
  "strip_newlines s = rev (dropWhile (\<lambda>c. c = CHR 0x0A) (rev s))"

lemma run_formatter_laid:
  assumes "sig_ok s 0 (filter (\<lambda>t. \<not> is_skipped a t) ts)" "valid_utf8 s" "canonical_text a"
  shows "\<exists>ps. run_formatter s a ts = Some (strip_newlines (render ps) @ [CHR 0x0A]) \<and>
    list_all blank_ok ps \<and> lines_ok ps \<and> list_all (\<lambda>p. valid_utf8 (piece_bytes p)) ps \<and>
    sig_texts ts s a = Some (texts_of ps) \<and> texts_of ps = map (printed_text a s) (filter (\<lambda>t. \<not> is_skipped a t) ts) \<and>
    comments_of ps = source_comments s (filter (\<lambda>t. \<not> is_skipped a t) ts) 0"
proof -
  let ?sig = "filter (\<lambda>t. \<not> is_skipped a t) ts"
  have "laid [] \<lparr>fm_out = [], fm_depth = 0\<rparr>" by (simp add: laid_def)
  from emit_tokens_laid [OF assms this, of None] obtain ps q fm xs where
    e: "emit_tokens s a ?sig 0 None \<lparr>fm_out = [], fm_depth = 0\<rparr> = Some (q, fm)" "laid ps fm" "\<not> after_comment ps"
    "those_texts a s ?sig = Some xs" "texts_of ps = xs" "q \<le> length s" "clean s q"
    "source_comments s ?sig 0 = comments_of ps @ gap_comments (drop q s)" "xs = map (printed_text a s) ?sig" by auto
  have v: "valid_utf8 (drop q s)" using clean_boundary [OF assms(2) e(7,6)] by (simp add: boundary_def)
  obtain evs where ev: "scan_gap (drop q s) = Some evs" "events_ok evs" using scan_gap_ok [OF v] by blast
  obtain qs n h fm1 where t: "emit_trivia evs 0 False fm = (n, h, fm1)" "laid (ps @ qs) fm1" "texts_of qs = []"
    "comments_of qs = event_comments evs"
    using emit_trivia_laid [OF e(2) ev(2), of 0 False] e(3) by auto
  have g: "str_get s (min q (length s)) (length s) = Some (drop q s)"
    using valid_slice(2) [OF assms(2) e(7) _ e(6) order_refl] e(6) by (simp add: clean_def)
  have "run_formatter s a ts = Some (strip_newlines (fm_out fm1) @ [CHR 0x0A])"
    by (simp add: run_formatter_def e(1) g emit_trailing_def ev(1) t(1) strip_newlines_def)
  with t e ev scan_gap_comments [OF ev(1)] show ?thesis
    by (intro exI [of _ "ps @ qs"]) (auto simp: laid_def sig_texts_def)
qed

subsection \<open>Annotations\<close>

text \<open>The only texts the annotations put in the place of a token's own are the two option names.\<close>

lemma visit_opt_inv: "P a \<Longrightarrow> (\<And>x a. o' = Some x \<Longrightarrow> P a \<Longrightarrow> P (f x a)) \<Longrightarrow> P (visit_opt f o' a)"
  by (auto simp: visit_opt_def split: option.split)

lemma fold_inv: "P a \<Longrightarrow> (\<And>x a. x \<in> set xs \<Longrightarrow> P a \<Longrightarrow> P (f x a)) \<Longrightarrow> P (fold f xs a)"
  by (induction xs arbitrary: a) auto

lemmas canonical_inv = fold_inv [where P = canonical_text] visit_opt_inv [where P = canonical_text]

lemma canonical_steps:
  "canonical_text a \<Longrightarrow> canonical_text (add_range lo hi a)"
  "canonical_text a \<Longrightarrow> canonical_text (note_unary sp a)"
  "canonical_text a \<Longrightarrow> canonical_text (a\<lparr>an_semicolons := x\<rparr>)"
  "canonical_text a \<Longrightarrow> canonical_text (visit_generics ps src a)"
  by (simp_all add: canonical_text_def add_range_def note_unary_def visit_generics_def Let_def)

lemma canonical_float: "canonical_text a \<Longrightarrow> canonical_text (note_float_options ps a)"
  by (simp add: canonical_text_def note_float_options_def)

lemma canonical_type: "canonical_text a \<Longrightarrow> canonical_text (visit_type t a)"
  and canonical_fn_param: "canonical_text a \<Longrightarrow> canonical_text (visit_fn_param p a)"
  by (induction t a and p a rule: visit_type_visit_fn_param.induct)
    (auto intro!: canonical_steps canonical_inv)

lemma canonical_lambda: "canonical_text a \<Longrightarrow> canonical_text (visit_lambda_params ps a)"
  unfolding visit_lambda_params_def by (intro canonical_inv canonical_type)

lemma canonical_expr:
  "canonical_text a \<Longrightarrow> canonical_text (visit_expr e a)" "canonical_text a \<Longrightarrow> canonical_text (visit_block b a)"
  "canonical_text a \<Longrightarrow> canonical_text (visit_stmt s a)" "canonical_text a \<Longrightarrow> canonical_text (visit_field f a)"
  "canonical_text a \<Longrightarrow> canonical_text (visit_arm m a)" "canonical_text a \<Longrightarrow> canonical_text (visit_part p a)"
  by (induction e a and b a and s a and f a and m a and p a
      rule: visit_expr_visit_block_visit_stmt_visit_field_visit_arm_visit_part.induct)
    (auto simp: visit_expr.simps visit_block.simps visit_stmt.simps
      intro!: canonical_steps canonical_float canonical_type canonical_lambda canonical_inv)

lemma canonical_item: "canonical_text a \<Longrightarrow> canonical_text (visit_item src i a)"
  by (cases i)
    (auto simp: visit_body_def visit_signature_def split: fn_body.split
      intro!: canonical_expr canonical_steps canonical_type canonical_inv)

lemma canonical_collect: "canonical_text (collect tree src)"
  unfolding collect_def
  by (rule canonical_inv) (simp add: canonical_text_def no_annotations_def, rule canonical_item)

subsection \<open>The entry point\<close>

text \<open>A file without errors was lexed without a report.\<close>

lemma clean_file:
  assumes "tokenize f s [] = Some (ts, ds1)" "parse_file ts ds1 = Some (tree, ds2)" "\<not> has_errors ds2" "valid_utf8 s"
  shows "ds1 = []"
proof -
  obtain lx where "lex_run_loop (lx_init f s) [] = Some (lx, ds1)" using assms(1) by (rule tokenize_loop)
  then have e: "\<forall>e\<in>set ds1. severity_of e = Error" using lex_run_loop_frame by (fastforce simp: errs_only_def)
  obtain tr q where r: "pstep (parser_new ts ds1) q" "parse_file ts ds1 = Some (cap_expr_depths tr (ps_diags q))"
    using parse_file_run [OF tokenize_weight(2) [OF assms(1,4)]] by blast
  have "\<exists>es. ps_diags q = ds1 @ es" using r(1) by (auto simp: pstep_def parser_new_def)
  moreover have "ds2 = snd (cap_expr_depths tr (ps_diags q))" using r(2) assms(2) by (metis option.inject snd_conv)
  then have "\<exists>es. ds2 = ps_diags q @ es" using cap_walk(1) [of tr "ps_diags q"] by auto
  ultimately obtain es where "ds2 = ds1 @ es" by auto
  with assms(3) e show ?thesis by (cases ds1) (auto simp: has_errors_def list_ex_iff)
qed

lemma render_valid: "list_all (\<lambda>p. valid_utf8 (piece_bytes p)) ps \<Longrightarrow> valid_utf8 (render ps)"
  by (induction ps) (simp_all add: valid_utf8_append, simp add: valid_utf8_def)

lemma strip_valid: "valid_utf8 s \<Longrightarrow> valid_utf8 (strip_newlines s)"
proof -
  assume v: "valid_utf8 s"
  let ?n = "length (strip_newlines s)"
  have s: "s = strip_newlines s @ rev (takeWhile (\<lambda>c. c = CHR 0x0A) (rev s))"
    unfolding strip_newlines_def by (metis rev_append rev_rev_ident takeWhile_dropWhile_id)
  have "clean s ?n"
  proof -
    have "s ! ?n = CHR 0x0A" if "?n < length s"
    proof -
      have "rev (takeWhile (\<lambda>c. c = CHR 0x0A) (rev s)) \<noteq> []" using s that by (metis append_Nil2 less_irrefl)
      then show ?thesis using s
        by (metis (mono_tags, lifting) hd_in_set nth_append_length set_rev set_takeWhileD hd_Cons_tl)
    qed
    then show ?thesis by (auto simp: clean_def is_cont_def)
  qed
  then have "valid_utf8 (take ?n s)" using v s by (intro valid_prefix) (metis length_append le_add1)+
  then show ?thesis using s by (metis append_eq_conv_conj)
qed

lemma newline_valid: "valid_utf8 [CHR 0x0A]"
  by (rule valid_ascii) simp

text \<open>What the formatter prints for a file without errors.\<close>

lemma printed:
  assumes "tokenize f s [] = Some (ts, [])" "valid_utf8 s" "length s < 2 ^ 32"
  obtains ps out where "run_formatter s (collect tree s) ts = Some out"
    "out = strip_newlines (render ps) @ [CHR 0x0A]" "valid_utf8 out" "list_all blank_ok ps" "lines_ok ps"
    "sig_texts ts s (collect tree s) = Some (texts_of ps)"
    "texts_of ps = map (printed_text (collect tree s) s) (filter (\<lambda>t. \<not> is_skipped (collect tree s) t) ts)"
    "comments_of ps = source_comments s (filter (\<lambda>t. \<not> is_skipped (collect tree s) t) ts) 0"
proof -
  obtain ps where p: "run_formatter s (collect tree s) ts = Some (strip_newlines (render ps) @ [CHR 0x0A])"
    "list_all (\<lambda>p. valid_utf8 (piece_bytes p)) ps" "list_all blank_ok ps" "lines_ok ps"
    "sig_texts ts s (collect tree s) = Some (texts_of ps)"
    "texts_of ps = map (printed_text (collect tree s) s) (filter (\<lambda>t. \<not> is_skipped (collect tree s) t) ts)"
    "comments_of ps = source_comments s (filter (\<lambda>t. \<not> is_skipped (collect tree s) t) ts) 0"
    using run_formatter_laid [OF tokenize_sig [OF assms(1,3,2)] assms(2) canonical_collect] by blast
  moreover have "valid_utf8 (strip_newlines (render ps) @ [CHR 0x0A])"
    using p(2) by (intro valid_utf8_append strip_valid render_valid newline_valid)
  ultimately show thesis using that by blast
qed

lemma parse_returns:
  assumes "tokenize f s ds = Some (ts, ds')" "valid_utf8 s"
  obtains tree es where "parse_file ts ds' = Some (tree, es)"
  using parse_file_run [OF tokenize_weight(2) [OF assms]] by (metis surj_pair)

subsection \<open>Properties\<close>

text \<open>
  C3. What \<open>format_source\<close> returns for a source: the source lexes without a report and parses
  without an error, and the output, up to trailing newlines, is the texts of the source's
  significant tokens in their order, together with every comment of the source in its order
  without the whitespace at its end, and otherwise only spaces, newlines and \<open>; \<close>; no comment is
  followed by anything on its line. The text of a token is the source at its span, except that a
  \<open>float\<close> option may be printed as the name, \<open>reassoc\<close> or \<open>contract\<close>, that has its place in the
  canonical order. The comments are counted over the lines of the source between the tokens. The
  output lexes again to tokens with the same texts and parses without an error.
\<close>

theorem format_source_layout:
  assumes "format_source f src = Some (Some out)" and "valid_utf8 src" and "length src < 2 ^ 32"
  shows "\<exists>ts tree ds ps sig ts' ds1 tree' ds2.
     tokenize f src [] = Some (ts, []) \<and> parse_file ts [] = Some (tree, ds) \<and> \<not> has_errors ds \<and>
     out = strip_newlines (render ps) @ [CHR 0x0A] \<and> list_all blank_ok ps \<and> lines_ok ps \<and>
     sig = filter (\<lambda>t. \<not> is_skipped (collect tree src) t) ts \<and>
     texts_of ps = map (printed_text (collect tree src) src) sig \<and> canonical_text (collect tree src) \<and>
     comments_of ps = source_comments src sig 0 \<and>
     sig_texts ts src (collect tree src) = Some (texts_of ps) \<and>
     tokenize f out [] = Some (ts', ds1) \<and> parse_file ts' ds1 = Some (tree', ds2) \<and> \<not> has_errors ds2 \<and>
     sig_texts ts' out (collect tree' out) = Some (texts_of ps)"
proof -
  obtain ts ds1 where t: "tokenize f src [] = Some (ts, ds1)" using tokenize_returns by blast
  obtain tree ds where p: "parse_file ts ds1 = Some (tree, ds)" using parse_returns [OF t assms(2)] by blast
  have ok: "\<not> has_errors ds" using assms(1) t p by (auto simp: format_source_def)
  have d: "ds1 = []" using clean_file [OF t p ok assms(2)] .
  note t = t [unfolded d] and p = p [unfolded d]
  define sig where "sig = filter (\<lambda>t. \<not> is_skipped (collect tree src) t) ts"
  from printed [OF t assms(2,3), of "tree", folded sig_def] obtain ps out' where
    r: "run_formatter src (collect tree src) ts = Some out'" "out' = strip_newlines (render ps) @ [CHR 0x0A]"
    "list_all blank_ok ps" "lines_ok ps" "sig_texts ts src (collect tree src) = Some (texts_of ps)"
    "texts_of ps = map (printed_text (collect tree src) src) sig" "comments_of ps = source_comments src sig 0"
    by blast
  obtain ts' d1 tree' d2 where n: "tokenize f out' [] = Some (ts', d1)" "parse_file ts' d1 = Some (tree', d2)"
    "\<not> has_errors d2" "out' = out" "sig_texts ts' out' (collect tree' out') = Some (texts_of ps)"
    using assms(1) t p ok r(1,5)
    by (auto simp: format_source_def Let_def split: if_splits option.splits prod.splits bind_splits)
  from n r(2) t p ok r(3-7) canonical_collect [of "tree" src] sig_def show ?thesis by blast
qed

theorem format_source_layout_witness:
  "\<exists>ts tree ps. tokenize 0 kept_apart [] = Some (ts, []) \<and> parse_file ts [] = Some (tree, []) \<and>
     run_together = strip_newlines (render ps) @ [CHR 0x0A] \<and> list_all blank_ok ps \<and> lines_ok ps \<and>
     sig_texts ts kept_apart (collect tree kept_apart) = Some (texts_of ps)"
proof -
  have "valid_utf8 kept_apart" "length kept_apart < 2 ^ 32" by code_simp+
  from format_source_layout [OF apart_formatted this] apart_lexed apart_parsed show ?thesis by auto
qed

text \<open>
  C7. \<open>format_source\<close> returns on every source: for valid UTF-8 shorter than \<open>2 ^ 32\<close> bytes whose printed
  form is also that short, no slice is out of range or inside a character, in the source or in the
  printed form, so there is no panic.
\<close>

theorem format_source_total:
  assumes "valid_utf8 src" and "length src < 2 ^ 32"
    and "\<And>ts tree ds out. tokenize f src [] = Some (ts, []) \<Longrightarrow> parse_file ts [] = Some (tree, ds) \<Longrightarrow>
      run_formatter src (collect tree src) ts = Some out \<Longrightarrow> length out < 2 ^ 32"
  shows "format_source f src \<noteq> None"
proof -
  obtain ts ds1 where t: "tokenize f src [] = Some (ts, ds1)" using tokenize_returns by blast
  obtain tree ds where p: "parse_file ts ds1 = Some (tree, ds)" using parse_returns [OF t assms(1)] by blast
  show ?thesis
  proof (cases "has_errors ds")
    case True
    with t p show ?thesis by (simp add: format_source_def)
  next
    case ok: False
    have d: "ds1 = []" using clean_file [OF t p ok assms(1)] .
    note t = t [unfolded d] and p = p [unfolded d]
    from printed [OF t assms(1,2)] obtain ps out where r: "run_formatter src (collect tree src) ts = Some out"
      "valid_utf8 out" "sig_texts ts src (collect tree src) = Some (texts_of ps)" by blast
    obtain ts' d1 where t': "tokenize f out [] = Some (ts', d1)" using tokenize_returns by blast
    obtain tree' d2 where p': "parse_file ts' d1 = Some (tree', d2)" using parse_returns [OF t' r(2)] by blast
    show ?thesis
    proof (cases "has_errors d2")
      case True
      with t p ok r t' p' show ?thesis by (simp add: format_source_def Let_def)
    next
      case ok': False
      have d': "d1 = []" using clean_file [OF t' p' ok' r(2)] .
      obtain xs where "sig_texts ts' out (collect tree' out) = Some xs"
        using printed [OF t' [unfolded d'] r(2) assms(3) [OF t p r(1)]] by metis
      with t p ok r t' p' ok' show ?thesis by (simp add: format_source_def Let_def)
    qed
  qed
qed

theorem format_source_total_witness: "format_source 0 kept_apart \<noteq> None"
proof (rule format_source_total)
  show "valid_utf8 kept_apart" "length kept_apart < 2 ^ 32" by code_simp+
  have l: "length run_together < 2 ^ 32" by code_simp
  fix ts tree ds out
  assume "tokenize 0 kept_apart [] = Some (ts, [])" "parse_file ts [] = Some (tree, ds)"
    "run_formatter kept_apart (collect tree kept_apart) ts = Some out"
  with apart_lexed apart_parsed apart_printed l show "length out < 2 ^ 32" by simp
qed

end
