(* ===== verification/Time_Formats.thy ===== *)
theory Time_Formats
  imports Utf8
begin

section \<open>align\_runtime: wire formats of timestamps\<close>

text \<open>
  \<open>align_runtime/src/time_formats.rs\<close>: the UTC calendar and the five named wire formats, without
  the two entry points that read and write raw memory. An instant is a signed number of
  nanoseconds since 1970-01-01. Integers are \<open>int\<close>; where the code uses checked arithmetic or
  \<open>try_from\<close>, the range is tested, and elsewhere the comments of the code bound the values.
\<close>

declare One_nat_def [simp del]

subsection \<open>Calendar\<close>

definition SECOND :: int where
  "SECOND = 1000000000"

definition DAY :: int where
  "DAY = 86400 * SECOND"

definition MONTHS :: "bytes list" where
  "MONTHS = [''Jan'', ''Feb'', ''Mar'', ''Apr'', ''May'', ''Jun'', ''Jul'', ''Aug'', ''Sep'', ''Oct'', ''Nov'', ''Dec'']"

definition WEEKDAYS :: "bytes list" where
  "WEEKDAYS = [''Sun'', ''Mon'', ''Tue'', ''Wed'', ''Thu'', ''Fri'', ''Sat'']"

definition weekday_index :: "bytes \<Rightarrow> nat option" where
  "weekday_index name = map_of
     [(''Sun'', 0), (''Mon'', 1), (''Tue'', 2), (''Wed'', 3), (''Thu'', 4), (''Fri'', 5), (''Sat'', 6)] name"

definition month_index :: "bytes \<Rightarrow> nat option" where
  "month_index name = map_of
     [(''Jan'', 0), (''Feb'', 1), (''Mar'', 2), (''Apr'', 3), (''May'', 4), (''Jun'', 5), (''Jul'', 6),
      (''Aug'', 7), (''Sep'', 8), (''Oct'', 9), (''Nov'', 10), (''Dec'', 11)] name"

definition resolution :: "int \<Rightarrow> int option" where
  "resolution kind =
     (if kind = 0 then Some 1
      else if kind = 1 then Some 1000000
      else if kind = 2 \<or> kind = 3 then Some SECOND
      else if kind = 4 then Some DAY
      else None)"

definition i64_fits :: "int \<Rightarrow> bool" where
  "i64_fits n \<longleftrightarrow> - (2 ^ 63) \<le> n \<and> n < 2 ^ 63"

definition i64_checked :: "int \<Rightarrow> int option" where
  "i64_checked n = (if i64_fits n then Some n else None)"

text \<open>Arithmetic on \<open>i64\<close> that is not checked: the wrapped result of a release build.\<close>

definition i64_wrap :: "int \<Rightarrow> int" where
  "i64_wrap n = (n + 2 ^ 63) mod 2 ^ 64 - 2 ^ 63"

definition i64_add :: "int \<Rightarrow> int \<Rightarrow> int" where
  "i64_add a b = i64_wrap (a + b)"

definition i64_sub :: "int \<Rightarrow> int \<Rightarrow> int" where
  "i64_sub a b = i64_wrap (a - b)"

definition i64_mul :: "int \<Rightarrow> int \<Rightarrow> int" where
  "i64_mul a b = i64_wrap (a * b)"

definition leap_year :: "int \<Rightarrow> bool" where
  "leap_year year \<longleftrightarrow> year mod 4 = 0 \<and> (year mod 100 \<noteq> 0 \<or> year mod 400 = 0)"

definition month_days :: "int \<Rightarrow> int \<Rightarrow> int option" where
  "month_days year month =
     (if month \<in> {1, 3, 5, 7, 8, 10, 12} then Some 31
      else if month \<in> {4, 6, 9, 11} then Some 30
      else if month = 2 then Some (if leap_year year then 29 else 28)
      else None)"

definition civil_days :: "int \<Rightarrow> int \<Rightarrow> int \<Rightarrow> int option" where
  "civil_days year month day =
     do {
       last_day \<leftarrow> month_days year month;
       if \<not> (1 \<le> day \<and> day \<le> last_day) then None
       else do {
         let adjusted_year = i64_sub year (if month \<le> 2 then 1 else 0);
         let era = adjusted_year div 400;
         let year_in_era = adjusted_year mod 400;
         let march_month = (if 2 < month then i64_sub month 3 else i64_add month 9);
         let day_in_year = i64_sub (i64_add (i64_add (i64_mul 153 march_month) 2 div 5) day) 1;
         let day_in_era =
           i64_add (i64_sub (i64_add (i64_mul year_in_era 365) (year_in_era div 4)) (year_in_era div 100)) day_in_year;
         Some (i64_sub (i64_add (i64_mul era 146097) day_in_era) 719468)
       }
     }"

definition civil_date :: "int \<Rightarrow> (int \<times> int \<times> int) option" where
  "civil_date days =
     do {
       shifted \<leftarrow> i64_checked (days + 719468);
       let era = shifted div 146097;
       let within = shifted mod 146097;
       let year_in_era = (within - within div 1460 + within div 36524 - within div 146096) div 365;
       let march_day = within - (365 * year_in_era + year_in_era div 4 - year_in_era div 100);
       let march_month = (5 * march_day + 2) div 153;
       let day = march_day - (153 * march_month + 2) div 5 + 1;
       let month = (if march_month < 10 then march_month + 3 else march_month - 9);
       year1 \<leftarrow> i64_checked (era * 400);
       year2 \<leftarrow> i64_checked (year1 + year_in_era);
       year \<leftarrow> i64_checked (year2 + (if month \<le> 2 then 1 else 0));
       Some (year, month, day)
     }"

subsection \<open>Formatting\<close>

text \<open>\<open>Text\<close>: a buffer of 32 bytes, of which the first \<open>len\<close> are meant.\<close>

type_synonym text_buf = bytes

definition text_push :: "bytes \<Rightarrow> text_buf \<Rightarrow> text_buf option" where
  "text_push value out = (if length out + length value \<le> 32 then Some (out @ value) else None)"

primrec digit_loop :: "nat \<Rightarrow> nat \<Rightarrow> bytes \<Rightarrow> nat \<times> bytes" where
  "digit_loop 0 v acc = (v, acc)"
| "digit_loop (Suc w) v acc = digit_loop w (v div 10) (char_of (48 + v mod 10) # acc)"

definition text_digits :: "nat \<Rightarrow> int \<Rightarrow> text_buf \<Rightarrow> text_buf option" where
  "text_digits width value out =
     (if \<not> (0 \<le> value \<and> value < 2 ^ 32) then None
      else if 32 < length out + width then None
      else case digit_loop width (nat value) [] of
             (v, ds) \<Rightarrow> if v \<noteq> 0 then None else Some (out @ ds))"

text \<open>The loop that shortens the buffer while it ends in a zero, down to \<open>start\<close>.\<close>

definition drop_zeros :: "nat \<Rightarrow> text_buf \<Rightarrow> text_buf" where
  "drop_zeros start out = take start out @ rev (dropWhile (\<lambda>c. c = CHR ''0'') (rev (drop start out)))"

definition format_rfc3339 :: "int \<Rightarrow> int \<Rightarrow> int \<Rightarrow> int \<Rightarrow> int \<Rightarrow> int \<Rightarrow> int \<Rightarrow> int \<Rightarrow> text_buf option" where
  "format_rfc3339 kind year month day hour minute second fraction =
     do {
       out \<leftarrow> text_digits 4 year [];
       out \<leftarrow> text_push ''-'' out;
       out \<leftarrow> text_digits 2 month out;
       out \<leftarrow> text_push ''-'' out;
       out \<leftarrow> text_digits 2 day out;
       out \<leftarrow> text_push ''T'' out;
       out \<leftarrow> text_digits 2 hour out;
       out \<leftarrow> text_push '':'' out;
       out \<leftarrow> text_digits 2 minute out;
       out \<leftarrow> text_push '':'' out;
       out \<leftarrow> text_digits 2 second out;
       out \<leftarrow> (if kind = 1 then do {
                 out \<leftarrow> text_push ''.'' out;
                 text_digits 3 (fraction div 1000000) out
               }
               else if fraction \<noteq> 0 then do {
                 let start = length out;
                 out \<leftarrow> text_push ''.'' out;
                 out \<leftarrow> text_digits 9 fraction out;
                 Some (drop_zeros start out)
               }
               else Some out);
       text_push ''Z'' out
     }"

definition format_rfc1123 :: "int \<Rightarrow> int \<Rightarrow> int \<Rightarrow> int \<Rightarrow> int \<Rightarrow> int \<Rightarrow> int \<Rightarrow> text_buf option" where
  "format_rfc1123 days year month day hour minute second =
     do {
       weekday \<leftarrow> (let i = (days + 4) mod 7 in if nat i < length WEEKDAYS then Some (WEEKDAYS ! nat i) else None);
       month_name \<leftarrow> (let i = month - 1 in if 0 \<le> i \<and> nat i < length MONTHS then Some (MONTHS ! nat i) else None);
       out \<leftarrow> text_push weekday [];
       out \<leftarrow> text_push '', '' out;
       out \<leftarrow> text_digits 2 day out;
       out \<leftarrow> text_push '' '' out;
       out \<leftarrow> text_push month_name out;
       out \<leftarrow> text_push '' '' out;
       out \<leftarrow> text_digits 4 year out;
       out \<leftarrow> text_push '' '' out;
       out \<leftarrow> text_digits 2 hour out;
       out \<leftarrow> text_push '':'' out;
       out \<leftarrow> text_digits 2 minute out;
       out \<leftarrow> text_push '':'' out;
       out \<leftarrow> text_digits 2 second out;
       text_push '' GMT'' out
     }"

definition format_basic :: "int \<Rightarrow> int \<Rightarrow> int \<Rightarrow> int \<Rightarrow> int \<Rightarrow> int \<Rightarrow> int \<Rightarrow> text_buf option" where
  "format_basic kind year month day hour minute second =
     do {
       out \<leftarrow> text_digits 4 year [];
       out \<leftarrow> text_digits 2 month out;
       out \<leftarrow> text_digits 2 day out;
       if kind = 3 then do {
         out \<leftarrow> text_push ''T'' out;
         out \<leftarrow> text_digits 2 hour out;
         out \<leftarrow> text_digits 2 minute out;
         out \<leftarrow> text_digits 2 second out;
         text_push ''Z'' out
       }
       else Some out
     }"

definition time_format :: "int \<Rightarrow> int \<Rightarrow> text_buf option" where
  "time_format ns kind =
     do {
       precision \<leftarrow> resolution kind;
       let rounded = ns div precision * precision;
       _ \<leftarrow> i64_checked rounded;
       days \<leftarrow> i64_checked (rounded div DAY);
       (year, month, day) \<leftarrow> civil_date days;
       let within = rounded mod DAY;
       let hour = within div (3600 * SECOND);
       let minute = (within div (60 * SECOND)) mod 60;
       let second = (within div SECOND) mod 60;
       let fraction = within mod SECOND;
       if kind = 0 \<or> kind = 1 then format_rfc3339 kind year month day hour minute second fraction
       else if kind = 2 then format_rfc1123 days year month day hour minute second
       else if kind = 3 \<or> kind = 4 then format_basic kind year month day hour minute second
       else None
     }"

subsection \<open>Parsing\<close>

text \<open>The parser's state is a position; each method returns the position after it.\<close>

definition is_ascii_digit :: "byte \<Rightarrow> bool" where
  "is_ascii_digit c \<longleftrightarrow> 48 \<le> val c \<and> val c \<le> 57"

fun decimal_value :: "bytes \<Rightarrow> int \<Rightarrow> int option" where
  "decimal_value [] value = Some value"
| "decimal_value (b # bs) value =
     (if \<not> is_ascii_digit b then None else decimal_value bs (value * 10 + int (val b - 48)))"

definition tp_digits :: "bytes \<Rightarrow> nat \<Rightarrow> nat \<Rightarrow> (int \<times> nat) option" where
  "tp_digits bs pos width =
     (if length bs < pos + width then None
      else map_option (\<lambda>v. (v, pos + width)) (decimal_value (take width (drop pos bs)) 0))"

definition tp_literal :: "bytes \<Rightarrow> nat \<Rightarrow> bytes \<Rightarrow> nat option" where
  "tp_literal bs pos expected =
     (if length bs < pos + length expected then None
      else if take (length expected) (drop pos bs) \<noteq> expected then None
      else Some (pos + length expected))"

definition tp_peek :: "bytes \<Rightarrow> nat \<Rightarrow> byte option" where
  "tp_peek bs pos = (if pos < length bs then Some (bs ! pos) else None)"

definition literal_if :: "bool \<Rightarrow> bytes \<Rightarrow> nat \<Rightarrow> bytes \<Rightarrow> nat option" where
  "literal_if c bs pos expected = (if c then tp_literal bs pos expected else Some pos)"

definition three_bytes :: "bytes \<Rightarrow> nat \<Rightarrow> bytes option" where
  "three_bytes bs pos = (if length bs < pos + 3 then None else Some (take 3 (drop pos bs)))"

text \<open>The date part: weekday, year, month, day and the position after it.\<close>

definition parse_date :: "bytes \<Rightarrow> int \<Rightarrow> (nat option \<times> int \<times> int \<times> int \<times> nat) option" where
  "parse_date bs kind =
     (if kind = 2 then do {
        name \<leftarrow> three_bytes bs 0;
        weekday \<leftarrow> weekday_index name;
        pos \<leftarrow> tp_literal bs 3 '', '';
        (day, pos) \<leftarrow> tp_digits bs pos 2;
        pos \<leftarrow> tp_literal bs pos '' '';
        name \<leftarrow> three_bytes bs pos;
        month \<leftarrow> month_index name;
        pos \<leftarrow> tp_literal bs (pos + 3) '' '';
        (year, pos) \<leftarrow> tp_digits bs pos 4;
        pos \<leftarrow> tp_literal bs pos '' '';
        Some (Some weekday, year, int month + 1, day, pos)
      }
      else do {
        (year, pos) \<leftarrow> tp_digits bs 0 4;
        pos \<leftarrow> literal_if (kind < 2) bs pos ''-'';
        (month, pos) \<leftarrow> tp_digits bs pos 2;
        pos \<leftarrow> literal_if (kind < 2) bs pos ''-'';
        (day, pos) \<leftarrow> tp_digits bs pos 2;
        pos \<leftarrow> (if kind \<noteq> 4 then
                  (if kind < 2 \<and> tp_peek bs pos = Some CHR ''t'' then tp_literal bs pos ''t''
                   else tp_literal bs pos ''T'')
                else Some pos);
        Some (None, year, month, day, pos)
      })"

function fraction_loop :: "bytes \<Rightarrow> nat \<Rightarrow> nat \<Rightarrow> int \<Rightarrow> (nat \<times> int \<times> nat) option" where
  "fraction_loop bs pos digits fraction =
     (case tp_peek bs pos of
        Some b \<Rightarrow>
          if is_ascii_digit b then
            (if digits = 9 then None
             else case tp_digits bs pos 1 of
                    Some (d, pos') \<Rightarrow> fraction_loop bs pos' (digits + 1) (fraction * 10 + d)
                  | None \<Rightarrow> None)
          else Some (digits, fraction, pos)
      | None \<Rightarrow> Some (digits, fraction, pos))"
  by pat_completeness auto
termination
  by (relation "measure (\<lambda>(bs, pos, digits, fraction). length bs - pos)")
    (auto simp: tp_peek_def tp_digits_def split: if_splits)

declare fraction_loop.simps [simp del]

text \<open>An optional fraction of a second: how many digits, the nanoseconds, the position.\<close>

definition parse_fraction :: "bytes \<Rightarrow> nat \<Rightarrow> (nat \<times> int \<times> nat) option" where
  "parse_fraction bs pos =
     (if tp_peek bs pos = Some CHR ''.'' then do {
        pos \<leftarrow> tp_literal bs pos ''.'';
        (digits, fraction, pos) \<leftarrow> fraction_loop bs pos 0 0;
        if digits = 0 then None else Some (digits, fraction * 10 ^ (9 - digits), pos)
      }
      else Some (0, 0, pos))"

text \<open>The zone: what is subtracted, and the position after it.\<close>

definition parse_zone :: "bytes \<Rightarrow> nat \<Rightarrow> (int \<times> nat) option" where
  "parse_zone bs pos =
     do {
       sign \<leftarrow> tp_peek bs pos;
       if sign = CHR ''Z'' \<or> sign = CHR ''z'' then Some (0, pos + 1)
       else if sign = CHR ''+'' \<or> sign = CHR ''-'' then do {
         (hour, pos) \<leftarrow> tp_digits bs (pos + 1) 2;
         pos \<leftarrow> tp_literal bs pos '':'';
         (minute, pos) \<leftarrow> tp_digits bs pos 2;
         if 23 < hour \<or> 59 < minute \<or> sign = CHR ''-'' \<and> hour = 0 \<and> minute = 0 then None
         else do {
           let offset = (hour * 3600 + minute * 60) * SECOND;
           Some (if sign = CHR ''+'' then offset else - offset, pos)
         }
       }
       else None
     }"

text \<open>The time of day, in nanoseconds, and the position after it.\<close>

definition parse_clock :: "bytes \<Rightarrow> int \<Rightarrow> nat \<Rightarrow> (int \<times> nat) option" where
  "parse_clock bs kind pos =
     do {
       (hour, pos) \<leftarrow> tp_digits bs pos 2;
       pos \<leftarrow> literal_if (kind < 3) bs pos '':'';
       (minute, pos) \<leftarrow> tp_digits bs pos 2;
       pos \<leftarrow> literal_if (kind < 3) bs pos '':'';
       (second, pos) \<leftarrow> tp_digits bs pos 2;
       if 23 < hour \<or> 59 < minute \<or> 59 < second then None
       else do {
         let value = (hour * 3600 + minute * 60 + second) * SECOND;
         if kind < 2 then do {
           (digits, fraction, pos) \<leftarrow> parse_fraction bs pos;
           if kind = 1 \<and> digits \<noteq> 3 then None
           else do {
             (offset, pos) \<leftarrow> parse_zone bs pos;
             Some (value + fraction - offset, pos)
           }
         }
         else do {
           pos \<leftarrow> tp_literal bs pos (if kind = 2 then '' GMT'' else ''Z'');
           Some (value, pos)
         }
       }
     }"

definition time_parse :: "bytes \<Rightarrow> int \<Rightarrow> int option" where
  "time_parse bs kind =
     do {
       _ \<leftarrow> resolution kind;
       if 35 < length bs \<or> \<not> list_all (\<lambda>c. val c < 128) bs then None
       else do {
         (weekday, year, month, day, pos) \<leftarrow> parse_date bs kind;
         days \<leftarrow> civil_days year month day;
         if (case weekday of Some w \<Rightarrow> int w \<noteq> (days + 4) mod 7 | None \<Rightarrow> False) then None
         else do {
           (clock, pos) \<leftarrow> (if kind \<noteq> 4 then parse_clock bs kind pos else Some (0, pos));
           if pos \<noteq> length bs then None else i64_checked (days * DAY + clock)
         }
       }
     }"

end
