(* ===== verification/Calendar.thy ===== *)
theory Calendar
  imports Time_Formats
begin

section \<open>align\_runtime: the calendar\<close>

text \<open>
  \<open>civil_days\<close> counts the days of the Gregorian calendar, and \<open>civil_date\<close> inverts it. The arithmetic of
  \<open>civil_days\<close> is that of \<open>i64\<close> and wraps; the count is compared with the same count over the integers,
  with which it agrees while the years stay below twenty thousand million million.
\<close>

declare One_nat_def [simp del]

subsection \<open>The count over the integers\<close>

definition civil_days_int :: "int \<Rightarrow> int \<Rightarrow> int \<Rightarrow> int option" where
  "civil_days_int year month day =
     do {
       last_day \<leftarrow> month_days year month;
       if \<not> (1 \<le> day \<and> day \<le> last_day) then None
       else do {
         let adjusted_year = year - (if month \<le> 2 then 1 else 0);
         let era = adjusted_year div 400;
         let year_in_era = adjusted_year mod 400;
         let march_month = (if 2 < month then month - 3 else month + 9);
         let day_in_year = (153 * march_month + 2) div 5 + day - 1;
         let day_in_era = year_in_era * 365 + year_in_era div 4 - year_in_era div 100 + day_in_year;
         Some (era * 146097 + day_in_era - 719468)
       }
     }"

lemma i64_wrap_fits: "i64_fits n \<Longrightarrow> i64_wrap n = n"
  by (simp add: i64_fits_def i64_wrap_def)

lemma i64_small: "- 9000000000000000000 \<le> n \<Longrightarrow> n \<le> 9000000000000000000 \<Longrightarrow> i64_wrap n = n"
  by (rule i64_wrap_fits) (simp add: i64_fits_def)

lemma month_days_range: "month_days year month = Some k \<Longrightarrow> 1 \<le> month \<and> month \<le> 12"
  and month_days_le: "month_days year month = Some k \<Longrightarrow> k \<le> 31"
  by (auto simp: month_days_def split: if_splits)

text \<open>No operation of \<open>civil_days\<close> leaves the range of \<open>i64\<close> for these years.\<close>

lemma civil_days_exact:
  assumes "\<bar>year\<bar> \<le> 20000000000000000"
  shows "civil_days year month day = civil_days_int year month day"
proof (cases "month_days year month")
  case (Some k)
  show ?thesis
  proof (cases "1 \<le> day \<and> day \<le> k")
    case True
    have m: "1 \<le> month" "month \<le> 12" using month_days_range [OF Some] by simp_all
    have d: "1 \<le> day" "day \<le> 31" using True month_days_le [OF Some] by simp_all
    define a y e mm where "a = year - (if month \<le> 2 then 1 else 0)" and "y = a mod 400" and "e = a div 400"
      and "mm = (if 2 < month then month - 3 else month + 9)"
    have ar: "- 20000000000000001 \<le> a" "a \<le> 20000000000000000" using assms by (auto simp: a_def)
    have yr: "0 \<le> y" "y < 400" and er: "- 50000000000001 \<le> e" "e \<le> 50000000000000"
      using ar by (simp_all add: y_def e_def)
    have mr: "0 \<le> mm" "mm \<le> 11" using m by (simp_all add: mm_def)
    have q: "0 \<le> (153 * mm + 2) div 5" "(153 * mm + 2) div 5 \<le> 337" using mr by linarith+
    have yq: "0 \<le> y div 4" "y div 4 \<le> 99" "0 \<le> y div 100" "y div 100 \<le> 3" using yr by linarith+
    have w: "i64_wrap a = a" "i64_wrap (month - 3) = month - 3" "i64_wrap (month + 9) = month + 9"
      "i64_wrap (153 * mm) = 153 * mm" "i64_wrap (153 * mm + 2) = 153 * mm + 2"
      "i64_wrap ((153 * mm + 2) div 5 + day) = (153 * mm + 2) div 5 + day"
      "i64_wrap ((153 * mm + 2) div 5 + day - 1) = (153 * mm + 2) div 5 + day - 1"
      "i64_wrap (y * 365) = y * 365" "i64_wrap (y * 365 + y div 4) = y * 365 + y div 4"
      "i64_wrap (y * 365 + y div 4 - y div 100) = y * 365 + y div 4 - y div 100"
      "i64_wrap (y * 365 + y div 4 - y div 100 + ((153 * mm + 2) div 5 + day - 1)) =
         y * 365 + y div 4 - y div 100 + ((153 * mm + 2) div 5 + day - 1)"
      "i64_wrap (e * 146097) = e * 146097"
      "i64_wrap (e * 146097 + (y * 365 + y div 4 - y div 100 + ((153 * mm + 2) div 5 + day - 1))) =
         e * 146097 + (y * 365 + y div 4 - y div 100 + ((153 * mm + 2) div 5 + day - 1))"
      "i64_wrap (e * 146097 + (y * 365 + y div 4 - y div 100 + ((153 * mm + 2) div 5 + day - 1)) - 719468) =
         e * 146097 + (y * 365 + y div 4 - y div 100 + ((153 * mm + 2) div 5 + day - 1)) - 719468"
      using ar yr er mr m d q yq by (intro i64_small; linarith)+
    show ?thesis
      using True
      unfolding civil_days_def civil_days_int_def Some Let_def i64_add_def i64_sub_def i64_mul_def
        a_def [symmetric] w(1-3) y_def [symmetric] e_def [symmetric] mm_def [symmetric] Option.bind.simps
      by (simp only: w)
  qed (simp add: civil_days_def civil_days_int_def Some)
qed (simp add: civil_days_def civil_days_int_def)

subsection \<open>Years of an era\<close>

lemma div_is: "0 \<le> r \<Longrightarrow> r < b \<Longrightarrow> a = b * q + r \<Longrightarrow> a div b = (q::int)"
  by (simp add: int_div_pos_eq)

text \<open>A day of an era is in a century, a group of four years, a year of the group, and a day.\<close>

definition era_parts :: "int \<Rightarrow> int \<Rightarrow> int \<Rightarrow> int \<Rightarrow> bool" where
  "era_parts c q r d \<longleftrightarrow> 0 \<le> c \<and> c \<le> 3 \<and> 0 \<le> q \<and> q \<le> 24 \<and> 0 \<le> r \<and> r \<le> 3 \<and> 0 \<le> d \<and> d \<le> 365 \<and>
     (d = 365 \<longrightarrow> r = 3 \<and> (q < 24 \<or> c = 3))"

lemma era_parts_range: "era_parts c q r d \<Longrightarrow> 0 \<le> 36524 * c + 1461 * q + 365 * r + d \<and> 36524 * c + 1461 * q + 365 * r + d \<le> 146096"
  unfolding era_parts_def by linarith

lemma year_of_parts:
  assumes "era_parts c q r d"
  shows "0 \<le> 100 * c + 4 * q + r" "100 * c + 4 * q + r < 400"
    "(100 * c + 4 * q + r) div 4 = 25 * c + q" "(100 * c + 4 * q + r) div 100 = c"
proof -
  have b: "0 \<le> c" "c \<le> 3" "0 \<le> q" "q \<le> 24" "0 \<le> r" "r \<le> 3" using assms by (simp_all add: era_parts_def)
  show "0 \<le> 100 * c + 4 * q + r" "100 * c + 4 * q + r < 400" using b by linarith+
  show "(100 * c + 4 * q + r) div 4 = 25 * c + q" by (rule div_is [of r]) (use b in \<open>simp_all add: algebra_simps\<close>)
  show "(100 * c + 4 * q + r) div 100 = c" by (rule div_is [of "4 * q + r"]) (use b in simp_all)
qed

lemma parts_year:
  assumes p: "era_parts c q r d" and w: "w = 36524 * c + 1461 * q + 365 * r + d"
  shows "(w - w div 1460 + w div 36524 - w div 146096) div 365 = 100 * c + 4 * q + r"
proof -
  have b: "0 \<le> c" "c \<le> 3" "0 \<le> q" "q \<le> 24" "0 \<le> r" "r \<le> 3" "0 \<le> d" "d \<le> 365"
    "d = 365 \<longrightarrow> r = 3 \<and> (q < 24 \<or> c = 3)" using p by (simp_all add: era_parts_def)
  define k where "k = (if 24 * c + q + 365 * r + d < 1460 then 0 else 1 :: int)"
  have w1: "w div 1460 = 25 * c + q + k"
    by (rule div_is [of "24 * c + q + 365 * r + d - 1460 * k"]) (use b in \<open>auto simp: k_def w split: if_splits\<close>)
  have w2: "w div 36524 - w div 146096 = c"
  proof (cases "w = 146096")
    case True
    then have "c = 3" using w b by linarith
    with True show ?thesis by simp
  next
    case False
    then have "w < 146096" using era_parts_range [OF p] w by linarith
    moreover have "1461 * q + 365 * r + d < 36524" using False w b by linarith
    ultimately have "w div 36524 = c" "w div 146096 = 0"
      by (intro div_is [of "1461 * q + 365 * r + d"]; use b w in linarith)
         (use era_parts_range [OF p] w \<open>w < 146096\<close> in \<open>simp add: div_pos_pos_trivial\<close>)
    then show ?thesis by simp
  qed
  have "0 \<le> d - k" "d - k < 365" using b by (auto simp: k_def split: if_splits)
  moreover have "w - w div 1460 + w div 36524 - w div 146096 = 365 * (100 * c + 4 * q + r) + (d - k)"
    using w1 w2 w by (simp add: algebra_simps)
  ultimately show ?thesis by (intro div_is)
qed

lemma parts_of_day:
  assumes "0 \<le> w" "w \<le> 146096"
  obtains c q r d where "era_parts c q r d" "w = 36524 * c + 1461 * q + 365 * r + d"
proof -
  define c where "c = min 3 (w div 36524)"
  define x where "x = w - 36524 * c"
  define q where "q = x div 1461"
  define r where "r = min 3 (x mod 1461 div 365)"
  define d where "d = x mod 1461 - 365 * r"
  have x: "0 \<le> x" "x \<le> 36524" "x = 36524 \<longrightarrow> c = 3" "0 \<le> c" "c \<le> 3"
    using assms unfolding x_def c_def by (auto simp: min_def)
  have q: "0 \<le> q" "q \<le> 24" "x = 1461 * q + x mod 1461" "0 \<le> x mod 1461" "x mod 1461 < 1461"
    using x(1,2) unfolding q_def by auto
  have r: "0 \<le> r" "r \<le> 3" "0 \<le> d" "d \<le> 365" "d = 365 \<longrightarrow> r = 3"
    using q(4,5) unfolding d_def r_def by (auto simp: min_def)
  have "q < 24 \<or> c = 3" if "d = 365"
  proof -
    have "x mod 1461 = 1460" using that r(5) by (simp add: d_def)
    with q x show ?thesis by linarith
  qed
  with x q r have "era_parts c q r d" by (simp add: era_parts_def)
  moreover have "w = 36524 * c + 1461 * q + 365 * r + d" using q(3) by (simp add: d_def x_def)
  ultimately show thesis using that by blast
qed

subsection \<open>Months of a year that begins in March\<close>

definition march_start :: "int \<Rightarrow> int" where
  "march_start m = (153 * m + 2) div 5"

definition march_length :: "int \<Rightarrow> int" where
  "march_length m = (if m \<in> {1, 3, 6, 8} then 30 else if m = 11 then 29 else 31)"

lemma twelve: "0 \<le> m \<Longrightarrow> m \<le> 11 \<Longrightarrow>
    m = 0 \<or> m = 1 \<or> m = 2 \<or> m = 3 \<or> m = 4 \<or> m = 5 \<or> m = 6 \<or> m = 7 \<or> m = 8 \<or> m = 9 \<or> m = 10 \<or> m = (11::int)"
  by presburger

lemma month_of_march_day:
  assumes "0 \<le> d" "d \<le> 365" and m: "m = (5 * d + 2) div 153"
  shows "0 \<le> m" "m \<le> 11" "1 \<le> d - march_start m + 1" "d - march_start m + 1 \<le> march_length m"
proof -
  have b: "153 * m \<le> 5 * d + 2" "5 * d + 2 < 153 * m + 153" unfolding m by auto
  show r: "0 \<le> m" "m \<le> 11" using b assms(1,2) by linarith+
  show "1 \<le> d - march_start m + 1" "d - march_start m + 1 \<le> march_length m"
    using twelve [OF r] b assms(2) by (auto simp: march_start_def march_length_def)
qed

lemma march_day_of_month:
  assumes "0 \<le> m" "m \<le> 11" "1 \<le> k" "k \<le> march_length m"
  shows "(5 * (march_start m + k - 1) + 2) div 153 = m" "0 \<le> march_start m + k - 1" "march_start m + k - 1 \<le> 365"
    "march_start m + k - 1 = 365 \<longleftrightarrow> m = 11 \<and> k = 29"
proof -
  show "(5 * (march_start m + k - 1) + 2) div 153 = m"
    by (rule div_is [of "5 * (march_start m + k - 1) + 2 - 153 * m"])
      (use twelve [OF assms(1,2)] assms(3,4) in \<open>auto simp: march_start_def march_length_def\<close>)
  show "0 \<le> march_start m + k - 1" "march_start m + k - 1 \<le> 365"
    "march_start m + k - 1 = 365 \<longleftrightarrow> m = 11 \<and> k = 29"
    using twelve [OF assms(1,2)] assms(3,4) by (auto simp: march_start_def march_length_def)
qed

definition month_of :: "int \<Rightarrow> int" where
  "month_of m = (if m < 10 then m + 3 else m - 9)"

definition march_of :: "int \<Rightarrow> int" where
  "march_of month = (if 2 < month then month - 3 else month + 9)"

lemma march_of_month [simp]: "0 \<le> m \<Longrightarrow> m \<le> 11 \<Longrightarrow> march_of (month_of m) = m"
  and month_of_march [simp]: "1 \<le> month \<Longrightarrow> month \<le> 12 \<Longrightarrow> month_of (march_of month) = month"
  and march_of_range: "1 \<le> month \<Longrightarrow> month \<le> 12 \<Longrightarrow> 0 \<le> march_of month \<and> march_of month \<le> 11"
  and month_of_range: "0 \<le> m \<Longrightarrow> m \<le> 11 \<Longrightarrow> 1 \<le> month_of m \<and> month_of m \<le> 12"
  by (auto simp: march_of_def month_of_def)

lemma month_days_march:
  assumes "0 \<le> m" "m \<le> 11"
  shows "month_days year (month_of m) = Some (march_length m - (if m = 11 \<and> \<not> leap_year year then 1 else 0))"
  using twelve [OF assms] by (auto simp: month_days_def march_length_def month_of_def)

subsection \<open>Dates\<close>

text \<open>The date of a day of an era, by its parts, and its number.\<close>

definition date_of :: "int \<Rightarrow> int \<Rightarrow> int \<Rightarrow> int \<Rightarrow> int \<Rightarrow> int \<times> int \<times> int" where
  "date_of era c q r d =
     (let m = (5 * d + 2) div 153
      in (era * 400 + (100 * c + 4 * q + r) + (if month_of m \<le> 2 then 1 else 0), month_of m, d - march_start m + 1))"

definition day_number :: "int \<Rightarrow> int \<Rightarrow> int \<Rightarrow> int \<Rightarrow> int \<Rightarrow> int" where
  "day_number era c q r d = era * 146097 + (36524 * c + 1461 * q + 365 * r + d) - 719468"

lemma leap_parts:
  assumes "0 \<le> c" "c \<le> 3" "0 \<le> q" "q \<le> 24" "0 \<le> r" "r \<le> 3"
  shows "leap_year (era * 400 + (100 * c + 4 * q + r) + 1) \<longleftrightarrow> r = 3 \<and> (q < 24 \<or> c = 3)"
proof -
  let ?y = "era * 400 + (100 * c + 4 * q + r) + 1"
  have "?y = 4 * (100 * era + 25 * c + q) + (r + 1)" "?y = 100 * (4 * era + c) + (4 * q + r + 1)"
    "?y = 400 * era + (100 * c + 4 * q + r + 1)" by (simp_all add: algebra_simps)
  then have m: "?y mod 4 = (r + 1) mod 4" "?y mod 100 = (4 * q + r + 1) mod 100"
    "?y mod 400 = (100 * c + 4 * q + r + 1) mod 400" by (metis mod_mult_self4)+
  have "(r + 1) mod 4 = 0 \<longleftrightarrow> r = 3" using assms(5,6) by (cases "r = 3") simp_all
  moreover have "(4 * q + 4) mod 100 = 0 \<longleftrightarrow> q = 24" using assms(3,4) by (cases "q = 24") simp_all
  moreover have "(100 * c + 100) mod 400 = 0 \<longleftrightarrow> c = 3" using assms(1,2) by (cases "c = 3") simp_all
  moreover have "4 * q + r + 1 = 4 * q + 4" if "r = 3" using that by simp
  moreover have "100 * c + 4 * q + r + 1 = 100 * c + 100" if "r = 3" "q = 24" using that by simp
  ultimately show ?thesis unfolding leap_year_def m using assms(4) by (metis order_le_less less_irrefl)
qed

lemma civil_days_int_char:
  assumes "0 \<le> m" "m \<le> 11" "1 \<le> day" "day \<le> march_length m - (if m = 11 \<and> \<not> leap_year year then 1 else 0)"
    and "year - (if month_of m \<le> 2 then 1 else 0) = era * 400 + y" "0 \<le> y" "y < 400"
  shows "civil_days_int year (month_of m) day =
    Some (era * 146097 + (y * 365 + y div 4 - y div 100 + (march_start m + day - 1)) - 719468)"
proof -
  have "(era * 400 + y) div 400 = era" "(era * 400 + y) mod 400 = y" using assms(6,7) by auto
  then show ?thesis
    using assms march_of_month [OF assms(1,2)]
    by (simp add: civil_days_int_def month_days_march march_of_def march_start_def Let_def)
qed

lemma civil_days_int_date_of:
  assumes "era_parts c q r d" "date_of era c q r d = (year, month, day)"
  shows "civil_days_int year month day = Some (day_number era c q r d)"
proof -
  let ?m = "(5 * d + 2) div 153"
  note y = year_of_parts [OF assms(1)]
  have b: "0 \<le> d" "d \<le> 365" using assms(1) by (simp_all add: era_parts_def)
  note m = month_of_march_day [OF b refl]
  have dt: "year = era * 400 + (100 * c + 4 * q + r) + (if month_of ?m \<le> 2 then 1 else 0)" "month = month_of ?m"
    "day = d - march_start ?m + 1" using assms(2) by (auto simp: date_of_def Let_def)
  have "march_start ?m + day - 1 = d" by (simp add: dt)
  then have "d = 365 \<longleftrightarrow> ?m = 11 \<and> day = 29" using march_day_of_month(4) [OF m(1,2), of day] m(3,4) dt(3) by simp
  moreover have "leap_year year" if "?m = 11" "d = 365"
    using leap_parts [of c q r era] assms(1) that by (simp add: era_parts_def dt(1) month_of_def)
  ultimately have "day \<le> march_length ?m - (if ?m = 11 \<and> \<not> leap_year year then 1 else 0)"
    using m(4) dt(3) by (auto simp: march_length_def split: if_splits)
  then have "civil_days_int year month day = Some (era * 146097 + ((100 * c + 4 * q + r) * 365 +
      (100 * c + 4 * q + r) div 4 - (100 * c + 4 * q + r) div 100 + (march_start ?m + day - 1)) - 719468)"
    unfolding dt(2) by (intro civil_days_int_char) (use m dt(1,3) y(1,2) in simp_all)
  then show ?thesis unfolding y(3,4) \<open>march_start ?m + day - 1 = d\<close> by (simp add: day_number_def algebra_simps)
qed

lemma civil_days_int_parts:
  assumes "civil_days_int year month day = Some n"
  obtains era c q r d where "era_parts c q r d" "date_of era c q r d = (year, month, day)" "n = day_number era c q r d"
proof -
  let ?m = "march_of month" and ?a = "year - (if month \<le> 2 then 1 else 0)"
  obtain k where k: "month_days year month = Some k" "1 \<le> day" "day \<le> k"
    using assms by (auto simp: civil_days_int_def split: bind_splits if_splits)
  have mr: "1 \<le> month" "month \<le> 12" using month_days_range [OF k(1)] by simp_all
  have m: "0 \<le> ?m" "?m \<le> 11" "month_of ?m = month" using march_of_range [OF mr] mr by simp_all
  have kl: "k = march_length ?m - (if ?m = 11 \<and> \<not> leap_year year then 1 else 0)"
    using k(1) month_days_march [OF m(1,2), of year] m(3) by simp
  then have day: "day \<le> march_length ?m" using k(3) by (simp split: if_splits)
  define y era where "y = ?a mod 400" and "era = ?a div 400"
  define c q r d where "c = y div 100" and "q = y mod 100 div 4" and "r = y mod 4" and "d = march_start ?m + day - 1"
  have a: "?a = era * 400 + y" by (simp add: y_def era_def)
  have y0: "0 \<le> y" "y < 400" by (simp_all add: y_def)
  have "y mod 100 mod 4 = y mod 4" by (rule mod_mod_cancel) simp
  then have y: "y = 100 * c + 4 * q + r" unfolding c_def q_def r_def by (metis add.assoc mult_div_mod_eq)
  have b: "0 \<le> c" "c \<le> 3" "0 \<le> q" "q \<le> 24" "0 \<le> r" "r \<le> 3" using y0 unfolding c_def q_def r_def by auto
  note dd = march_day_of_month [OF m(1,2) k(2) day, folded d_def]
  have "r = 3 \<and> (q < 24 \<or> c = 3)" if "d = 365"
  proof -
    have "?m = 11" "day = 29" using dd(4) that by simp_all
    then have "leap_year year" using k(3) kl by (auto simp: march_length_def split: if_splits)
    moreover have "year = era * 400 + (100 * c + 4 * q + r) + 1" using a y \<open>?m = 11\<close> m(3) by (simp add: month_of_def)
    ultimately show ?thesis using leap_parts [OF b] by simp
  qed
  with b dd have p: "era_parts c q r d" by (simp add: era_parts_def)
  have "date_of era c q r d = (year, month, day)"
    unfolding date_of_def Let_def dd(1) m(3) using a y by (auto simp: d_def)
  with civil_days_int_date_of [OF p this] assms p that show thesis by simp
qed

lemma civil_date_step:
  assumes "n + 719468 = era * 146097 + w" "0 \<le> w" "w < 146097" "i64_fits (n + 719468)"
    and y: "(w - w div 1460 + w div 36524 - w div 146096) div 365 = y" "0 \<le> y" "y < 400"
    and d: "w - (365 * y + y div 4 - y div 100) = d"
  shows "civil_date n = Some (let m = (5 * d + 2) div 153
    in (era * 400 + y + (if month_of m \<le> 2 then 1 else 0), month_of m, d - march_start m + 1))"
proof -
  have e: "(era * 146097 + w) div 146097 = era" "(era * 146097 + w) mod 146097 = w" using assms(2,3) by auto
  have b: "- 9223372036854775808 \<le> era * 146097 + w" "era * 146097 + w < 9223372036854775808"
    using assms(1,4) by (simp_all add: i64_fits_def)
  have f: "i64_fits (era * 400 + x)" if "0 \<le> x" "x \<le> 400" for x
    using b assms(2,3) that by (simp add: i64_fits_def)
  have c: "i64_checked (era * 400) = Some (era * 400)" "i64_checked (era * 400 + y) = Some (era * 400 + y)"
    "i64_checked (era * 400 + y + 1) = Some (era * 400 + y + 1)"
    using f [of 0] f [of y] f [of "y + 1"] y(2,3) by (simp_all add: i64_checked_def add.assoc)
  have "i64_checked (n + 719468) = Some (era * 146097 + w)" using assms(1,4) by (simp add: i64_checked_def)
  then show ?thesis
    unfolding civil_date_def Let_def by (simp only: Option.bind.simps e y(1) d c month_of_def march_start_def split: if_split) (simp add: c)
qed

lemma civil_date_parts:
  assumes "era_parts c q r d" "i64_fits (day_number era c q r d + 719468)"
  shows "civil_date (day_number era c q r d) = Some (date_of era c q r d)"
proof -
  let ?w = "36524 * c + 1461 * q + 365 * r + d"
  have "0 \<le> ?w" "?w < 146097" using era_parts_range [OF assms(1)] by linarith+
  moreover have "day_number era c q r d + 719468 = era * 146097 + ?w" by (simp add: day_number_def)
  moreover note y = year_of_parts [OF assms(1)]
  moreover have "?w - (365 * (100 * c + 4 * q + r) + (100 * c + 4 * q + r) div 4 - (100 * c + 4 * q + r) div 100) = d"
    unfolding y(3,4) by (simp add: algebra_simps)
  ultimately show ?thesis
    using civil_date_step [OF _ _ _ assms(2), of era ?w] parts_year [OF assms(1) refl]
    unfolding date_of_def by blast
qed

lemma day_parts:
  obtains era c q r d where "era_parts c q r d" "n = day_number era c q r d"
proof -
  have "0 \<le> (n + 719468) mod 146097" "(n + 719468) mod 146097 \<le> 146096" by simp_all
  then obtain c q r d where "era_parts c q r d" "(n + 719468) mod 146097 = 36524 * c + 1461 * q + 365 * r + d"
    by (rule parts_of_day)
  moreover from this(2) have "n = day_number ((n + 719468) div 146097) c q r d"
    unfolding day_number_def by (metis add_diff_cancel_right' mult.commute mult_div_mod_eq)
  ultimately show thesis using that by blast
qed

text \<open>The calendar: the day after a date.\<close>

definition next_date :: "int \<times> int \<times> int \<Rightarrow> int \<times> int \<times> int" where
  "next_date = (\<lambda>(year, month, day).
     if Some day \<noteq> month_days year month then (year, month, day + 1)
     else if month < 12 then (year, month + 1, 1)
     else (year + 1, 1, 1))"

lemma year_days:
  fixes y era :: int
  assumes "0 \<le> y" "y < 400"
  shows "era * 146097 + (y * 365 + y div 4 - y div 100 + x) =
    365 * (era * 400 + y) + (era * 400 + y) div 4 - (era * 400 + y) div 100 + (era * 400 + y) div 400 + x"
proof -
  have "era * 400 + y = y + (100 * era) * 4" "era * 400 + y = y + (4 * era) * 100" "era * 400 + y = y + era * 400" by simp_all
  then have "(era * 400 + y) div 4 = 100 * era + y div 4" "(era * 400 + y) div 100 = 4 * era + y div 100"
    "(era * 400 + y) div 400 = era" using assms by (metis div_mult_self1 add.commute zero_neq_numeral, metis div_mult_self1 add.commute zero_neq_numeral, simp)
  then show ?thesis by (simp add: algebra_simps)
qed

text \<open>The number of a date, without eras.\<close>

definition leap_days :: "int \<Rightarrow> int" where
  "leap_days a = a div 4 - a div 100 + a div 400"

lemma civil_days_int_formula:
  assumes "month_days year month = Some k" "1 \<le> day" "day \<le> k" "a = year - (if month \<le> 2 then 1 else 0)"
  shows "civil_days_int year month day =
    Some (365 * a + leap_days a + march_start (march_of month) + day - 719469)"
proof -
  have "civil_days_int year month day = Some (a div 400 * 146097 +
      (a mod 400 * 365 + a mod 400 div 4 - a mod 400 div 100 + (march_start (march_of month) + day - 1)) - 719468)"
    unfolding civil_days_int_def assms(1) assms(4) [symmetric] Let_def march_of_def march_start_def
    using assms(2,3) by (simp only: Option.bind.simps conj_absorb simp_thms if_False add_diff_eq)
  moreover have "a div 400 * 400 + a mod 400 = a" "0 \<le> a mod 400" "a mod 400 < 400" by simp_all
  ultimately show ?thesis
    using year_days [of "a mod 400" "a div 400" "march_start (march_of month) + day - 1"]
    by (simp only: leap_days_def) simp
qed

lemma div_step: "0 < b \<Longrightarrow> (a + 1) div b = a div b + (if (a + 1) mod b = 0 then 1 else (0::int))"
proof -
  assume b: "0 < b"
  have m: "0 \<le> a mod b" "a mod b < b" using b by simp_all
  show ?thesis
  proof (cases "a mod b + 1 = b")
    case True
    have "b * (a div b) + a mod b = a" by simp
    with True have "a + 1 = b * (a div b) + b" by linarith
    then have "a + 1 = b * (a div b + 1)" by (simp add: distrib_left)
    then show ?thesis using b by (simp del: distrib_left)
  next
    case False
    then have "a mod b + 1 < b" using m by linarith
    moreover have e: "a + 1 = b * (a div b) + (a mod b + 1)" by simp
    ultimately have "(a + 1) div b = a div b" using m(1) div_is [OF _ _ e] by simp
    moreover from this have "(a + 1) mod b = a mod b + 1" using e by (metis add_diff_cancel_left' minus_mult_div_eq_mod)
    ultimately show ?thesis using m(1) by simp
  qed
qed

lemma div_pred: "0 < b \<Longrightarrow> a div b = (a - 1) div b + (if a mod b = 0 then 1 else (0::int))"
  using div_step [of b "a - 1"] by (simp only: diff_add_cancel)

lemma leap_count: "leap_days year = leap_days (year - 1) + (if leap_year year then 1 else 0)"
proof -
  define z4 z100 z400 where "z4 = (year mod 4 = 0)" and "z100 = (year mod 100 = 0)" and "z400 = (year mod 400 = 0)"
  have "year mod 400 mod 100 = year mod 100" "year mod 100 mod 4 = year mod 4"
    by (rule mod_mod_cancel, simp)+
  then have "z400 \<Longrightarrow> z100" "z100 \<Longrightarrow> z4" unfolding z4_def z100_def z400_def by auto
  moreover have "leap_days year = leap_days (year - 1) + (if z4 then 1 else 0) - (if z100 then 1 else 0) + (if z400 then 1 else 0)"
    unfolding leap_days_def z4_def z100_def z400_def
    using div_pred [of 4 year] div_pred [of 100 year] div_pred [of 400 year] by (simp only: zero_less_numeral simp_thms)
  moreover have "leap_year year \<longleftrightarrow> z4 \<and> (\<not> z100 \<or> z400)" by (simp add: leap_year_def z4_def z100_def z400_def)
  ultimately show ?thesis by (cases z4; cases z100; cases z400) auto
qed

lemma civil_days_int_next:
  assumes "civil_days_int year month day = Some n" "next_date (year, month, day) = (year', month', day')"
  shows "civil_days_int year' month' day' = Some (n + 1)"
proof -
  obtain k where k: "month_days year month = Some k" "1 \<le> day" "day \<le> k"
    using assms(1) by (auto simp: civil_days_int_def split: bind_splits if_splits)
  note now = civil_days_int_formula [OF k refl]
  consider (same) "day < k" | (month) "day = k" "month < 12" "month \<noteq> 2" | (february) "day = k" "month = 2"
    | (december) "day = k" "month = 12"
    using k month_days_range [OF k(1)] by linarith
  then show ?thesis
  proof cases
    case same
    then have "(year', month', day') = (year, month, day + 1)" using assms(2) k(1) by (simp add: next_date_def)
    with civil_days_int_formula [OF k(1) _ _ refl, of "day + 1"] same k(2) now assms(1) show ?thesis by simp
  next
    case month
    then have e: "(year', month', day') = (year, month + 1, 1)" using assms(2) k(1) by (simp add: next_date_def)
    have "march_start (march_of (month + 1)) = march_start (march_of month) + k \<and>
        (\<exists>k'. month_days year (month + 1) = Some k' \<and> 1 \<le> k') \<and> (month + 1 \<le> 2 \<longleftrightarrow> month \<le> 2)"
      using month k(1) by (auto simp: month_days_def march_of_def march_start_def split: if_splits)
    then obtain k' where "month_days year (month + 1) = Some k'" "1 \<le> k'"
      "march_start (march_of (month + 1)) = march_start (march_of month) + k" "month + 1 \<le> 2 \<longleftrightarrow> month \<le> 2" by blast
    with civil_days_int_formula [of year "month + 1" k' 1, OF _ _ _ refl] now assms(1) e month(1) show ?thesis by simp
  next
    case february
    then have e: "(year', month', day') = (year, 3, 1)" using assms(2) k(1) by (simp add: next_date_def)
    have "k = 28 + (if leap_year year then 1 else 0)" using k(1) february by (simp add: month_days_def split: if_splits)
    moreover have "march_start (march_of 3) = 0" "march_start (march_of 2) = 337" "month_days year 3 = Some 31"
      by (simp_all add: march_of_def march_start_def month_days_def)
    ultimately show ?thesis
      using civil_days_int_formula [of year 3 31 1, OF _ _ _ refl] now assms(1) e february leap_count [of year] by simp
  next
    case december
    then have e: "(year', month', day') = (year + 1, 1, 1)" using assms(2) k(1) by (simp add: next_date_def)
    have "k = 31" "month_days (year + 1) 1 = Some 31" "march_start (march_of 1) = 306" "march_start (march_of 12) = 275"
      using december k(1) by (simp_all add: month_days_def march_of_def march_start_def)
    with civil_days_int_formula [of "year + 1" 1 31 1, OF _ _ _ refl] now assms(1) e december show ?thesis by simp
  qed
qed

text \<open>The year of a day number.\<close>

lemma civil_year_range:
  assumes "civil_days_int year month day = Some n" "\<bar>n\<bar> \<le> 3000000000000000000"
  shows "\<bar>year\<bar> \<le> 10000000000000000"
proof -
  obtain k where k: "month_days year month = Some k" "1 \<le> day" "day \<le> k"
    using assms(1) by (auto simp: civil_days_int_def split: bind_splits if_splits)
  note m = month_days_range [OF k(1)]
  define a where "a = year - (if month \<le> 2 then 1 else 0)"
  have n: "n = 365 * a + leap_days a + march_start (march_of month) + day - 719469"
    using civil_days_int_formula [OF k a_def] assms(1) by simp
  have "0 \<le> march_start (march_of month)" "march_start (march_of month) \<le> 337" "day \<le> 31"
    using march_of_range [of month] m k(3) month_days_le [OF k(1)] by (auto simp: march_start_def)
  moreover have "4 * (a div 4) \<le> a" "a \<le> 4 * (a div 4) + 3" "100 * (a div 100) \<le> a" "a \<le> 100 * (a div 100) + 99"
    "400 * (a div 400) \<le> a" "a \<le> 400 * (a div 400) + 399" by auto
  ultimately have "- 9000000000000000 \<le> a" "a \<le> 9000000000000000"
    using n k(2) assms(2) unfolding leap_days_def by linarith+
  then show ?thesis by (simp add: a_def split: if_splits)
qed

subsection \<open>Properties\<close>

text \<open>
  C24. \<open>civil_days\<close> counts the days of the Gregorian calendar: 1970-01-01 is day 0, and the number of
  the day after a date, over the end of a month, of February in leap years and others, and of a
  year, is one more. This holds for the years up to \<open>10 ^ 16\<close> before and after the year 0, so also for
  the four-digit years the parser hands over; further out the unchecked \<open>i64\<close> arithmetic overflows.
\<close>

theorem civil_days_counts:
  "civil_days 1970 1 1 = Some 0 \<and>
   (\<bar>year\<bar> \<le> 10 ^ 16 \<and> civil_days year month day = Some n \<longrightarrow>
      (case next_date (year, month, day) of (year', month', day') \<Rightarrow> civil_days year' month' day' = Some (n + 1)))"
proof -
  have "civil_days 1970 1 1 = Some 0" by (simp add: civil_days_exact civil_days_int_def month_days_def)
  moreover have "civil_days year' month' day' = Some (n + 1)"
    if "\<bar>year\<bar> \<le> 10 ^ 16" "civil_days year month day = Some n" "next_date (year, month, day) = (year', month', day')"
    for year' month' day'
  proof -
    have "\<bar>year'\<bar> \<le> \<bar>year\<bar> + 1" using that(3) by (auto simp: next_date_def split: if_splits)
    then have "\<bar>year\<bar> \<le> 20000000000000000" "\<bar>year'\<bar> \<le> 20000000000000000" using that(1) by simp_all
    with civil_days_int_next [OF _ that(3), of n] that(2) show ?thesis by (simp only: civil_days_exact)
  qed
  ultimately show ?thesis by (auto split: prod.split)
qed

theorem civil_days_counts_witness: "civil_days 2024 2 29 = Some 19782 \<and> civil_days 2024 3 1 = Some 19783"
proof -
  have a: "civil_days 2024 2 29 = Some 19782"
    by (simp add: civil_days_exact civil_days_int_def month_days_def leap_year_def)
  have "next_date (2024, 2, 29) = (2024, 3, 1)" by (simp add: next_date_def month_days_def leap_year_def)
  with civil_days_counts [of 2024 2 29 19782] a show ?thesis by simp
qed

text \<open>
  C23. \<open>civil_date\<close> inverts \<open>civil_days\<close>: for every day number up to \<open>3 * 10 ^ 18\<close> before and after the epoch
  it returns a date whose number is the given one, and no other date of the years up to \<open>10 ^ 16\<close> before
  and after the year 0 has that number. (An instant in nanoseconds that fits \<open>i64\<close> is within 106752
  days of the epoch.)
\<close>

theorem civil_date_inverts:
  assumes "\<bar>n\<bar> \<le> 3 * 10 ^ 18"
  shows "\<exists>year month day. civil_date n = Some (year, month, day) \<and> \<bar>year\<bar> \<le> 10 ^ 16 \<and>
    civil_days year month day = Some n \<and>
    (\<forall>y m d. \<bar>y\<bar> \<le> 10 ^ 16 \<and> civil_days y m d = Some n \<longrightarrow> (y, m, d) = (year, month, day))"
proof -
  have f: "i64_fits (n + 719468)" using assms by (auto simp: i64_fits_def)
  obtain era c q r d where p: "era_parts c q r d" "n = day_number era c q r d" by (rule day_parts)
  obtain year month day where dt: "date_of era c q r d = (year, month, day)" by (metis prod_cases3)
  have c: "civil_date n = Some (year, month, day)" using civil_date_parts [OF p(1) f [unfolded p(2)]] unfolding p(2) [symmetric] dt .
  have i: "civil_days_int year month day = Some n" using civil_days_int_date_of [OF p(1) dt] unfolding p(2) [symmetric] .
  have y: "\<bar>year\<bar> \<le> 10 ^ 16" using civil_year_range [OF i] assms by simp
  have e: "civil_days y m d = civil_days_int y m d" if "\<bar>y\<bar> \<le> 10 ^ 16" for y m d
    using that by (intro civil_days_exact) simp
  moreover have "(y, m, d') = (year, month, day)" if o: "civil_days_int y m d' = Some n" for y m d'
  proof -
    from o obtain e' c' q' r' x where
      p': "era_parts c' q' r' x" "date_of e' c' q' r' x = (y, m, d')" "n = day_number e' c' q' r' x"
      by (rule civil_days_int_parts)
    from civil_date_parts [OF p'(1) f [unfolded p'(3)]] have "civil_date n = Some (y, m, d')"
      unfolding p'(3) [symmetric] p'(2) .
    with c show ?thesis by (simp only: option.inject)
  qed
  ultimately show ?thesis using c i y by metis
qed

theorem civil_date_inverts_witness: "civil_date 19782 = Some (2024, 2, 29)"
proof -
  have "civil_days 2024 2 29 = Some 19782"
    by (simp add: civil_days_exact civil_days_int_def month_days_def leap_year_def)
  moreover have "\<bar>2024 :: int\<bar> \<le> 10 ^ 16" "\<bar>19782 :: int\<bar> \<le> 3 * 10 ^ 18" by simp_all
  ultimately show ?thesis using civil_date_inverts [of 19782] by blast
qed

end
