(* ===== verification/Time_Roundtrip.thy ===== *)
theory Time_Roundtrip
  imports Calendar
begin

section \<open>align\_runtime: timestamps round-trip\<close>

text \<open>
  What \<open>time_format\<close> prints, \<open>time_parse\<close> reads back as the same instant, rounded down to the precision
  of the format; and every accepted text denotes an instant that has a printed form.
\<close>

declare One_nat_def [simp del]

subsection \<open>Digits\<close>

definition digs :: "nat \<Rightarrow> nat \<Rightarrow> bytes" where
  "digs w v = snd (digit_loop w v [])"

lemma digit_loop_acc: "digit_loop w v acc = (v div 10 ^ w, digs w v @ acc)"
proof (induction w arbitrary: v acc)
  case (Suc w)
  have "digit_loop w (v div 10) (x # ys) = (v div 10 div 10 ^ w, digs w (v div 10) @ x # ys)" for x ys
    using Suc.IH by blast
  moreover have "v div 10 div 10 ^ w = v div (10 ^ Suc w)" by (simp add: div_mult2_eq)
  ultimately show ?case by (simp add: digs_def)
qed (simp add: digs_def)

lemma digs_Suc: "digs (Suc w) v = digs w (v div 10) @ [char_of (48 + v mod 10)]"
  by (simp add: digs_def digit_loop_acc [of w _ "[_]"])

lemma length_digs [simp]: "length (digs w v) = w"
proof (induction w arbitrary: v)
  case (Suc w)
  then show ?case by (simp add: digs_Suc)
qed (simp add: digs_def)

lemma digit_char: "is_ascii_digit (char_of (48 + v mod 10))" "val (char_of (48 + v mod 10)) = 48 + v mod 10"
proof -
  have "v mod 10 < 10" by simp
  then show "val (char_of (48 + v mod 10)) = 48 + v mod 10" by simp
  with \<open>v mod 10 < 10\<close> show "is_ascii_digit (char_of (48 + v mod 10))" by (simp add: is_ascii_digit_def)
qed

lemma decimal_value_append:
  "decimal_value (xs @ ys) a = Option.bind (decimal_value xs a) (decimal_value ys)"
  by (induction xs a rule: decimal_value.induct) auto

lemma decimal_value_digs: "decimal_value (digs w v) a = Some (a * 10 ^ w + int (v mod 10 ^ w))"
proof (induction w arbitrary: v)
  case (Suc w)
  have "int (v mod 10 ^ Suc w) = int (v div 10 mod 10 ^ w) * 10 + int (v mod 10)"
    by (simp add: mod_mult2_eq)
  with Suc show ?case
    by (simp add: digs_Suc decimal_value_append digit_char algebra_simps)
qed (simp add: digs_def)

lemma digs_ascii: "list_all (\<lambda>c. val c < 128) (digs w v)"
proof (induction w arbitrary: v)
  case (Suc w)
  have "v mod 10 < 10" by simp
  with Suc digit_char(2) [of v] show ?case by (simp add: digs_Suc)
qed (simp add: digs_def)

lemma text_digits_eq:
  assumes "0 \<le> v" "v < 10 ^ w" "v < 2 ^ 32" "length out + w \<le> 32"
  shows "text_digits w v out = Some (out @ digs w (nat v))"
proof -
  have "nat v div 10 ^ w = 0" using assms(1,2) by (simp add: nat_less_iff)
  with assms show ?thesis by (simp add: text_digits_def digit_loop_acc)
qed

subsection \<open>Reading what was printed\<close>

text \<open>\<open>rest_at bs pos r\<close>: from \<open>pos\<close> on, the text is \<open>r\<close>.\<close>

definition rest_at :: "bytes \<Rightarrow> nat \<Rightarrow> bytes \<Rightarrow> bool" where
  "rest_at bs pos r \<longleftrightarrow> pos \<le> length bs \<and> drop pos bs = r"

lemma rest_at_start: "rest_at bs 0 bs"
  by (simp add: rest_at_def)

lemma rest_at_end: "rest_at bs pos [] \<Longrightarrow> pos = length bs"
  by (simp add: rest_at_def)

lemma rest_at_skip:
  assumes "rest_at bs pos (x @ r)" shows "rest_at bs (pos + length x) r" "pos + length x \<le> length bs"
proof -
  have "length (drop pos bs) = length x + length r" using assms by (simp add: rest_at_def)
  moreover have "pos \<le> length bs" using assms by (simp add: rest_at_def)
  ultimately show "pos + length x \<le> length bs" by simp
  moreover have "drop (length x) (drop pos bs) = r" using assms by (simp add: rest_at_def)
  ultimately show "rest_at bs (pos + length x) r" by (simp add: rest_at_def add.commute)
qed

lemma rest_at_digits:
  assumes "rest_at bs pos (digs w (nat v) @ r)" "0 \<le> v" "v < 10 ^ w"
  shows "tp_digits bs pos w = Some (v, pos + w)" "rest_at bs (pos + w) r"
proof -
  note sk = rest_at_skip [OF assms(1), unfolded length_digs]
  show "rest_at bs (pos + w) r" by (rule sk)
  have m: "nat v mod 10 ^ w = nat v" using assms(2,3) by (simp add: nat_less_iff)
  have "take w (drop pos bs) = digs w (nat v)" using assms(1) by (simp add: rest_at_def)
  then show "tp_digits bs pos w = Some (v, pos + w)"
    using assms(2) m sk(2) by (simp add: tp_digits_def decimal_value_digs)
qed

lemma rest_at_literal:
  assumes "rest_at bs pos (x @ r)"
  shows "tp_literal bs pos x = Some (pos + length x)" "rest_at bs (pos + length x) r"
proof -
  have "take (length x) (drop pos bs) = x" using assms by (simp add: rest_at_def)
  then show "tp_literal bs pos x = Some (pos + length x)"
    using rest_at_skip(2) [OF assms] by (simp add: tp_literal_def)
qed (rule rest_at_skip(1) [OF assms])

lemma rest_at_peek: "rest_at bs pos (c # r) \<Longrightarrow> tp_peek bs pos = Some c"
  using rest_at_skip(2) [of bs pos "[c]" r] by (simp add: rest_at_def tp_peek_def nth_via_drop)

lemma rest_at_three: "rest_at bs pos (x @ r) \<Longrightarrow> length x = 3 \<Longrightarrow> three_bytes bs pos = Some x"
  using rest_at_skip(2) [of bs pos x r] by (simp add: rest_at_def three_bytes_def)

lemma fraction_loop_digits:
  assumes "rest_at bs pos (ds @ c # r)" "list_all is_ascii_digit ds" "\<not> is_ascii_digit c" "n + length ds \<le> 9"
    and "decimal_value ds a = Some v"
  shows "fraction_loop bs pos n a = Some (n + length ds, v, pos + length ds)"
  using assms
proof (induction ds arbitrary: pos n a)
  case Nil
  then show ?case by (simp add: fraction_loop.simps [of bs pos] rest_at_peek)
next
  case (Cons d ds)
  have pk: "tp_peek bs pos = Some d" using Cons.prems(1) by (simp add: rest_at_peek)
  have r1: "rest_at bs pos ([d] @ ds @ c # r)" using Cons.prems(1) by simp
  note sk = rest_at_skip [OF r1]
  have "take 1 (drop pos bs) = [d]" using Cons.prems(1) by (simp add: rest_at_def One_nat_def)
  then have dg: "tp_digits bs pos 1 = Some (int (val d - 48), pos + 1)"
    using sk(2) Cons.prems(2) by (simp add: tp_digits_def)
  have "fraction_loop bs (pos + 1) (n + 1) (a * 10 + int (val d - 48)) =
      Some (n + 1 + length ds, v, pos + 1 + length ds)"
    using Cons.prems sk(1) by (intro Cons.IH) (simp_all add: One_nat_def)
  then show ?case
    using pk dg Cons.prems(2,4) by (simp add: fraction_loop.simps [of bs pos])
qed

subsection \<open>The fraction of a second\<close>

definition strip_zeros :: "bytes \<Rightarrow> bytes" where
  "strip_zeros ds = rev (dropWhile (\<lambda>c. c = CHR ''0'') (rev ds))"

lemma strip_zeros_split: "\<exists>k. ds = strip_zeros ds @ replicate k CHR ''0''"
proof -
  let ?z = "takeWhile (\<lambda>c. c = CHR ''0'') (rev ds)"
  have "?z = replicate (length ?z) CHR ''0''" by (auto intro!: replicate_length_same [symmetric] dest: set_takeWhileD)
  then have "rev ?z = replicate (length ?z) CHR ''0''" by (metis rev_replicate)
  moreover have "rev ?z @ [] = rev ?z" "ds = strip_zeros ds @ rev ?z"
    by (simp_all add: strip_zeros_def flip: rev_append)
  ultimately show ?thesis by metis
qed

lemma decimal_value_zeros: "decimal_value (replicate k CHR ''0'') a = Some (a * 10 ^ k)"
  by (induction k arbitrary: a) (simp_all add: is_ascii_digit_def algebra_simps)

lemma digs_are_digits: "list_all is_ascii_digit (digs w v)"
proof (induction w arbitrary: v)
  case (Suc w)
  then show ?case by (simp add: digs_Suc digit_char)
qed (simp add: digs_def)

lemma stripped:
  assumes "0 < f" "f < 10 ^ w"
  shows "list_all is_ascii_digit (strip_zeros (digs w (nat f)))" "length (strip_zeros (digs w (nat f))) \<le> w"
    "0 < length (strip_zeros (digs w (nat f)))"
    "\<exists>v. decimal_value (strip_zeros (digs w (nat f))) 0 = Some v \<and> v * 10 ^ (w - length (strip_zeros (digs w (nat f)))) = f"
proof -
  let ?s = "strip_zeros (digs w (nat f))"
  obtain k where k: "digs w (nat f) = ?s @ replicate k CHR ''0''" using strip_zeros_split by blast
  have len: "w = length ?s + k" using arg_cong [OF k, of length] by simp
  show "list_all is_ascii_digit ?s" using digs_are_digits [of w "nat f"] k by (metis list_all_append)
  show "length ?s \<le> w" using len by simp
  have "decimal_value (digs w (nat f)) 0 = Some f" using assms by (simp add: decimal_value_digs nat_less_iff)
  then have v: "Option.bind (decimal_value ?s 0) (decimal_value (replicate k CHR ''0'')) = Some f"
    by (subst (asm) k) (simp add: decimal_value_append)
  then show "\<exists>v. decimal_value ?s 0 = Some v \<and> v * 10 ^ (w - length ?s) = f"
  proof (cases "decimal_value ?s 0")
    case (Some v')
    with v have "v' * 10 ^ k = f" by (simp add: decimal_value_zeros)
    moreover have "w - length ?s = k" using len by linarith
    ultimately show ?thesis using Some by simp
  qed (use v in simp)
  show "0 < length ?s"
  proof (rule ccontr)
    assume "\<not> 0 < length ?s"
    then have "?s = []" by simp
    with v have "0 = f" by (simp add: decimal_value_zeros)
    with assms show False by simp
  qed
qed

definition fraction_text :: "int \<Rightarrow> int \<Rightarrow> bytes" where
  "fraction_text kind f =
     (if kind = 1 then ''.'' @ digs 3 (nat (f div 1000000))
      else if f \<noteq> 0 then ''.'' @ strip_zeros (digs 9 (nat f)) else [])"

lemma parse_fraction_text:
  assumes "rest_at bs pos (fraction_text kind f @ c # r)" "\<not> is_ascii_digit c" "c \<noteq> CHR ''.''"
    and "0 \<le> f" "f < 1000000000" "kind = 1 \<longrightarrow> f mod 1000000 = 0"
  shows "\<exists>n. parse_fraction bs pos = Some (n, f, pos + length (fraction_text kind f)) \<and> (kind = 1 \<longrightarrow> n = 3) \<and>
    rest_at bs (pos + length (fraction_text kind f)) (c # r)"
proof (cases "kind \<noteq> 1 \<and> f = 0")
  case True
  then have "fraction_text kind f = []" by (simp add: fraction_text_def)
  with assms(1,3) True show ?thesis by (simp add: parse_fraction_def rest_at_peek)
next
  case False
  define ds where "ds = (if kind = 1 then digs 3 (nat (f div 1000000)) else strip_zeros (digs 9 (nat f)))"
  have t: "fraction_text kind f = ''.'' @ ds" using False by (auto simp: fraction_text_def ds_def)
  have "list_all is_ascii_digit ds \<and> length ds \<le> 9 \<and> 0 < length ds \<and> (kind = 1 \<longrightarrow> length ds = 3) \<and>
      (\<exists>v. decimal_value ds 0 = Some v \<and> v * 10 ^ (9 - length ds) = f)"
  proof (cases "kind = 1")
    case True
    have "f div 1000000 < 1000" "0 \<le> f div 1000000" using assms(4,5) by auto
    moreover have "f div 1000000 * 1000000 = f" using assms(6) True by (metis add.right_neutral div_mult_mod_eq)
    ultimately show ?thesis
      using True digs_are_digits by (simp add: ds_def decimal_value_digs nat_less_iff)
  next
    case kind: False
    with False stripped [of f 9] assms(4,5) show ?thesis by (simp add: ds_def)
  qed
  then obtain v where d: "list_all is_ascii_digit ds" "length ds \<le> 9" "0 < length ds" "kind = 1 \<longrightarrow> length ds = 3"
    "decimal_value ds 0 = Some v" "v * 10 ^ (9 - length ds) = f" by blast
  have r0: "rest_at bs pos (''.'' @ ds @ c # r)" using assms(1) t by simp
  have l: "tp_literal bs pos ''.'' = Some (pos + 1)" "rest_at bs (pos + 1) (ds @ c # r)"
    using rest_at_literal [OF r0] by (simp_all add: One_nat_def)
  have "fraction_loop bs (pos + 1) 0 0 = Some (0 + length ds, v, pos + 1 + length ds)"
    using d by (intro fraction_loop_digits [OF l(2) _ assms(2)]) simp_all
  moreover have "tp_peek bs pos = Some CHR ''.''" using r0 by (simp add: rest_at_peek)
  moreover have "rest_at bs (pos + 1 + length ds) (c # r)" using rest_at_skip(1) [OF l(2)] by simp
  moreover have "pos + length (fraction_text kind f) = pos + 1 + length ds" by (simp add: t)
  ultimately show ?thesis using l(1) d by (simp add: parse_fraction_def add.assoc)
qed

subsection \<open>Printed texts\<close>

text \<open>The fields of an instant, within the ranges they are printed with.\<close>

definition fields_ok :: "int \<Rightarrow> int \<Rightarrow> int \<Rightarrow> int \<Rightarrow> int \<Rightarrow> int \<Rightarrow> int \<Rightarrow> bool" where
  "fields_ok year month day hour minute second f \<longleftrightarrow>
     0 \<le> year \<and> year \<le> 9999 \<and> 1 \<le> month \<and> month \<le> 12 \<and> 1 \<le> day \<and> day \<le> 31 \<and> 0 \<le> hour \<and> hour \<le> 23 \<and>
     0 \<le> minute \<and> minute \<le> 59 \<and> 0 \<le> second \<and> second \<le> 59 \<and> 0 \<le> f \<and> f < 1000000000"

abbreviation dig2 :: "int \<Rightarrow> bytes" where
  "dig2 v \<equiv> digs 2 (nat v)"

abbreviation dig4 :: "int \<Rightarrow> bytes" where
  "dig4 v \<equiv> digs 4 (nat v)"

lemma text_steps:
  "length out + length x \<le> 32 \<Longrightarrow> text_push x out = Some (out @ x)"
  "0 \<le> v \<Longrightarrow> v \<le> 99 \<Longrightarrow> length out \<le> 30 \<Longrightarrow> text_digits 2 v out = Some (out @ dig2 v)"
  "0 \<le> v \<Longrightarrow> v \<le> 9999 \<Longrightarrow> length out \<le> 28 \<Longrightarrow> text_digits 4 v out = Some (out @ dig4 v)"
  by (simp_all add: text_push_def text_digits_eq)

lemma drop_zeros_fraction: "drop_zeros (length pre) (pre @ ''.'' @ ds) = pre @ ''.'' @ strip_zeros ds"
proof -
  have "dropWhile (\<lambda>c. c = CHR ''0'') (rev ds @ ''.'') = dropWhile (\<lambda>c. c = CHR ''0'') (rev ds) @ ''.''"
    by (induction "rev ds") (auto simp: dropWhile_append)
  then show ?thesis by (simp add: drop_zeros_def strip_zeros_def)
qed

lemma rfc3339_text:
  assumes "fields_ok year month day hour minute second f"
  shows "format_rfc3339 kind year month day hour minute second f =
    Some (dig4 year @ ''-'' @ dig2 month @ ''-'' @ dig2 day @ ''T'' @ dig2 hour @ '':'' @ dig2 minute @ '':'' @
      dig2 second @ fraction_text kind f @ ''Z'')"
proof -
  have b: "0 \<le> year" "year \<le> 9999" "0 \<le> month" "month \<le> 99" "0 \<le> day" "day \<le> 99" "0 \<le> hour" "hour \<le> 99"
    "0 \<le> minute" "minute \<le> 99" "0 \<le> second" "second \<le> 99" "0 \<le> f" "f < 1000000000"
    using assms by (simp_all add: fields_ok_def)
  let ?pre = "dig4 year @ ''-'' @ dig2 month @ ''-'' @ dig2 day @ ''T'' @ dig2 hour @ '':'' @ dig2 minute @ '':'' @ dig2 second"
  have l: "length (strip_zeros (digs 9 (nat f))) \<le> 9"
    using strip_zeros_split [of "digs 9 (nat f)"] by (metis length_append length_digs le_add1)
  have f3: "text_digits 3 (f div 1000000) (?pre @ ''.'') = Some (?pre @ ''.'' @ digs 3 (nat (f div 1000000)))"
    using b(13,14) by (subst text_digits_eq) auto
  have f9: "text_digits 9 f (?pre @ ''.'') = Some (?pre @ ''.'' @ digs 9 (nat f))"
    using b(13,14) by (subst text_digits_eq) auto
  show ?thesis
    using f3 f9 l drop_zeros_fraction [of ?pre "digs 9 (nat f)"] b
    by (simp add: format_rfc3339_def text_steps fraction_text_def)
qed

definition name_ok :: "bytes list \<Rightarrow> (bytes \<Rightarrow> nat option) \<Rightarrow> nat \<Rightarrow> bool" where
  "name_ok table index i \<longleftrightarrow> i < length table \<and> length (table ! i) = 3 \<and> index (table ! i) = Some i \<and>
     list_all (\<lambda>c. val c < 128) (table ! i)"

lemma tables_ok: "list_all (name_ok MONTHS month_index) [0..<12]" "list_all (name_ok WEEKDAYS weekday_index) [0..<7]"
  by code_simp+

lemma names:
  assumes "0 \<le> i" "i < 12"
  shows "nat i < length MONTHS" "length (MONTHS ! nat i) = 3" "month_index (MONTHS ! nat i) = Some (nat i)"
    "list_all (\<lambda>c. val c < 128) (MONTHS ! nat i)"
proof -
  have "nat i \<in> set [0..<12]" using assms by auto
  then have "name_ok MONTHS month_index (nat i)" using tables_ok(1) by (metis list_all_iff)
  then show "nat i < length MONTHS" "length (MONTHS ! nat i) = 3" "month_index (MONTHS ! nat i) = Some (nat i)"
    "list_all (\<lambda>c. val c < 128) (MONTHS ! nat i)" by (simp_all add: name_ok_def)
qed

lemma weekday_names:
  assumes "0 \<le> i" "i < 7"
  shows "nat i < length WEEKDAYS" "length (WEEKDAYS ! nat i) = 3" "weekday_index (WEEKDAYS ! nat i) = Some (nat i)"
    "list_all (\<lambda>c. val c < 128) (WEEKDAYS ! nat i)"
proof -
  have "nat i \<in> set [0..<7]" using assms by auto
  then have "name_ok WEEKDAYS weekday_index (nat i)" using tables_ok(2) by (metis list_all_iff)
  then show "nat i < length WEEKDAYS" "length (WEEKDAYS ! nat i) = 3" "weekday_index (WEEKDAYS ! nat i) = Some (nat i)"
    "list_all (\<lambda>c. val c < 128) (WEEKDAYS ! nat i)" by (simp_all add: name_ok_def)
qed

lemma rfc1123_text:
  assumes "fields_ok year month day hour minute second f"
  shows "format_rfc1123 days year month day hour minute second =
    Some (WEEKDAYS ! nat ((days + 4) mod 7) @ '', '' @ dig2 day @ '' '' @ MONTHS ! nat (month - 1) @ '' '' @ dig4 year @
      '' '' @ dig2 hour @ '':'' @ dig2 minute @ '':'' @ dig2 second @ '' GMT'')"
proof -
  have b: "0 \<le> year" "year \<le> 9999" "0 \<le> month - 1" "month - 1 < 12" "0 \<le> day" "day \<le> 99" "0 \<le> hour" "hour \<le> 99"
    "0 \<le> minute" "minute \<le> 99" "0 \<le> second" "second \<le> 99"
    using assms by (simp_all add: fields_ok_def)
  have w: "0 \<le> (days + 4) mod 7" "(days + 4) mod 7 < 7" by simp_all
  show ?thesis
    using b names [OF b(3,4)] weekday_names [OF w] by (simp add: format_rfc1123_def Let_def text_steps)
qed

lemma basic_text:
  assumes "fields_ok year month day hour minute second f"
  shows "format_basic kind year month day hour minute second =
    Some (dig4 year @ dig2 month @ dig2 day @ (if kind = 3 then ''T'' @ dig2 hour @ dig2 minute @ dig2 second @ ''Z'' else []))"
proof -
  have b: "0 \<le> year" "year \<le> 9999" "0 \<le> month" "month \<le> 99" "0 \<le> day" "day \<le> 99" "0 \<le> hour" "hour \<le> 99"
    "0 \<le> minute" "minute \<le> 99" "0 \<le> second" "second \<le> 99"
    using assms by (simp_all add: fields_ok_def)
  then show ?thesis by (simp add: format_basic_def text_steps)
qed

subsection \<open>Reading the printed texts\<close>

lemma digits2:
  assumes "rest_at bs pos (dig2 v @ r)" "0 \<le> v" "v \<le> 99"
  shows "tp_digits bs pos 2 = Some (v, pos + 2)" "rest_at bs (pos + 2) r"
  using rest_at_digits [OF assms(1,2)] assms(3) by simp_all

lemma four_digits:
  assumes "rest_at bs pos (dig4 v @ r)" "0 \<le> v" "v \<le> 9999"
  shows "tp_digits bs pos 4 = Some (v, pos + 4)" "rest_at bs (pos + 4) r"
  using rest_at_digits [OF assms(1,2)] assms(3) by simp_all

lemma literal1:
  assumes "rest_at bs pos (c # r)"
  shows "tp_literal bs pos [c] = Some (pos + 1)" "rest_at bs (pos + 1) r"
  using rest_at_literal [of bs pos "[c]" r] assms by (simp_all add: One_nat_def)

definition sep_if :: "bool \<Rightarrow> byte \<Rightarrow> bytes" where
  "sep_if b c = (if b then [c] else [])"

lemma literal_if_text:
  assumes "rest_at bs pos (sep_if b c @ r)"
  shows "literal_if b bs pos [c] = Some (pos + (if b then 1 else 0))" "rest_at bs (pos + (if b then 1 else 0)) r"
  using assms literal1 [of bs pos c r] by (cases b; simp add: literal_if_def sep_if_def)+

lemma parse_date_text:
  assumes "rest_at bs 0 (dig4 year @ sep_if (kind < 2) CHR ''-'' @ dig2 month @ sep_if (kind < 2) CHR ''-'' @ dig2 day @
      sep_if (kind \<noteq> 4) CHR ''T'' @ r)" "kind \<noteq> 2"
    and "0 \<le> year" "year \<le> 9999" "0 \<le> month" "month \<le> 99" "0 \<le> day" "day \<le> 99"
  shows "\<exists>pos. parse_date bs kind = Some (None, year, month, day, pos) \<and> rest_at bs pos r"
proof -
  let ?p1 = "0 + 4 + (if kind < 2 then 1 else 0 :: nat)"
  note y = four_digits [OF assms(1,3,4)]
  note l1 = literal_if_text [OF y(2)]
  note m = digits2 [OF l1(2) assms(5,6)]
  note l2 = literal_if_text [OF m(2)]
  note d = digits2 [OF l2(2) assms(7,8)]
  let ?p = "?p1 + 2 + (if kind < 2 then 1 else 0) + 2"
  have "\<exists>q. (if kind \<noteq> 4 then if kind < 2 \<and> tp_peek bs ?p = Some CHR ''t'' then tp_literal bs ?p ''t''
      else tp_literal bs ?p ''T'' else Some ?p) = Some q \<and> rest_at bs q r"
  proof (cases "kind = 4")
    case True
    then show ?thesis using d(2) by (simp add: sep_if_def)
  next
    case False
    then have "rest_at bs ?p (CHR ''T'' # r)" using d(2) by (simp add: sep_if_def)
    from rest_at_peek [OF this] literal1 [OF this] False show ?thesis by simp
  qed
  then show ?thesis using assms(2) y(1) l1(1) m(1) l2(1) d(1) by (auto simp: parse_date_def)
qed

lemma parse_date_rfc1123:
  assumes "rest_at bs 0 (WEEKDAYS ! nat w @ '', '' @ dig2 day @ '' '' @ MONTHS ! nat (month - 1) @ '' '' @ dig4 year @ '' '' @ r)"
    and "0 \<le> w" "w < 7" "0 \<le> year" "year \<le> 9999" "1 \<le> month" "month \<le> 12" "0 \<le> day" "day \<le> 99"
  shows "\<exists>pos. parse_date bs 2 = Some (Some (nat w), year, month, day, pos) \<and> rest_at bs pos r"
proof -
  have mi: "0 \<le> month - 1" "month - 1 < 12" using assms(6,7) by simp_all
  note wn = weekday_names [OF assms(2,3)] and mn = names [OF mi]
  have r0: "rest_at bs 3 ('', '' @ dig2 day @ '' '' @ MONTHS ! nat (month - 1) @ '' '' @ dig4 year @ '' '' @ r)"
    using rest_at_skip(1) [OF assms(1)] wn(2) by simp
  have l1: "tp_literal bs 3 '', '' = Some 5" "rest_at bs 5 (dig2 day @ '' '' @ MONTHS ! nat (month - 1) @ '' '' @ dig4 year @ '' '' @ r)"
    using rest_at_literal [OF r0] by simp_all
  have d: "tp_digits bs 5 2 = Some (day, 7)" "rest_at bs 7 (CHR '' '' # MONTHS ! nat (month - 1) @ '' '' @ dig4 year @ '' '' @ r)"
    using digits2 [OF l1(2) assms(8,9)] by simp_all
  have l2: "tp_literal bs 7 '' '' = Some 8" "rest_at bs 8 (MONTHS ! nat (month - 1) @ '' '' @ dig4 year @ '' '' @ r)"
    using literal1 [OF d(2)] by simp_all
  have r3: "rest_at bs 11 (CHR '' '' # dig4 year @ '' '' @ r)" using rest_at_skip(1) [OF l2(2)] mn(2) by simp
  have l3: "tp_literal bs 11 '' '' = Some 12" "rest_at bs 12 (dig4 year @ '' '' @ r)"
    using literal1 [OF r3] by simp_all
  have y: "tp_digits bs 12 4 = Some (year, 16)" "rest_at bs 16 (CHR '' '' # r)"
    using four_digits [OF l3(2) assms(4,5)] by simp_all
  have l4: "tp_literal bs 16 '' '' = Some 17" "rest_at bs 17 r" using literal1 [OF y(2)] by simp_all
  have "three_bytes bs 0 = Some (WEEKDAYS ! nat w)" "three_bytes bs 8 = Some (MONTHS ! nat (month - 1))"
    using rest_at_three [OF assms(1) wn(2)] rest_at_three [OF l2(2) mn(2)] by simp_all
  then have "parse_date bs 2 = Some (Some (nat w), year, int (nat (month - 1)) + 1, day, 17)"
    using wn(3) mn(3) l1(1) d(1) l2(1) l3(1) y(1) l4(1) by (simp add: parse_date_def)
  then show ?thesis using mi l4(2) by simp
qed

text \<open>The text of an instant, by its fields.\<close>

definition clock_tail :: "int \<Rightarrow> int \<Rightarrow> bytes" where
  "clock_tail kind f = (if kind < 2 then fraction_text kind f @ ''Z'' else if kind = 2 then '' GMT'' else ''Z'')"

definition clock_text :: "int \<Rightarrow> int \<Rightarrow> int \<Rightarrow> int \<Rightarrow> int \<Rightarrow> bytes" where
  "clock_text kind hour minute second f =
     dig2 hour @ sep_if (kind < 3) CHR '':'' @ dig2 minute @ sep_if (kind < 3) CHR '':'' @ dig2 second @ clock_tail kind f"

definition date_text :: "int \<Rightarrow> int \<Rightarrow> int \<Rightarrow> int \<Rightarrow> int \<Rightarrow> bytes" where
  "date_text kind days year month day =
     (if kind = 2
      then WEEKDAYS ! nat ((days + 4) mod 7) @ '', '' @ dig2 day @ '' '' @ MONTHS ! nat (month - 1) @ '' '' @ dig4 year @ '' ''
      else dig4 year @ sep_if (kind < 2) CHR ''-'' @ dig2 month @ sep_if (kind < 2) CHR ''-'' @ dig2 day @
        sep_if (kind \<noteq> 4) CHR ''T'')"

definition instant_text :: "int \<Rightarrow> int \<Rightarrow> int \<Rightarrow> int \<Rightarrow> int \<Rightarrow> int \<Rightarrow> int \<Rightarrow> int \<Rightarrow> int \<Rightarrow> bytes" where
  "instant_text kind days year month day hour minute second f =
     date_text kind days year month day @ (if kind = 4 then [] else clock_text kind hour minute second f)"

lemma five: "resolution kind = Some p \<Longrightarrow> kind = 0 \<or> kind = 1 \<or> kind = 2 \<or> kind = 3 \<or> kind = 4"
  by (auto simp: resolution_def split: if_splits)

lemma printed_text:
  assumes "fields_ok year month day hour minute second f" "resolution kind = Some p"
  shows "(if kind = 0 \<or> kind = 1 then format_rfc3339 kind year month day hour minute second f
      else if kind = 2 then format_rfc1123 days year month day hour minute second
      else if kind = 3 \<or> kind = 4 then format_basic kind year month day hour minute second
      else None) = Some (instant_text kind days year month day hour minute second f)"
  using five [OF assms(2)] rfc3339_text [OF assms(1)] rfc1123_text [OF assms(1)] basic_text [OF assms(1)]
  by (elim disjE) (simp_all add: instant_text_def date_text_def clock_text_def clock_tail_def sep_if_def)

lemma parse_clock_text:
  assumes "rest_at bs pos (clock_text kind hour minute second f)" "kind \<in> {0, 1, 2, 3}"
    and "0 \<le> hour" "hour \<le> 23" "0 \<le> minute" "minute \<le> 59" "0 \<le> second" "second \<le> 59" "0 \<le> f" "f < 1000000000"
    and "kind = 1 \<longrightarrow> f mod 1000000 = 0"
  shows "parse_clock bs kind pos =
    Some ((hour * 3600 + minute * 60 + second) * SECOND + (if kind < 2 then f else 0), length bs)"
proof -
  have up: "hour \<le> 99" "minute \<le> 99" "second \<le> 99" using assms by simp_all
  note h = digits2 [OF assms(1) [unfolded clock_text_def] assms(3) up(1)]
  note l1 = literal_if_text [OF h(2)]
  note m = digits2 [OF l1(2) assms(5) up(2)]
  note l2 = literal_if_text [OF m(2)]
  note s = digits2 [OF l2(2) assms(7) up(3)]
  have ok: "\<not> (23 < hour \<or> 59 < minute \<or> 59 < second)" using assms by simp
  define q where "q = pos + 2 + (if kind < 3 then 1 else 0) + 2 + (if kind < 3 then 1 else 0) + 2"
  have r: "rest_at bs q (clock_tail kind f)" using s(2) by (simp only: q_def)
  have "(if kind < 2 then do { (digits, fraction, pos) \<leftarrow> parse_fraction bs q;
           if kind = 1 \<and> digits \<noteq> 3 then None
           else do { (offset, pos) \<leftarrow> parse_zone bs pos;
             Some ((hour * 3600 + minute * 60 + second) * SECOND + fraction - offset, pos) } }
       else do { pos \<leftarrow> tp_literal bs q (if kind = 2 then '' GMT'' else ''Z'');
         Some ((hour * 3600 + minute * 60 + second) * SECOND, pos) }) =
     Some ((hour * 3600 + minute * 60 + second) * SECOND + (if kind < 2 then f else 0), length bs)"
  proof (cases "kind < 2")
    case True
    let ?e = "q + length (fraction_text kind f)"
    have "rest_at bs q (fraction_text kind f @ CHR ''Z'' # [])" using r True by (simp add: clock_tail_def)
    from parse_fraction_text [OF this _ _ assms(9,10,11)] obtain n where
      n: "parse_fraction bs q = Some (n, f, ?e)" "kind = 1 \<longrightarrow> n = 3" "rest_at bs ?e ''Z''"
      by (auto simp: is_ascii_digit_def)
    have "parse_zone bs ?e = Some (0, ?e + 1)" using rest_at_peek [OF n(3)] by (simp add: parse_zone_def)
    moreover have "?e + 1 = length bs" using rest_at_end [OF literal1(2) [OF n(3)]] by simp
    ultimately show ?thesis using True n(1,2) by simp
  next
    case False
    then have "rest_at bs q ((if kind = 2 then '' GMT'' else ''Z'') @ [])" using r by (simp add: clock_tail_def)
    from rest_at_literal [OF this] rest_at_end False show ?thesis by simp
  qed
  then show ?thesis
    unfolding parse_clock_def using h(1) l1(1) m(1) l2(1) s(1) ok by (simp only: Option.bind.simps prod.case Let_def if_False q_def)
qed

lemma text_bytes:
  "list_all P (sep_if b c) \<longleftrightarrow> (b \<longrightarrow> P c)" "length (sep_if b c) \<le> 1"
  by (simp_all add: sep_if_def)

lemma fraction_text_bytes: "0 \<le> f \<Longrightarrow> list_all (\<lambda>c. val c < 128) (fraction_text kind f) \<and> length (fraction_text kind f) \<le> 10"
proof -
  obtain k where k: "digs 9 (nat f) = strip_zeros (digs 9 (nat f)) @ replicate k CHR ''0''" using strip_zeros_split by blast
  have "list_all (\<lambda>c. val c < 128) (strip_zeros (digs 9 (nat f)))" using digs_ascii [of 9 "nat f"] k by (metis list_all_append)
  moreover have "length (strip_zeros (digs 9 (nat f))) \<le> 9" using arg_cong [OF k, of length] by simp
  ultimately show ?thesis using digs_ascii by (simp add: fraction_text_def)
qed

lemma instant_text_bytes:
  assumes "fields_ok year month day hour minute second f"
  shows "list_all (\<lambda>c. val c < 128) (instant_text kind days year month day hour minute second f)"
    "length (instant_text kind days year month day hour minute second f) \<le> 35"
proof -
  have mi: "0 \<le> month - 1" "month - 1 < 12" and f: "0 \<le> f" using assms by (simp_all add: fields_ok_def)
  have w: "0 \<le> (days + 4) mod 7" "(days + 4) mod 7 < 7" by simp_all
  note n = names [OF mi] weekday_names [OF w] fraction_text_bytes [OF f, of kind]
  have d: "list_all (\<lambda>c. val c < 128) (date_text kind days year month day)"
    "length (date_text kind days year month day) \<le> (if kind = 2 then 17 else 11)"
    using n digs_ascii by (auto simp: date_text_def text_bytes sep_if_def)
  have c: "list_all (\<lambda>c. val c < 128) (clock_text kind hour minute second f)"
    "length (clock_text kind hour minute second f) \<le> (if kind = 2 then 12 else 19)"
    using n digs_ascii by (auto simp: clock_text_def clock_tail_def text_bytes sep_if_def)
  show "list_all (\<lambda>c. val c < 128) (instant_text kind days year month day hour minute second f)"
    using d(1) c(1) by (simp add: instant_text_def)
  show "length (instant_text kind days year month day hour minute second f) \<le> 35"
    using d(2) c(2) by (auto simp: instant_text_def split: if_splits)
qed

subsection \<open>The fields of an instant\<close>

lemma days_range:
  assumes "i64_fits r" shows "- 106752 \<le> r div DAY" "r div DAY \<le> 106751"
proof -
  have "- 9223372036854775808 \<le> r" "r < 9223372036854775808" using assms by (simp_all add: i64_fits_def)
  moreover have D: "DAY = 86400000000000" by (simp add: DAY_def SECOND_def)
  moreover have "86400000000000 * (r div DAY) \<le> r" "r < 86400000000000 * (r div DAY) + 86400000000000"
    unfolding D by auto
  ultimately show "- 106752 \<le> r div DAY" "r div DAY \<le> 106751" by linarith+
qed

lemma year_range:
  assumes "civil_days_int year month day = Some n" "- 106752 \<le> n" "n \<le> 106751"
  shows "0 \<le> year" "year \<le> 9999" "1 \<le> month" "month \<le> 12" "1 \<le> day" "day \<le> 31"
proof -
  obtain k where k: "month_days year month = Some k" "1 \<le> day" "day \<le> k"
    using assms(1) by (auto simp: civil_days_int_def split: bind_splits if_splits)
  show m: "1 \<le> month" "month \<le> 12" using month_days_range [OF k(1)] by simp_all
  have "k \<le> 31" using k(1) by (auto simp: month_days_def split: if_splits)
  then show d: "1 \<le> day" "day \<le> 31" using k by simp_all
  define a where "a = year - (if month \<le> 2 then 1 else 0)"
  have n: "n = 365 * a + leap_days a + march_start (march_of month) + day - 719469"
    using civil_days_int_formula [OF k a_def] assms(1) by simp
  have ms: "0 \<le> march_start (march_of month)" "march_start (march_of month) \<le> 337"
    using march_of_range [OF m] by (auto simp: march_start_def)
  have q: "4 * (a div 4) \<le> a" "a \<le> 4 * (a div 4) + 3" "100 * (a div 100) \<le> a" "a \<le> 100 * (a div 100) + 99"
    "400 * (a div 400) \<le> a" "a \<le> 400 * (a div 400) + 399" by auto
  have "1000 \<le> a" "a \<le> 3000" using n ms q d assms(2,3) unfolding leap_days_def by linarith+
  then show "0 \<le> year" "year \<le> 9999" by (simp_all add: a_def split: if_splits)
qed

lemma clock_fields:
  assumes "0 \<le> w" "w < DAY"
  shows "0 \<le> w div (3600 * SECOND)" "w div (3600 * SECOND) \<le> 23"
    "(w div (3600 * SECOND) * 3600 + w div (60 * SECOND) mod 60 * 60 + w div SECOND mod 60) * SECOND + w mod SECOND = w"
proof -
  have S: "SECOND = 1000000000" "DAY = 86400000000000" by (simp_all add: SECOND_def DAY_def)
  show "0 \<le> w div (3600 * SECOND)" "w div (3600 * SECOND) \<le> 23" using assms by (auto simp: S)
  let ?t = "w div SECOND"
  have "w div (60 * SECOND) = ?t div 60" "w div (3600 * SECOND) = ?t div 60 div 60"
    by (simp_all add: S flip: zdiv_zmult2_eq)
  moreover have "?t div 60 div 60 * 3600 + ?t div 60 mod 60 * 60 + ?t mod 60 = ?t"
  proof -
    have "?t div 60 div 60 * 60 + ?t div 60 mod 60 = ?t div 60" "?t div 60 * 60 + ?t mod 60 = ?t" by simp_all
    then show ?thesis by linarith
  qed
  ultimately show "(w div (3600 * SECOND) * 3600 + w div (60 * SECOND) mod 60 * 60 + w div SECOND mod 60) * SECOND +
      w mod SECOND = w" by simp
qed

lemma resolution_pos: "resolution kind = Some p \<Longrightarrow> 0 < p \<and> (kind = 1 \<longrightarrow> p = 1000000) \<and> ((kind = 2 \<or> kind = 3) \<longrightarrow> p = 1000000000) \<and>
    (kind = 4 \<longrightarrow> p = 86400000000000)"
  by (auto simp: resolution_def SECOND_def DAY_def split: if_splits)

text \<open>What is left of an instant under the precision of its format.\<close>

lemma rounded_fraction:
  assumes "resolution kind = Some p" "r = ns div p * p"
  shows "kind = 1 \<longrightarrow> r mod DAY mod SECOND mod 1000000 = 0" "kind = 2 \<or> kind = 3 \<longrightarrow> r mod DAY mod SECOND = 0"
    "kind = 4 \<longrightarrow> r mod DAY = 0"
proof -
  have S: "SECOND = 1000000000" "DAY = 86400000000000" by (simp_all add: SECOND_def DAY_def)
  have "r mod DAY mod SECOND mod 1000000 = r mod 1000000" "r mod DAY mod SECOND = r mod 1000000000"
    by (simp_all add: S mod_mod_cancel)
  moreover have "r mod p = 0" by (simp add: assms(2))
  ultimately show "kind = 1 \<longrightarrow> r mod DAY mod SECOND mod 1000000 = 0" "kind = 2 \<or> kind = 3 \<longrightarrow> r mod DAY mod SECOND = 0"
    "kind = 4 \<longrightarrow> r mod DAY = 0"
    using resolution_pos [OF assms(1)] S by auto
qed

lemma parse_instant_text:
  assumes f: "fields_ok year month day hour minute second f" and k: "resolution kind = Some p"
    and c: "civil_days year month day = Some days" and "kind = 1 \<longrightarrow> f mod 1000000 = 0"
  shows "time_parse (instant_text kind days year month day hour minute second f) kind =
    i64_checked (days * DAY + (if kind = 4 then 0 else (hour * 3600 + minute * 60 + second) * SECOND + (if kind < 2 then f else 0)))"
proof -
  let ?t = "instant_text kind days year month day hour minute second f"
  let ?r = "if kind = 4 then [] else clock_text kind hour minute second f"
  let ?w = "if kind = 2 then Some (nat ((days + 4) mod 7)) else None"
  have b: "0 \<le> year" "year \<le> 9999" "1 \<le> month" "month \<le> 12" "0 \<le> month" "month \<le> 99" "0 \<le> day" "day \<le> 99"
    using f by (simp_all add: fields_ok_def)
  have "\<exists>pos. parse_date ?t kind = Some (?w, year, month, day, pos) \<and> rest_at ?t pos ?r"
  proof (cases "kind = 2")
    case True
    have "rest_at ?t 0 (WEEKDAYS ! nat ((days + 4) mod 7) @ '', '' @ dig2 day @ '' '' @ MONTHS ! nat (month - 1) @ '' '' @
        dig4 year @ '' '' @ ?r)" using rest_at_start [of ?t] True by (simp add: instant_text_def date_text_def)
    from parse_date_rfc1123 [OF this _ _ b(1-4,7,8)] True show ?thesis by simp
  next
    case False
    have "rest_at ?t 0 (dig4 year @ sep_if (kind < 2) CHR ''-'' @ dig2 month @ sep_if (kind < 2) CHR ''-'' @ dig2 day @
        sep_if (kind \<noteq> 4) CHR ''T'' @ ?r)" using rest_at_start [of ?t] False by (simp add: instant_text_def date_text_def)
    from parse_date_text [OF this False b(1,2,5-8)] False show ?thesis by simp
  qed
  then obtain pos where d: "parse_date ?t kind = Some (?w, year, month, day, pos)" "rest_at ?t pos ?r" by blast
  have "(if kind \<noteq> 4 then parse_clock ?t kind pos else Some (0, pos)) =
      Some (if kind = 4 then 0 else (hour * 3600 + minute * 60 + second) * SECOND + (if kind < 2 then f else 0), length ?t)"
  proof (cases "kind = 4")
    case True
    then show ?thesis using d(2) rest_at_end by simp
  next
    case False
    then have "kind \<in> {0, 1, 2, 3}" using five [OF k] by auto
    moreover have "rest_at ?t pos (clock_text kind hour minute second f)" using d(2) False by simp
    ultimately show ?thesis using parse_clock_text f assms(4) False by (simp add: fields_ok_def)
  qed
  moreover have "\<not> (35 < length ?t \<or> \<not> list_all (\<lambda>c. val c < 128) ?t)" using instant_text_bytes [OF f] by (simp add: not_less)
  moreover have "\<not> (case ?w of Some w \<Rightarrow> int w \<noteq> (days + 4) mod 7 | None \<Rightarrow> False)" by simp
  ultimately show ?thesis
    unfolding time_parse_def using k d(1) c by (simp only: Option.bind.simps prod.case if_False simp_thms)
qed

lemma time_format_text:
  assumes "i64_fits ns" "resolution kind = Some p" "i64_fits (ns div p * p)"
  shows "\<exists>t. time_format ns kind = Some t \<and> time_parse t kind = Some (ns div p * p)"
proof -
  define r w where "r = ns div p * p" and "w = r mod DAY"
  define h m s f where "h = w div (3600 * SECOND)" and "m = w div (60 * SECOND) mod 60" and "s = w div SECOND mod 60"
    and "f = w mod SECOND"
  have S: "SECOND = 1000000000" "0 < DAY" by (simp_all add: SECOND_def DAY_def)
  have days: "- 106752 \<le> r div DAY" "r div DAY \<le> 106751" using days_range assms(3) by (simp_all add: r_def)
  then have fits: "i64_fits (r div DAY)" "i64_fits (r div DAY + 719468)" by (simp_all add: i64_fits_def)
  obtain era c q a d where p: "era_parts c q a d" "r div DAY = day_number era c q a d" by (rule day_parts)
  obtain year month day where dt: "date_of era c q a d = (year, month, day)" by (metis prod_cases3)
  have cd: "civil_date (r div DAY) = Some (year, month, day)"
    using civil_date_parts [OF p(1) fits(2) [unfolded p(2)]] unfolding p(2) dt .
  have ci: "civil_days_int year month day = Some (r div DAY)" using civil_days_int_date_of [OF p(1) dt] unfolding p(2) .
  note yr = year_range [OF ci days]
  have cn: "civil_days year month day = Some (r div DAY)" using ci yr(1,2) by (subst civil_days_exact) simp_all
  have w: "0 \<le> w" "w < DAY" using S(2) by (simp_all add: w_def)
  note ck = clock_fields [OF w, folded h_def m_def s_def f_def]
  have "0 \<le> m" "m \<le> 59" "0 \<le> s" "s \<le> 59" "0 \<le> f" "f < 1000000000" by (simp_all add: m_def s_def f_def S(1))
  with yr ck(1,2) have ok: "fields_ok year month day h m s f" by (simp add: fields_ok_def)
  note rf = rounded_fraction [OF assms(2) r_def, folded w_def]
  have "time_format ns kind = Some (instant_text kind (r div DAY) year month day h m s f)"
    using printed_text [OF ok assms(2), of "r div DAY"] assms fits cd
    unfolding time_format_def h_def m_def s_def f_def w_def r_def i64_checked_def
    by (simp only: Option.bind.simps prod.case if_True Let_def)
  moreover have "r div DAY * DAY + w = r" by (simp add: w_def)
  moreover have "(h * 3600 + m * 60 + s) * SECOND + f = w" using ck(3) .
  moreover have "kind = 1 \<longrightarrow> f mod 1000000 = 0" "kind = 2 \<or> kind = 3 \<longrightarrow> f = 0" "kind = 4 \<longrightarrow> w = 0"
    using rf by (simp_all add: f_def)
  ultimately show ?thesis
    using parse_instant_text [OF ok assms(2) cn] assms(3) five [OF assms(2)]
    by (auto simp: i64_checked_def simp flip: r_def)
qed

lemma parse_fraction_scaled: "parse_fraction bs pos = Some (3, x, q) \<Longrightarrow> 1000000 dvd x"
  by (auto simp: parse_fraction_def split: if_splits bind_splits)

lemma parse_zone_scaled: "parse_zone bs pos = Some (x, q) \<Longrightarrow> SECOND dvd x"
  by (auto simp: parse_zone_def Let_def split: if_splits bind_splits)

lemma parse_clock_scaled:
  assumes "parse_clock bs kind pos = Some (x, q)"
  shows "kind = 1 \<longrightarrow> 1000000 dvd x" "2 \<le> kind \<longrightarrow> SECOND dvd x"
proof -
  have S: "1000000 dvd SECOND" by (simp add: SECOND_def)
  obtain t pos' where t: "(kind < 2 \<and> (\<exists>n f e o'. parse_fraction bs pos' = Some (n, f, e) \<and> \<not> (kind = 1 \<and> n \<noteq> 3) \<and>
       parse_zone bs e = Some (o', q) \<and> x = t * SECOND + f - o')) \<or> x = t * SECOND"
    using assms unfolding parse_clock_def Let_def
    by (auto split: if_split_asm bind_split_asm simp del: mult_cancel_right) blast+
  define v where "v = t * SECOND"
  have v: "SECOND dvd v" "(kind < 2 \<and> (\<exists>n f e o'. parse_fraction bs pos' = Some (n, f, e) \<and> \<not> (kind = 1 \<and> n \<noteq> 3) \<and>
       parse_zone bs e = Some (o', q) \<and> x = v + f - o')) \<or> x = v" using t by (simp_all add: v_def)
  show "2 \<le> kind \<longrightarrow> SECOND dvd x" using v by auto
  show "kind = 1 \<longrightarrow> 1000000 dvd x"
  proof
    assume "kind = 1"
    with v(2) consider f e o' where "parse_fraction bs pos' = Some (3, f, e)" "parse_zone bs e = Some (o', q)" "x = v + f - o'"
      | "x = v" by auto
    then show "1000000 dvd x"
      by cases (use parse_fraction_scaled parse_zone_scaled v(1) S in \<open>meson dvd_add dvd_diff dvd_trans\<close>)+
  qed
qed

lemma time_parse_scaled:
  assumes "time_parse t kind = Some v" "resolution kind = Some p"
  shows "i64_fits v" "p dvd v"
proof -
  obtain days pos x q where d: "(if kind \<noteq> 4 then parse_clock t kind pos else Some (0, pos)) = Some (x, q)"
    "i64_checked (days * DAY + x) = Some v"
    using assms(1) unfolding time_parse_def by (auto split: if_splits bind_splits)
  then show "i64_fits v" by (simp add: i64_checked_def split: if_splits)
  have v: "v = days * DAY + x" using d(2) by (simp add: i64_checked_def split: if_splits)
  have D: "SECOND dvd DAY" "1000000 dvd DAY" by (simp_all add: DAY_def SECOND_def)
  show "p dvd v"
    using five [OF assms(2)] assms(2) d(1) parse_clock_scaled [of t kind pos x q] D
    by (elim disjE) (auto simp: v resolution_def)
qed

subsection \<open>Properties\<close>

text \<open>
  C21. What \<open>format\<close> prints, \<open>parse\<close> reads: for every instant of 64 bits and each of the five formats, the
  instant rounded down to the precision of the format is what the printed text denotes, years,
  leap days, weekdays and stripped fractions included; and printing fails exactly when that rounded
  instant is no 64-bit number.
\<close>

theorem time_format_parse:
  assumes "i64_fits ns" and "resolution kind = Some p"
  shows "if i64_fits (ns div p * p)
    then \<exists>t. time_format ns kind = Some t \<and> time_parse t kind = Some (ns div p * p)
    else time_format ns kind = None"
  using time_format_text [OF assms] assms(2) by (simp add: time_format_def i64_checked_def Let_def)

theorem time_format_parse_witness:
  "time_format 951782400123456789 2 = Some ''Tue, 29 Feb 2000 00:00:00 GMT'' \<and>
   time_parse ''Tue, 29 Feb 2000 00:00:00 GMT'' 2 = Some 951782400000000000"
proof -
  have f: "i64_fits 951782400123456789" "resolution 2 = Some 1000000000" "i64_fits (951782400123456789 div 1000000000 * 1000000000)"
    by (simp_all add: i64_fits_def resolution_def SECOND_def)
  have t: "time_format 951782400123456789 2 = Some ''Tue, 29 Feb 2000 00:00:00 GMT''" by code_simp
  from time_format_parse [OF f(1,2)] f(3) t show ?thesis by simp
qed

text \<open>
  C22. What \<open>parse\<close> accepts, however it is spelled (a lower-case \<open>t\<close> or \<open>z\<close>, an offset, trailing zeros in the
  fraction), is a 64-bit instant that the format prints, and the printed text denotes the same
  instant: printing gives every accepted text a canonical form.
\<close>

theorem time_parse_canonical:
  assumes "time_parse t kind = Some v"
  shows "\<exists>t'. time_format v kind = Some t' \<and> time_parse t' kind = Some v"
proof -
  obtain p where p: "resolution kind = Some p" using assms by (cases "resolution kind") (auto simp: time_parse_def)
  note sc = time_parse_scaled [OF assms p]
  then have "v div p * p = v" by simp
  with time_format_text [OF sc(1) p] sc(1) show ?thesis by simp
qed

theorem time_parse_canonical_witness:
  "time_parse ''1970-01-01t01:00:00.500+01:00'' 0 = Some 500000000 \<and>
   (\<exists>t'. time_format 500000000 0 = Some t' \<and> time_parse t' 0 = Some 500000000)"
proof -
  have t: "time_parse ''1970-01-01t01:00:00.500+01:00'' 0 = Some 500000000" by code_simp
  from time_parse_canonical [OF t] t show ?thesis by simp
qed

end
