(* ===== verification/Interface_Types.thy ===== *)
theory Interface_Types
  imports Wyhash Ast "HOL-Library.Product_Lexorder" "HOL-Library.List_Lexorder" "HOL-Library.Option_ord" "HOL-Library.Char_ord"
begin

section \<open>align\_interface: the data of an interface summary\<close>

text \<open>
  The types of \<open>crates/align_interface/src/lib.rs\<close> and the callable-flow records of
  \<open>crates/align_sema/src/hir.rs\<close> that an interface artifact stores, and the 128-bit hash of
  \<open>crates/align_interface/src/hash.rs\<close>. A \<open>u32\<close> is a 32-bit word and a \<open>u64\<close> a 64-bit word.
  The types the Rust code derives \<open>Ord\<close> for are instances of \<open>linorder\<close>, with the derived order:
  the variant's position first, then the fields lexicographically.
\<close>

type_synonym u32 = "32 word"

subsection \<open>Callable flow\<close>

datatype return_cleanup_abi = RC_None | RC_DynamicBit

datatype retention_root = RR_Contained u32 | RR_Storage u32

primrec root_index :: "retention_root \<Rightarrow> u32" where
  "root_index (RR_Contained i) = i"
| "root_index (RR_Storage i) = i"

record retention_destination =
  rd_may_mutate :: bool
  rd_roots :: "retention_root list"

type_synonym mutable_retention = "retention_destination list option"

datatype access_root = AR_Contained u32 | AR_Storage u32

primrec access_index :: "access_root \<Rightarrow> u32" where
  "access_index (AR_Contained i) = i"
| "access_index (AR_Storage i) = i"

datatype callback_projection =
    CP_StructField u32 | CP_TupleElement u32 | CP_EnumPayload u32 u32
  | CP_OptionSome | CP_ResultOk | CP_ResultErr | CP_ArrayElement

datatype callback_input = Callback_Input (ci_parameter: u32) (ci_path: "callback_projection list")

datatype callback_read = CR_Environment | CR_Argument u32

datatype callback_requirement =
  Callback_Requirement (cr_input: callback_input) (cr_read: callback_read)

datatype callback_effects =
  Callback_Effects (ce_environment_write: bool) (ce_argument_writes: "u32 list")

datatype callback_source = CS_Parameter callback_input | CS_Known callback_effects | CS_Unknown

record callback_return =
  cb_path :: "callback_projection list"
  cb_sources :: "callback_source list"

record callback_contract =
  cc_requirements :: "callback_requirement list"
  cc_returns :: "callback_return list"

record conditional_access =
  ca_requirement :: callback_requirement
  ca_roots :: "access_root list"

record access_effects =
  ae_direct :: "access_root list"
  ae_conditional :: "conditional_access list"

type_synonym mutable_access = "access_effects option"

record view_effect =
  ve_may_write_original :: bool
  ve_must_write_original_element :: bool
  ve_may_rebind :: bool
  ve_must_rebind :: bool
  ve_write_roots :: "retention_root list"
  ve_rebind_roots :: "retention_root list"

type_synonym mutable_view_effect = "view_effect option list option"

datatype drop_state_effect = DS_NotApplicable | DS_Invariant | DS_MayChange | DS_Deferred

datatype return_borrow = RB_None | RB_Roots "u32 list" "u32 list"
datatype return_region = RG_None | RG_Roots "u32 list" "u32 list"

subsection \<open>The derived orders\<close>

primrec retention_key :: "retention_root \<Rightarrow> nat \<times> u32" where
  "retention_key (RR_Contained i) = (0, i)"
| "retention_key (RR_Storage i) = (1, i)"

primrec access_key :: "access_root \<Rightarrow> nat \<times> u32" where
  "access_key (AR_Contained i) = (0, i)"
| "access_key (AR_Storage i) = (1, i)"

primrec projection_key :: "callback_projection \<Rightarrow> nat \<times> u32 list" where
  "projection_key (CP_StructField i) = (0, [i])"
| "projection_key (CP_TupleElement i) = (1, [i])"
| "projection_key (CP_EnumPayload v i) = (2, [v, i])"
| "projection_key CP_OptionSome = (3, [])"
| "projection_key CP_ResultOk = (4, [])"
| "projection_key CP_ResultErr = (5, [])"
| "projection_key CP_ArrayElement = (6, [])"

primrec read_key :: "callback_read \<Rightarrow> nat \<times> u32 list" where
  "read_key CR_Environment = (0, [])"
| "read_key (CR_Argument i) = (1, [i])"

lemma retention_key_inject: "retention_key a = retention_key b \<longleftrightarrow> a = b"
  by (cases a; cases b) simp_all

lemma access_key_inject: "access_key a = access_key b \<longleftrightarrow> a = b"
  by (cases a; cases b) simp_all

lemma projection_key_inject: "projection_key a = projection_key b \<longleftrightarrow> a = b"
  by (cases a; cases b) simp_all

lemma read_key_inject: "read_key a = read_key b \<longleftrightarrow> a = b"
  by (cases a; cases b) simp_all

instantiation retention_root :: linorder
begin
definition less_eq_retention_root :: "retention_root \<Rightarrow> retention_root \<Rightarrow> bool" where
  "a \<le> b \<longleftrightarrow> retention_key a \<le> retention_key b"
definition less_retention_root :: "retention_root \<Rightarrow> retention_root \<Rightarrow> bool" where
  "a < b \<longleftrightarrow> retention_key a < retention_key b"
instance
  by standard (auto simp: less_eq_retention_root_def less_retention_root_def retention_key_inject
    dest: order_antisym)
end

instantiation access_root :: linorder
begin
definition less_eq_access_root :: "access_root \<Rightarrow> access_root \<Rightarrow> bool" where
  "a \<le> b \<longleftrightarrow> access_key a \<le> access_key b"
definition less_access_root :: "access_root \<Rightarrow> access_root \<Rightarrow> bool" where
  "a < b \<longleftrightarrow> access_key a < access_key b"
instance
  by standard (auto simp: less_eq_access_root_def less_access_root_def access_key_inject
    dest: order_antisym)
end

instantiation callback_projection :: linorder
begin
definition less_eq_callback_projection :: "callback_projection \<Rightarrow> callback_projection \<Rightarrow> bool" where
  "a \<le> b \<longleftrightarrow> projection_key a \<le> projection_key b"
definition less_callback_projection :: "callback_projection \<Rightarrow> callback_projection \<Rightarrow> bool" where
  "a < b \<longleftrightarrow> projection_key a < projection_key b"
instance
  by standard (auto simp: less_eq_callback_projection_def less_callback_projection_def
    projection_key_inject dest: order_antisym)
end

instantiation callback_read :: linorder
begin
definition less_eq_callback_read :: "callback_read \<Rightarrow> callback_read \<Rightarrow> bool" where
  "a \<le> b \<longleftrightarrow> read_key a \<le> read_key b"
definition less_callback_read :: "callback_read \<Rightarrow> callback_read \<Rightarrow> bool" where
  "a < b \<longleftrightarrow> read_key a < read_key b"
instance
  by standard (auto simp: less_eq_callback_read_def less_callback_read_def read_key_inject
    dest: order_antisym)
end

primrec input_key :: "callback_input \<Rightarrow> u32 \<times> callback_projection list" where
  "input_key (Callback_Input p path) = (p, path)"

lemma input_key_inject: "input_key a = input_key b \<longleftrightarrow> a = b"
  by (cases a; cases b) simp

instantiation callback_input :: linorder
begin
definition less_eq_callback_input :: "callback_input \<Rightarrow> callback_input \<Rightarrow> bool" where
  "a \<le> b \<longleftrightarrow> input_key a \<le> input_key b"
definition less_callback_input :: "callback_input \<Rightarrow> callback_input \<Rightarrow> bool" where
  "a < b \<longleftrightarrow> input_key a < input_key b"
instance
  by standard (auto simp: less_eq_callback_input_def less_callback_input_def input_key_inject
    dest: order_antisym)
end

primrec requirement_key :: "callback_requirement \<Rightarrow> callback_input \<times> callback_read" where
  "requirement_key (Callback_Requirement i r) = (i, r)"

lemma requirement_key_inject: "requirement_key a = requirement_key b \<longleftrightarrow> a = b"
  by (cases a; cases b) simp

instantiation callback_requirement :: linorder
begin
definition less_eq_callback_requirement :: "callback_requirement \<Rightarrow> callback_requirement \<Rightarrow> bool" where
  "a \<le> b \<longleftrightarrow> requirement_key a \<le> requirement_key b"
definition less_callback_requirement :: "callback_requirement \<Rightarrow> callback_requirement \<Rightarrow> bool" where
  "a < b \<longleftrightarrow> requirement_key a < requirement_key b"
instance
  by standard (auto simp: less_eq_callback_requirement_def less_callback_requirement_def
    requirement_key_inject dest: order_antisym)
end

primrec effects_key :: "callback_effects \<Rightarrow> bool \<times> u32 list" where
  "effects_key (Callback_Effects e ws) = (e, ws)"

lemma effects_key_inject: "effects_key a = effects_key b \<longleftrightarrow> a = b"
  by (cases a; cases b) simp

instantiation callback_effects :: linorder
begin
definition less_eq_callback_effects :: "callback_effects \<Rightarrow> callback_effects \<Rightarrow> bool" where
  "a \<le> b \<longleftrightarrow> effects_key a \<le> effects_key b"
definition less_callback_effects :: "callback_effects \<Rightarrow> callback_effects \<Rightarrow> bool" where
  "a < b \<longleftrightarrow> effects_key a < effects_key b"
instance
  by standard (auto simp: less_eq_callback_effects_def less_callback_effects_def effects_key_inject
    dest: order_antisym)
end

primrec source_key :: "callback_source \<Rightarrow> nat \<times> callback_input list \<times> callback_effects list" where
  "source_key (CS_Parameter i) = (0, [i], [])"
| "source_key (CS_Known e) = (1, [], [e])"
| "source_key CS_Unknown = (2, [], [])"

lemma source_key_inject: "source_key a = source_key b \<longleftrightarrow> a = b"
  by (cases a; cases b) simp_all

instantiation callback_source :: linorder
begin
definition less_eq_callback_source :: "callback_source \<Rightarrow> callback_source \<Rightarrow> bool" where
  "a \<le> b \<longleftrightarrow> source_key a \<le> source_key b"
definition less_callback_source :: "callback_source \<Rightarrow> callback_source \<Rightarrow> bool" where
  "a < b \<longleftrightarrow> source_key a < source_key b"
instance
  by standard (auto simp: less_eq_callback_source_def less_callback_source_def source_key_inject
    dest: order_antisym)
end

subsection \<open>Types and definitions of an interface\<close>

datatype effect = E_Pure | E_Impure | E_Unknown

datatype producer_certification = PC_RevalidateGenericBody | PC_ValidatedBody

definition INLINE_BODY_POLICY_VERSION :: u32 where
  "INLINE_BODY_POLICY_VERSION = 3"

datatype itype =
    IT_Named bytes "itype list"
  | IT_FixedArray itype u32
  | IT_Tuple "itype list"
  | IT_Fn "iparam list" itype return_borrow return_region return_cleanup_abi
and iparam = I_Param param_mode itype

primrec ip_mode :: "iparam \<Rightarrow> param_mode" where
  "ip_mode (I_Param m t) = m"

record inline_extern =
  ie_link :: "bytes option"
  ie_name :: bytes
  ie_params :: "itype list"
  ie_ret :: itype

datatype ifn_body =
    FB_Absent
  | FB_GenericTemplate bytes
  | FB_ConcreteInline u32 bytes "inline_extern list"

record itype_param =
  itp_name :: bytes
  itp_bound :: "bytes option"

record ifn_sig =
  if_name :: bytes
  if_type_params :: "itype_param list"
  if_params :: "iparam list"
  if_ret :: itype
  if_return_borrow :: return_borrow
  if_return_region :: return_region
  if_return_cleanup :: return_cleanup_abi
  if_drop_state_effects :: "drop_state_effect list"
  if_producer_certification :: producer_certification
  if_effect :: effect
  if_parallel_transfer_params :: "u32 list"
  if_mutable_access :: mutable_access
  if_callback_contract :: "callback_contract option"
  if_mutable_retention :: mutable_retention
  if_mutable_view_effect :: mutable_view_effect
  if_resource_hook_body :: bool
  if_body :: ifn_body

record istruct_def =
  is_name :: bytes
  is_type_params :: "itype_param list"
  is_fields :: "(bytes \<times> itype) list"
  is_align :: "u32 option"
  is_c_repr :: bool
  is_generic_body :: "bytes option"

record ienum_def =
  en_name :: bytes
  en_type_params :: "itype_param list"
  en_variants :: "(bytes \<times> itype list) list"
  en_generic_body :: "bytes option"

record iresource_def =
  re_name :: bytes
  re_type_params :: "itype_param list"
  re_generic_arity :: u32
  re_representation_version :: u32
  re_drop_thunk :: bytes
  re_drop_abi_fingerprint :: "u8 list"

record iconst =
  ic_name :: bytes
  ic_ty :: "itype option"
  ic_value_src :: bytes

record owned_json_entry =
  oj_type_name :: bytes
  oj_envelope :: "u8 list"

subsection \<open>The 128-bit hash\<close>

record hash128 =
  h_lo :: u64
  h_hi :: u64

definition SEED_LO :: u64 where "SEED_LO = 0x9E3779B97F4A7C15"
definition SEED_HI :: u64 where "SEED_HI = 0xC2B2AE3D27D4EB4F"

definition hash128_of :: "u8 list \<Rightarrow> hash128 option" where
  "hash128_of bs = do {
     lo \<leftarrow> wyhash bs SEED_LO;
     hi \<leftarrow> wyhash bs SEED_HI;
     Some \<lparr>h_lo = lo, h_hi = hi\<rparr>
   }"

text \<open>The hash never panics on a slice, whose length is a \<open>usize\<close>.\<close>

lemma hash128_of_total:
  assumes "length bs < 2 ^ 64"
  shows "\<exists>h. hash128_of bs = Some h"
  using feed_hashes [of "[bs]" SEED_LO] feed_hashes [of "[bs]" SEED_HI] assms
  by (auto simp: hash128_of_def)

record interface_summary =
  su_unit :: bytes
  su_fns :: "ifn_sig list"
  su_structs :: "istruct_def list"
  su_owned_json_graphs :: "owned_json_entry list"
  su_enums :: "ienum_def list"
  su_resources :: "iresource_def list"
  su_consts :: "iconst list"
  su_capabilities :: "bytes list"
  su_interface_hash :: hash128
  su_impl_hash :: hash128

end
