(* ===== verification/Artifact_Hash.thy ===== *)
theory Artifact_Hash
  imports Interface_Types
begin

section \<open>align\_interface: the incremental 128-bit hash\<close>

text \<open>
  \<open>Hash128Stream\<close> of \<open>crates/align_interface/src/hash.rs\<close>: two wyhash streams with independent
  seeds over the same chunks. It satisfies the contract of an incremental hash for
  \<open>Hash128::of\<close>, so a digest computed while streaming a file is the digest of its contents.
\<close>

record hash128_stream =
  hs_lo :: wy_hash_stream
  hs_hi :: wy_hash_stream

definition hash128_for_len :: "nat \<Rightarrow> hash128_stream" where
  "hash128_for_len len = \<lparr>hs_lo = for_len SEED_LO len, hs_hi = for_len SEED_HI len\<rparr>"

text \<open>The two streams must agree on whether they took the chunk (\<open>debug_assert_eq\<close>).\<close>

definition hash128_update :: "hash128_stream \<Rightarrow> u8 list \<Rightarrow> (bool \<times> hash128_stream) option" where
  "hash128_update s bytes = do {
     (lo, s_lo) \<leftarrow> update (hs_lo s) bytes;
     (hi, s_hi) \<leftarrow> update (hs_hi s) bytes;
     if lo = hi then Some (lo, \<lparr>hs_lo = s_lo, hs_hi = s_hi\<rparr>) else None
   }"

definition hash128_finish :: "hash128_stream \<Rightarrow> hash128 option option" where
  "hash128_finish s = do {
     lo \<leftarrow> finish (hs_lo s);
     case lo of
       None \<Rightarrow> Some None
     | Some lo \<Rightarrow> do {
         hi \<leftarrow> finish (hs_hi s);
         Some (map_option (\<lambda>hi. \<lparr>h_lo = lo, h_hi = hi\<rparr>) hi)
       }
   }"

fun hash128_feed :: "hash128_stream \<Rightarrow> u8 list list \<Rightarrow> (bool list \<times> hash128_stream) option" where
  "hash128_feed s [] = Some ([], s)"
| "hash128_feed s (c # cs) = do {
     (ok, s1) \<leftarrow> hash128_update s c;
     (oks, s2) \<leftarrow> hash128_feed s1 cs;
     Some (ok # oks, s2)
   }"

lemma hash128_feed_both:
  assumes "feed lo cs = Some (oks, lo')" and "feed hi cs = Some (oks, hi')"
  shows "hash128_feed \<lparr>hs_lo = lo, hs_hi = hi\<rparr> cs = Some (oks, \<lparr>hs_lo = lo', hs_hi = hi'\<rparr>)"
  using assms
proof (induction cs arbitrary: lo hi oks)
  case (Cons c cs)
  then obtain ok lo1 oks' hi1 where "update lo c = Some (ok, lo1)" "feed lo1 cs = Some (oks', lo')"
      "update hi c = Some (ok, hi1)" "feed hi1 cs = Some (oks', hi')" "oks = ok # oks'"
    by (auto simp: bind_eq_Some_conv)
  then show ?case by (simp add: hash128_update_def Cons.IH)
qed simp

lemma hash128_feed_hashes:
  assumes "length (concat cs) < 2 ^ 64"
  shows "\<exists>s h. hash128_feed (hash128_for_len (length (concat cs))) cs = Some (map (\<lambda>_. True) cs, s) \<and>
    hash128_of (concat cs) = Some h \<and> hash128_finish s = Some (Some h)"
proof -
  obtain lo a where lo: "feed (for_len SEED_LO (length (concat cs))) cs = Some (map (\<lambda>_. True) cs, lo)"
      "wyhash (concat cs) SEED_LO = Some a" "finish lo = Some (Some a)"
    using wy.absorb_result [OF assms] by blast
  obtain hi b where hi: "feed (for_len SEED_HI (length (concat cs))) cs = Some (map (\<lambda>_. True) cs, hi)"
      "wyhash (concat cs) SEED_HI = Some b" "finish hi = Some (Some b)"
    using wy.absorb_result [OF assms] by blast
  show ?thesis
    using hash128_feed_both [OF lo(1) hi(1)] lo hi
    by (simp add: hash128_for_len_def hash128_of_def hash128_finish_def)
qed

interpretation h128: incremental_hash "\<lambda>_ :: unit. hash128_for_len" hash128_feed hash128_finish
    "\<lambda>bs _. hash128_of bs" "2 ^ 64"
  by unfold_locales (rule hash128_feed_hashes)

text \<open>
  C31. A digest streamed through \<open>Hash128Stream\<close> does not depend on how the input is cut into
  chunks: every chunk is accepted, nothing panics, and the digest is \<open>Hash128::of\<close> the input.
\<close>

theorem artifact_hash_chunking:
  assumes "concat cs = concat ds" and "length (concat cs) < 2 ^ 64"
  shows "\<exists>s t. hash128_feed (hash128_for_len (length (concat cs))) cs = Some (map (\<lambda>_. True) cs, s) \<and>
    hash128_feed (hash128_for_len (length (concat ds))) ds = Some (map (\<lambda>_. True) ds, t) \<and>
    hash128_finish s = hash128_finish t \<and> hash128_finish s = Some (hash128_of (concat cs))"
  using h128.chunking_irrelevant [OF assms] by blast

theorem artifact_hash_chunking_witness:
  "\<exists>s t. hash128_feed (hash128_for_len 3) [[97, 98], [], [99]] = Some ([True, True, True], s) \<and>
     hash128_feed (hash128_for_len 3) [[97], [98, 99]] = Some ([True, True], t) \<and>
     hash128_finish s = hash128_finish t"
  using artifact_hash_chunking [of "[[97, 98], [], [99]]" "[[97], [98, 99]]"]
  by (auto simp: numeral_3_eq_3)

end
