(* ===== verification/Codec_Core.thy ===== *)
theory Codec_Core
  imports Interface_Types Utf8
begin

unbundle bit_operations_syntax

section \<open>align\_interface: the writer and the reader of the codec\<close>

text \<open>
  The \<open>Writer\<close> and \<open>Reader\<close> of \<open>crates/align_interface/src/codec.rs\<close>. A writing call is the bytes
  it appends to \<open>Writer.buf\<close>, or \<open>None\<close> where \<open>u32_len\<close> panics. A reading call takes the reader
  (buffer and position) to an error, to a panic (an index or an \<open>unwrap\<close> that fails), or to a value and
  the advanced reader. The locale \<open>codec\<close> is
  the contract between the two halves: a reader accepts exactly the bytes the writer emits for a
  well-formed value. The contract is closed under sequences and options, and gives the round
  trip, injectivity and the refusal of every proper prefix.
\<close>

subsection \<open>Little-endian integers\<close>

primrec le_bytes :: "nat \<Rightarrow> 'a::len word \<Rightarrow> u8 list" where
  "le_bytes 0 v = []"
| "le_bytes (Suc k) v = ucast v # le_bytes k (drop_bit 8 v)"

primrec le_word :: "u8 list \<Rightarrow> 'a::len word" where
  "le_word [] = 0"
| "le_word (b # bs) = ucast b OR push_bit 8 (le_word bs)"

lemma length_le_bytes [simp]: "length (le_bytes k v) = k"
  by (induction k arbitrary: v) simp_all

lemma bit_ucast_u8: "bit (ucast (v :: 'a::len word) :: u8) n \<longleftrightarrow> n < 8 \<and> bit v n"
  by (auto simp: bit_ucast_iff dest: bit_imp_le_length)

lemma le_word_le_bytes: "le_word (le_bytes k v) = take_bit (8 * k) (v :: 'a::len word)"
proof (induction k arbitrary: v)
  case (Suc k)
  have "ucast (ucast v :: u8) OR push_bit 8 (take_bit (8 * k) (drop_bit 8 v)) = take_bit (8 * Suc k) v"
    by (rule bit_word_eqI) (auto simp: bit_simps bit_ucast_u8 not_less)
  with Suc show ?case by simp
qed simp

lemma bit_le_word: "bit (le_word bs :: 'a::len word) n \<Longrightarrow> n < 8 * length bs"
proof (induction bs arbitrary: n)
  case (Cons b bs)
  from Cons.prems have "bit b n \<or> (8 \<le> n \<and> bit (le_word bs :: 'a word) (n - 8))"
    by (auto simp: bit_simps)
  then show ?case
    using bit_imp_le_length [of b n] Cons.IH [of "n - 8"] by auto
qed simp

lemma le_bytes_le_word:
  "8 * length bs \<le> LENGTH('a) \<Longrightarrow> le_bytes (length bs) (le_word bs :: 'a::len word) = bs"
proof (induction bs)
  case (Cons b bs)
  let ?w = "le_word bs :: 'a word"
  have "ucast (ucast b OR push_bit 8 ?w) = b"
    by (rule bit_word_eqI) (use Cons.prems in \<open>auto simp: bit_simps bit_ucast_u8\<close>)
  moreover have "le_bytes (length bs) (drop_bit 8 (ucast b OR push_bit 8 ?w)) = bs"
  proof -
    have "drop_bit 8 (ucast b OR push_bit 8 ?w) = ?w"
      using Cons.prems bit_imp_le_length [of b] bit_le_word [of bs, where 'a = 'a]
      by (intro bit_word_eqI) (fastforce simp: bit_simps)
    then show ?thesis using Cons by simp
  qed
  ultimately show ?case by simp
qed simp


lemma ex_le_word:
  assumes "8 * k = LENGTH('a::len)"
  shows "(\<exists>bs. (length bs = k \<and> P bs) \<and> (v :: 'a word) = le_word bs) \<longleftrightarrow> P (le_bytes k v)"
proof -
  have "bs = le_bytes k (le_word bs :: 'a word)" if "length bs = k" for bs
    using le_bytes_le_word [of bs, where 'a = 'a] assms that by simp
  moreover have "le_word (le_bytes k v) = v"
    using assms by (simp add: le_word_le_bytes)
  ultimately show ?thesis by (metis length_le_bytes)
qed

lemmas ex_le_words = ex_le_word [where 'a = 32 and k = 4, simplified] ex_le_word [where 'a = 64 and k = 8, simplified]

subsection \<open>Writing\<close>

text \<open>Everything a function writes, in order; a panic of one call is a panic of the whole.\<close>

primrec writes :: "u8 list option list \<Rightarrow> u8 list option" where
  "writes [] = Some []"
| "writes (m # ms) = do { a \<leftarrow> m; b \<leftarrow> writes ms; Some (a @ b) }"

declare writes.simps [simp del]

definition u32_len :: "nat \<Rightarrow> u32 option" where
  "u32_len n = (let v = of_nat n in if unat v = n then Some v else None)"

lemma u32_len_eq: "u32_len n = (if n < 2 ^ 32 then Some (of_nat n) else None)"
proof -
  have "unat (of_nat n :: u32) = n \<longleftrightarrow> n < 2 ^ 32"
    by (simp add: unsigned_of_nat take_bit_nat_eq_self_iff)
  then show ?thesis by (simp add: u32_len_def Let_def)
qed

definition w_u8 :: "u8 \<Rightarrow> u8 list option" where
  "w_u8 v = Some [v]"

definition w_bool :: "bool \<Rightarrow> u8 list option" where
  "w_bool v = w_u8 (if v then 1 else 0)"

definition w_u32 :: "u32 \<Rightarrow> u8 list option" where
  "w_u32 v = Some (le_bytes 4 v)"

definition w_u64 :: "u64 \<Rightarrow> u8 list option" where
  "w_u64 v = Some (le_bytes 8 v)"

definition w_opt_u32 :: "u32 option \<Rightarrow> u8 list option" where
  "w_opt_u32 v = (case v of Some x \<Rightarrow> writes [w_u8 1, w_u32 x] | None \<Rightarrow> w_u8 0)"

primrec opt_all :: "('a \<Rightarrow> bool) \<Rightarrow> 'a option \<Rightarrow> bool" where
  "opt_all P None \<longleftrightarrow> True"
| "opt_all P (Some x) \<longleftrightarrow> P x"

text \<open>\<open>str::as_bytes\<close>, and a byte as a character of the text.\<close>

definition char_u8 :: "byte \<Rightarrow> u8" where
  "char_u8 c = word_of_nat (of_char c)"

definition u8_char :: "u8 \<Rightarrow> byte" where
  "u8_char b = char_of (unat b)"

definition as_bytes :: "bytes \<Rightarrow> u8 list" where
  "as_bytes s = map char_u8 s"

text \<open>A length prefix and the bytes.\<close>

definition w_blob :: "u8 list \<Rightarrow> u8 list option" where
  "w_blob bs = do { n \<leftarrow> u32_len (length bs); writes [w_u32 n, Some bs] }"

definition w_str :: "bytes \<Rightarrow> u8 list option" where
  "w_str s = w_blob (as_bytes s)"

definition w_opt_str :: "bytes option \<Rightarrow> u8 list option" where
  "w_opt_str s = (case s of Some x \<Rightarrow> writes [w_u8 1, w_str x] | None \<Rightarrow> w_u8 0)"

definition w_seq :: "('a \<Rightarrow> u8 list option) \<Rightarrow> 'a list \<Rightarrow> u8 list option" where
  "w_seq f items = do { n \<leftarrow> u32_len (length items); writes (w_u32 n # map f items) }"

lemma w_seq_cong [fundef_cong]:
  "xs = ys \<Longrightarrow> (\<And>x. x \<in> set ys \<Longrightarrow> f x = g x) \<Longrightarrow> w_seq f xs = w_seq g ys"
  by (auto simp: w_seq_def cong: map_cong)

subsection \<open>Reading\<close>

datatype decode_error =
    DE_UnknownVersion u32
  | DE_Truncated
  | DE_BadTag string u8
  | DE_BadUtf8
  | DE_TrailingBytes
  | DE_InterfaceHashMismatch
  | DE_InvalidSummary string
  | DE_InvalidOwnedJson string

record reader =
  rd_buf :: "u8 list"
  rd_pos :: nat

text \<open>How a reading call stops without a value.\<close>

datatype read_stop = Failed decode_error | Read_Panic

type_synonym 'a rd = "reader \<Rightarrow> read_stop + 'a \<times> reader"

definition retR :: "'a \<Rightarrow> 'a rd" where
  "retR x r = Inr (x, r)"

definition failR :: "decode_error \<Rightarrow> 'a rd" where
  "failR e r = Inl (Failed e)"

definition panicR :: "'a rd" where
  "panicR r = Inl Read_Panic"

definition bindR :: "'a rd \<Rightarrow> ('a \<Rightarrow> 'b rd) \<Rightarrow> 'b rd" where
  "bindR m f r = (case m r of Inl e \<Rightarrow> Inl e | Inr (x, r') \<Rightarrow> f x r')"

text \<open>A check whose \<open>Err\<close> the \<open>?\<close> operator propagates.\<close>

definition checkR :: "decode_error + unit \<Rightarrow> 'b rd \<Rightarrow> 'b rd" where
  "checkR c k r = (case c of Inl e \<Rightarrow> Inl (Failed e) | Inr _ \<Rightarrow> k r)"

definition reader_new :: "u8 list \<Rightarrow> reader" where
  "reader_new bs = \<lparr>rd_buf = bs, rd_pos = 0\<rparr>"

text \<open>\<open>take\<close>: \<open>checked_add\<close> fails only when the end is past \<open>usize::MAX\<close>, hence past the buffer.\<close>

definition r_take :: "nat \<Rightarrow> u8 list rd" where
  "r_take n r =
     (if rd_pos r + n \<le> length (rd_buf r)
      then Inr (take n (drop (rd_pos r) (rd_buf r)), r\<lparr>rd_pos := rd_pos r + n\<rparr>)
      else Inl (Failed DE_Truncated))"

text \<open>\<open>[0]\<close> panics on an empty slice.\<close>

definition r_u8 :: "u8 rd" where
  "r_u8 = bindR (r_take 1) (\<lambda>bs. case bs of [] \<Rightarrow> panicR | b # _ \<Rightarrow> retR b)"

definition r_bool :: "bool rd" where
  "r_bool = bindR r_u8 (\<lambda>tag.
     if tag = 0 then retR False
     else if tag = 1 then retR True
     else failR (DE_BadTag ''bool'' tag))"

text \<open>\<open>try_into().unwrap()\<close> panics on a slice of another length than the array.\<close>

definition r_u32 :: "u32 rd" where
  "r_u32 = bindR (r_take 4) (\<lambda>bs. if length bs = 4 then retR (le_word bs) else panicR)"

definition r_u64 :: "u64 rd" where
  "r_u64 = bindR (r_take 8) (\<lambda>bs. if length bs = 8 then retR (le_word bs) else panicR)"

definition r_opt_u32 :: "u32 option rd" where
  "r_opt_u32 = bindR r_u8 (\<lambda>tag.
     if tag = 0 then retR None
     else if tag = 1 then bindR r_u32 (\<lambda>x. retR (Some x))
     else failR (DE_BadTag ''option'' tag))"

definition r_blob :: "u8 list rd" where
  "r_blob = bindR r_u32 (\<lambda>len. r_take (unat len))"

definition r_str :: "bytes rd" where
  "r_str = bindR r_blob (\<lambda>bs. let s = map u8_char bs in
     if valid_utf8 s then retR s else failR DE_BadUtf8)"

definition r_opt_str :: "bytes option rd" where
  "r_opt_str = bindR r_u8 (\<lambda>tag.
     if tag = 0 then retR None
     else if tag = 1 then bindR r_str (\<lambda>x. retR (Some x))
     else failR (DE_BadTag ''option'' tag))"

primrec r_times :: "nat \<Rightarrow> 'a rd \<Rightarrow> 'a list rd" where
  "r_times 0 f = retR []"
| "r_times (Suc n) f = bindR f (\<lambda>x. bindR (r_times n f) (\<lambda>xs. retR (x # xs)))"

definition r_seq :: "'a rd \<Rightarrow> 'a list rd" where
  "r_seq f = bindR r_u32 (\<lambda>n. r_times (unat n) f)"

definition r_finish :: "unit rd" where
  "r_finish r = (if rd_pos r = length (rd_buf r) then Inr ((), r) else Inl (Failed DE_TrailingBytes))"

lemma bindR_cong [fundef_cong]:
  "m = m' \<Longrightarrow> r = r' \<Longrightarrow> (\<And>x q. m' r' = Inr (x, q) \<Longrightarrow> f x q = g x q) \<Longrightarrow> bindR m f r = bindR m' g r'"
  by (auto simp: bindR_def split: sum.splits)

subsection \<open>What a reader consumes\<close>

named_theorems codec_law \<open>when a reading call returns a value, and when a writing call emits\<close>

text \<open>\<open>consumes r bs q\<close>: the reader moves from \<open>r\<close> to \<open>q\<close> over exactly the bytes \<open>bs\<close>.\<close>

definition consumes :: "reader \<Rightarrow> u8 list \<Rightarrow> reader \<Rightarrow> bool" where
  "consumes r bs q \<longleftrightarrow> rd_buf q = rd_buf r \<and> rd_pos q = rd_pos r + length bs \<and>
     rd_pos q \<le> length (rd_buf r) \<and> take (length bs) (drop (rd_pos r) (rd_buf r)) = bs"

definition emits :: "reader \<Rightarrow> u8 list option \<Rightarrow> reader \<Rightarrow> bool" where
  "emits r m q \<longleftrightarrow> (\<exists>bs. m = Some bs \<and> consumes r bs q)"

definition reader_ok :: "reader \<Rightarrow> bool" where
  "reader_ok r \<longleftrightarrow> rd_pos r \<le> length (rd_buf r)"

lemma consumes_ok: "consumes r bs q \<Longrightarrow> reader_ok q"
  by (simp add: consumes_def reader_ok_def)

lemma emits_ok: "emits r m q \<Longrightarrow> reader_ok q"
  by (auto simp: emits_def consumes_ok)

lemma consumes_Nil: "consumes r [] q \<longleftrightarrow> q = r \<and> reader_ok r"
  by (auto simp: consumes_def reader_ok_def)

lemma consumes_append: "consumes r (a @ b) q \<longleftrightarrow> (\<exists>s. consumes r a s \<and> consumes s b q)"
proof
  assume c: "consumes r (a @ b) q"
  let ?s = "r\<lparr>rd_pos := rd_pos r + length a\<rparr>"
  have "consumes r a ?s \<and> consumes ?s b q"
    using c by (auto simp: consumes_def take_add append_eq_append_conv add.commute add.left_commute)
  then show "\<exists>s. consumes r a s \<and> consumes s b q" by blast
next
  assume "\<exists>s. consumes r a s \<and> consumes s b q"
  then show "consumes r (a @ b) q"
    by (auto simp: consumes_def take_add add.commute add.left_commute)
qed

lemma emits_Some [codec_law]: "emits r (Some bs) q \<longleftrightarrow> consumes r bs q"
  by (simp add: emits_def)

lemma emits_writes1 [codec_law]: "emits r (writes [m]) q \<longleftrightarrow> emits r m q"
  by (cases m) (simp_all add: emits_def writes.simps)

lemma emits_writes2 [codec_law]:
  "emits r (writes (m # n # ms)) q \<longleftrightarrow> (\<exists>s. emits r m s \<and> emits s (writes (n # ms)) q)"
  by (cases m; cases "writes (n # ms)") (auto simp: emits_def consumes_append writes.simps(2))

lemma emits_writes_Cons:
  "emits r (writes (m # ms)) q \<longleftrightarrow> (\<exists>s. emits r m s \<and> emits s (writes ms) q)"
  by (cases m; cases "writes ms") (auto simp: emits_def consumes_append writes.simps(2))

lemma emits_writes_Nil: "emits r (writes []) q \<longleftrightarrow> q = r \<and> reader_ok r"
  by (simp add: emits_def consumes_Nil writes.simps)

lemma retR_iff [codec_law]: "retR x r = Inr (y, q) \<longleftrightarrow> y = x \<and> q = r"
  by (auto simp: retR_def)

lemma failR_iff [codec_law]: "failR e r = Inr v \<longleftrightarrow> False"
  by (simp add: failR_def)

lemma panicR_iff [codec_law]: "panicR r = Inr v \<longleftrightarrow> False"
  by (simp add: panicR_def)

lemma bindR_iff [codec_law]:
  "bindR m f r = Inr (y, q) \<longleftrightarrow> (\<exists>x s. m r = Inr (x, s) \<and> f x s = Inr (y, q))"
  by (auto simp: bindR_def split: sum.splits)

lemma ifR_iff [codec_law]:
  "(if c then f else g) r = Inr v \<longleftrightarrow> c \<and> f r = Inr v \<or> \<not> c \<and> g r = Inr v"
  by simp

lemmas distrib_laws [codec_law] = conj_disj_distribL conj_disj_distribR ex_disj_distrib

lemma checkR_iff [codec_law]: "checkR c k r = Inr v \<longleftrightarrow> c = Inr () \<and> k r = Inr v"
  by (cases c) (auto simp: checkR_def)

lemma r_take_iff [codec_law]: "r_take n r = Inr (bs, q) \<longleftrightarrow> length bs = n \<and> consumes r bs q"
  by (auto simp: r_take_def consumes_def)

subsection \<open>The contract of a writer and its reader\<close>

locale codec =
  fixes put :: "'a \<Rightarrow> u8 list option" and get :: "'a rd" and ok :: "'a \<Rightarrow> bool"
  assumes get_iff: "get r = Inr (x, q) \<longleftrightarrow> ok x \<and> emits r (put x) q"
begin

text \<open>Reading what was written gives the value back, whatever follows.\<close>

lemma get_put:
  assumes "put x = Some bs" and "ok x"
  shows "get \<lparr>rd_buf = pre @ bs @ post, rd_pos = length pre\<rparr> =
    Inr (x, \<lparr>rd_buf = pre @ bs @ post, rd_pos = length pre + length bs\<rparr>)"
  using assms by (simp add: get_iff emits_def consumes_def)

text \<open>Only the encoding of the value read is accepted.\<close>

lemma put_get:
  assumes "get r = Inr (x, q)"
  shows "ok x \<and> put x = Some (take (rd_pos q - rd_pos r) (drop (rd_pos r) (rd_buf r)))"
  using assms by (auto simp: get_iff emits_def consumes_def)

text \<open>No encoding is a proper prefix of another.\<close>

lemma prefix_free:
  assumes "put x = Some a" "ok x" "put y = Some (a @ b)" "ok y"
  shows "x = y \<and> b = []"
proof -
  have "get \<lparr>rd_buf = a @ b, rd_pos = 0\<rparr> = Inr (x, \<lparr>rd_buf = a @ b, rd_pos = length a\<rparr>)"
    using get_put [OF assms(1,2), of "[]" b] by simp
  moreover have "get \<lparr>rd_buf = a @ b, rd_pos = 0\<rparr> = Inr (y, \<lparr>rd_buf = a @ b, rd_pos = length (a @ b)\<rparr>)"
    using get_put [OF assms(3,4), of "[]" "[]"] by simp
  ultimately show ?thesis by simp
qed

lemma get_times_iff:
  "reader_ok r \<Longrightarrow> r_times n get r = Inr (xs, q) \<longleftrightarrow>
     length xs = n \<and> list_all ok xs \<and> emits r (writes (map put xs)) q"
proof (induction n arbitrary: r xs q)
  case 0
  then show ?case by (auto simp: retR_iff emits_writes_Nil)
next
  case (Suc n)
  show ?case
  proof (cases xs)
    case Nil
    then show ?thesis by (simp add: bindR_iff retR_iff)
  next
    case (Cons y ys)
    have "r_times (Suc n) get r = Inr (xs, q) \<longleftrightarrow>
        (\<exists>s. get r = Inr (y, s) \<and> r_times n get s = Inr (ys, q))"
      by (auto simp: bindR_iff retR_iff Cons)
    also have "\<dots> \<longleftrightarrow> (\<exists>s. (ok y \<and> emits r (put y) s) \<and>
        length ys = n \<and> list_all ok ys \<and> emits s (writes (map put ys)) q)"
      using Suc.IH [OF emits_ok] by (auto simp: get_iff)
    finally show ?thesis by (auto simp: Cons emits_writes_Cons)
  qed
qed

end

subsection \<open>The primitive codecs\<close>

text \<open>A slice of the length asked for: the panics of the primitive reads are out of reach.\<close>

lemma bind_take_cong: "(\<And>bs. length bs = n \<Longrightarrow> f bs = g bs) \<Longrightarrow> bindR (r_take n) f = bindR (r_take n) g"
  by (rule ext) (auto simp: bindR_def r_take_def split: sum.split)

lemma r_u8_plain: "r_u8 = bindR (r_take 1) (\<lambda>bs. retR (hd bs))"
  unfolding r_u8_def by (rule bind_take_cong) (auto split: list.split)

lemma r_u32_plain: "r_u32 = bindR (r_take 4) (\<lambda>bs. retR (le_word bs))"
  unfolding r_u32_def by (rule bind_take_cong) simp

lemma r_u64_plain: "r_u64 = bindR (r_take 8) (\<lambda>bs. retR (le_word bs))"
  unfolding r_u64_def by (rule bind_take_cong) simp

lemma length_le_Suc0: "length bs = Suc 0 \<longleftrightarrow> (\<exists>b. bs = [b])"
  by (cases bs) auto

lemma r_u8_iff: "r_u8 r = Inr (x, q) \<longleftrightarrow> consumes r [x] q"
  by (auto simp: r_u8_plain codec_law length_le_Suc0)

interpretation u8: codec w_u8 r_u8 "\<lambda>_. True"
  by unfold_locales (simp add: r_u8_iff w_u8_def codec_law)

lemma r_bool_iff: "r_bool r = Inr (x, q) \<longleftrightarrow> emits r (w_bool x) q"
  by (auto simp: r_bool_def w_bool_def w_u8_def codec_law r_u8_iff)

interpretation bool: codec w_bool r_bool "\<lambda>_. True"
  by unfold_locales (simp add: r_bool_iff)

lemma r_u32_iff: "r_u32 r = Inr (x, q) \<longleftrightarrow> emits r (w_u32 x) q"
  by (auto simp: r_u32_plain w_u32_def codec_law ex_le_words)

interpretation u32: codec w_u32 r_u32 "\<lambda>_. True"
  by unfold_locales (simp add: r_u32_iff)

lemma r_u64_iff: "r_u64 r = Inr (x, q) \<longleftrightarrow> emits r (w_u64 x) q"
  by (auto simp: r_u64_plain w_u64_def codec_law ex_le_words)

interpretation u64: codec w_u64 r_u64 "\<lambda>_. True"
  by unfold_locales (simp add: r_u64_iff)

declare u8.get_iff [codec_law] bool.get_iff [codec_law] u32.get_iff [codec_law] u64.get_iff [codec_law]

lemma r_opt_u32_iff: "r_opt_u32 r = Inr (x, q) \<longleftrightarrow> emits r (w_opt_u32 x) q"
  by (cases x) (auto simp: r_opt_u32_def w_opt_u32_def codec_law)

lemma unat_of_len: "n < 2 ^ 32 \<Longrightarrow> unat (of_nat n :: u32) = n"
  by (simp add: unsigned_of_nat take_bit_nat_eq_self)

text \<open>Behind a length prefix.\<close>

lemma emits_len:
  "emits r (do { n \<leftarrow> u32_len k; writes (w_u32 n # ms) }) q \<longleftrightarrow>
     (\<exists>n s. k = unat n \<and> emits r (w_u32 n) s \<and> emits s (writes ms) q)"
proof (cases "k < 2 ^ 32")
  case True
  have "(\<exists>n s. k = unat n \<and> emits r (w_u32 n) s \<and> emits s (writes ms) q) \<longleftrightarrow>
      (\<exists>s. emits r (w_u32 (of_nat k)) s \<and> emits s (writes ms) q)"
    using unat_of_len [OF True] by (metis unsigned_word_eqI)
  then show ?thesis using True by (simp add: u32_len_eq emits_writes_Cons)
next
  case False
  then have "k \<noteq> unat (n :: u32)" for n using unsigned_less [of n, where 'a = nat] by auto
  with False show ?thesis by (simp add: u32_len_eq emits_def)
qed

lemma r_blob_iff: "r_blob r = Inr (x, q) \<longleftrightarrow> emits r (w_blob x) q"
  by (auto simp: r_blob_def w_blob_def emits_len codec_law)

lemma u8_char_char_u8 [simp]: "u8_char (char_u8 c) = c"
proof -
  have "of_char c < (256 :: nat)" by simp
  then have "unat (word_of_nat (of_char c) :: u8) = of_char c" by (simp add: unsigned_of_nat take_bit_nat_eq_self)
  then show ?thesis by (simp add: u8_char_def char_u8_def)
qed

lemma char_u8_u8_char [simp]: "char_u8 (u8_char b) = b"
proof -
  have "unat b < 256" using unsigned_less [of b, where 'a = nat] by simp
  then show ?thesis by (simp add: u8_char_def char_u8_def)
qed

lemma map_u8_char_iff: "map u8_char bs = s \<longleftrightarrow> bs = as_bytes s"
  by (auto simp: as_bytes_def o_def)

lemma r_str_iff: "r_str r = Inr (x, q) \<longleftrightarrow> valid_utf8 x \<and> emits r (w_str x) q"
proof -
  have "r_str r = Inr (x, q) \<longleftrightarrow> (\<exists>bs. map u8_char bs = x \<and> valid_utf8 x \<and> emits r (w_blob bs) q)"
    by (auto simp: r_str_def Let_def codec_law r_blob_iff split: if_splits)
  then show ?thesis by (auto simp: map_u8_char_iff w_str_def)
qed

interpretation str: codec w_str r_str valid_utf8
  by unfold_locales (rule r_str_iff)

interpretation blob: codec w_blob r_blob "\<lambda>_. True"
  by unfold_locales (simp add: r_blob_iff)

declare str.get_iff [codec_law] blob.get_iff [codec_law]

lemma r_opt_str_iff:
  "r_opt_str r = Inr (x, q) \<longleftrightarrow> opt_all valid_utf8 x \<and> emits r (w_opt_str x) q"
  by (cases x) (auto simp: r_opt_str_def w_opt_str_def codec_law)

interpretation opt_u32: codec w_opt_u32 r_opt_u32 "\<lambda>_. True"
  by unfold_locales (simp add: r_opt_u32_iff)

interpretation opt_str: codec w_opt_str r_opt_str "opt_all valid_utf8"
  by unfold_locales (rule r_opt_str_iff)

declare opt_u32.get_iff [codec_law] opt_str.get_iff [codec_law]

text \<open>A sequence of encodable values is encodable.\<close>

context codec
begin

lemma get_seq_iff: "r_seq get r = Inr (xs, q) \<longleftrightarrow> list_all ok xs \<and> emits r (w_seq put xs) q"
proof -
  have "r_seq get r = Inr (xs, q) \<longleftrightarrow>
      (\<exists>n s. emits r (w_u32 n) s \<and> r_times (unat n) get s = Inr (xs, q))"
    by (simp add: r_seq_def bindR_iff u32.get_iff)
  also have "\<dots> \<longleftrightarrow> (\<exists>n s. emits r (w_u32 n) s \<and>
      length xs = unat n \<and> list_all ok xs \<and> emits s (writes (map put xs)) q)"
    by (intro ex_cong1) (auto simp: get_times_iff emits_ok)
  finally show ?thesis by (auto simp: w_seq_def emits_len)
qed

end

subsection \<open>Reading without a panic\<close>

definition calm :: "'a rd \<Rightarrow> bool" where
  "calm m \<longleftrightarrow> (\<forall>r. m r \<noteq> Inl Read_Panic)"

named_theorems calm_rules \<open>reading calls that do not panic, by their parts\<close>

lemma calm_ret [calm_rules]: "calm (retR x)"
  and calm_fail [calm_rules]: "calm (failR e)"
  and calm_take [calm_rules]: "calm (r_take n)"
  and calm_finish [calm_rules]: "calm r_finish"
  by (simp_all add: calm_def retR_def failR_def r_take_def r_finish_def)

lemma calm_bind [calm_rules]: "calm m \<Longrightarrow> (\<And>x. calm (f x)) \<Longrightarrow> calm (bindR m f)"
  by (auto simp: calm_def bindR_def split: sum.split)

lemma calm_check [calm_rules]: "calm k \<Longrightarrow> calm (checkR c k)"
  by (auto simp: calm_def checkR_def split: sum.split)

lemma calm_if [calm_rules]: "calm m \<Longrightarrow> calm k \<Longrightarrow> calm (if b then m else k)"
  by simp

lemma calm_let [calm_rules]: "(\<And>x. calm (f x)) \<Longrightarrow> calm (Let a f)"
  by simp

lemma calm_prod [calm_rules]: "(\<And>x y. calm (f x y)) \<Longrightarrow> calm (case z of (x, y) \<Rightarrow> f x y)"
  by (cases z) simp

lemma calm_times [calm_rules]: "calm f \<Longrightarrow> calm (r_times n f)"
  by (induction n) (simp_all add: calm_rules)

lemma calm_primitive [calm_rules]: "calm r_u8" "calm r_u32" "calm r_u64"
  unfolding r_u8_plain r_u32_plain r_u64_plain by (rule calm_rules)+

lemma calm_bool [calm_rules]: "calm r_bool"
  and calm_opt_u32 [calm_rules]: "calm r_opt_u32"
  and calm_blob [calm_rules]: "calm r_blob"
  unfolding r_bool_def r_opt_u32_def r_blob_def by (rule calm_rules)+

lemma calm_str [calm_rules]: "calm r_str"
  unfolding r_str_def by (rule calm_rules)+

lemma calm_opt_str [calm_rules]: "calm r_opt_str"
  unfolding r_opt_str_def by (rule calm_rules)+

lemma calm_seq [calm_rules]: "calm f \<Longrightarrow> calm (r_seq f)"
  unfolding r_seq_def by (rule calm_rules | assumption)+

end
