(* ===== verification/Codec_Types.thy ===== *)
theory Codec_Types
  imports Codec_Core
begin

section \<open>align\_interface: encoding types and signatures' summaries\<close>

text \<open>
  \<open>write_type\<close>/\<open>read_type\<close> and the small records around them. A type is well-formed when its
  paths are text and every provenance summary inside it is canonical; its depth is the number of
  nested records. The reader bounds the depth by \<open>MAX_TYPE_DEPTH\<close>: \<open>read_type_left n\<close> is
  \<open>read_type_at_depth\<close> with \<open>n = MAX_TYPE_DEPTH + 1 - depth\<close> records still allowed.
\<close>

definition MAX_TYPE_DEPTH :: nat where
  "MAX_TYPE_DEPTH = 128"

text \<open>\<open>windows(2).any(..)\<close>.\<close>

fun any_window :: "('a \<Rightarrow> 'a \<Rightarrow> bool) \<Rightarrow> 'a list \<Rightarrow> bool" where
  "any_window P (x # y # zs) \<longleftrightarrow> P x y \<or> any_window P (y # zs)"
| "any_window P _ \<longleftrightarrow> False"

abbreviation unordered :: "'a::linorder list \<Rightarrow> bool" where
  "unordered xs \<equiv> any_window (\<lambda>a b. a \<ge> b) xs"

text \<open>Only strictly increasing lists have no window out of order.\<close>

lemma any_window_key: "any_window (\<lambda>a b. f a \<ge> f b) xs \<longleftrightarrow> unordered (map f xs)"
  by (induction "\<lambda>a b. f a \<ge> f b" xs rule: any_window.induct) auto

lemma unordered_iff: "unordered xs \<longleftrightarrow> \<not> sorted_wrt (<) xs"
proof (induction xs rule: induct_list012)
  case (3 x y zs)
  have "(\<forall>z \<in> set (y # zs). x < z) \<longleftrightarrow> x < y" if "sorted_wrt (<) (y # zs)"
    using that by (auto intro: less_trans)
  with 3 show ?case by (auto simp: not_le)
qed auto

subsection \<open>Writing\<close>

definition write_roots :: "u32 list \<Rightarrow> u32 list \<Rightarrow> u8 list option" where
  "write_roots params captures = writes [w_seq w_u32 params, w_seq w_u32 captures]"

definition write_return_borrow :: "return_borrow \<Rightarrow> u8 list option" where
  "write_return_borrow summary = (case summary of
     RB_None \<Rightarrow> w_u8 0
   | RB_Roots params captures \<Rightarrow> writes [w_u8 1, write_roots params captures])"

definition write_return_region :: "return_region \<Rightarrow> u8 list option" where
  "write_return_region summary = (case summary of
     RG_None \<Rightarrow> w_u8 0
   | RG_Roots params captures \<Rightarrow> writes [w_u8 1, write_roots params captures])"

definition write_return_cleanup :: "return_cleanup_abi \<Rightarrow> u8 list option" where
  "write_return_cleanup v = w_u8 (case v of RC_None \<Rightarrow> 0 | RC_DynamicBit \<Rightarrow> 1)"

definition write_mode :: "param_mode \<Rightarrow> u8 list option" where
  "write_mode m = w_u8 (case m of PM_ByValue \<Rightarrow> 0 | PM_Out \<Rightarrow> 1 | PM_Borrow \<Rightarrow> 2 | PM_BorrowMut \<Rightarrow> 3)"

fun write_type :: "itype \<Rightarrow> u8 list option" and write_param :: "iparam \<Rightarrow> u8 list option" where
  "write_type (IT_Named path args) = writes [w_u8 0, w_str path, w_seq write_type args]"
| "write_type (IT_Tuple elems) = writes [w_u8 1, w_seq write_type elems]"
| "write_type (IT_FixedArray element len) = writes [w_u8 3, write_type element, w_u32 len]"
| "write_type (IT_Fn params ret borrow region cleanup) =
     writes [w_u8 2, w_seq write_param params, write_type ret, write_return_borrow borrow,
       write_return_region region, write_return_cleanup cleanup]"
| "write_param (I_Param mode t) = writes [write_mode mode, write_type t]"

definition write_type_param :: "itype_param \<Rightarrow> u8 list option" where
  "write_type_param tp = writes [w_str (itp_name tp), w_opt_str (itp_bound tp)]"

definition write_type_params :: "itype_param list \<Rightarrow> u8 list option" where
  "write_type_params tps = w_seq write_type_param tps"

definition write_effect :: "effect \<Rightarrow> u8 list option" where
  "write_effect e = w_u8 (case e of E_Pure \<Rightarrow> 0 | E_Impure \<Rightarrow> 1 | E_Unknown \<Rightarrow> 2)"

definition write_producer_certification :: "producer_certification \<Rightarrow> u8 list option" where
  "write_producer_certification v =
     w_u8 (case v of PC_RevalidateGenericBody \<Rightarrow> 0 | PC_ValidatedBody \<Rightarrow> 1)"

definition write_drop_state_effect :: "drop_state_effect \<Rightarrow> u8 list option" where
  "write_drop_state_effect e =
     w_u8 (case e of DS_NotApplicable \<Rightarrow> 0 | DS_Invariant \<Rightarrow> 1 | DS_MayChange \<Rightarrow> 2 | DS_Deferred \<Rightarrow> 3)"

definition write_drop_state_effects :: "drop_state_effect list \<Rightarrow> u8 list option" where
  "write_drop_state_effects es = w_seq write_drop_state_effect es"

subsection \<open>Reading\<close>

definition validate_roots :: "u32 list \<Rightarrow> u32 list \<Rightarrow> nat \<Rightarrow> decode_error + unit" where
  "validate_roots params captures param_count =
     (if unordered params then
        Inl (DE_InvalidSummary ''parameter roots must be strictly increasing'')
      else if list_ex (\<lambda>root. unat root \<ge> param_count) params then
        Inl (DE_InvalidSummary ''parameter root is outside the signature'')
      else if captures \<noteq> [] then
        Inl (DE_InvalidSummary ''capture roots are forbidden in exported interfaces'')
      else if params = [] then
        Inl (DE_InvalidSummary ''an empty root set must use the canonical None tag'')
      else Inr ())"

definition validate_transfer_roots :: "u32 list \<Rightarrow> nat \<Rightarrow> decode_error + unit" where
  "validate_transfer_roots params param_count =
     (if unordered params then
        Inl (DE_InvalidSummary ''parallel-transfer roots must be strictly increasing'')
      else if list_ex (\<lambda>root. unat root \<ge> param_count) params then
        Inl (DE_InvalidSummary ''parallel-transfer root is outside the signature'')
      else Inr ())"

definition read_roots :: "nat \<Rightarrow> (u32 list \<times> u32 list) rd" where
  "read_roots param_count =
     bindR (r_seq r_u32) (\<lambda>params.
     bindR (r_seq r_u32) (\<lambda>captures.
     checkR (validate_roots params captures param_count)
     (retR (params, captures))))"

definition read_return_borrow :: "nat \<Rightarrow> return_borrow rd" where
  "read_return_borrow param_count = bindR r_u8 (\<lambda>tag.
     if tag = 0 then retR RB_None
     else if tag = 1 then bindR (read_roots param_count) (\<lambda>(params, captures). retR (RB_Roots params captures))
     else failR (DE_BadTag ''return-borrow summary'' tag))"

definition read_return_region :: "nat \<Rightarrow> return_region rd" where
  "read_return_region param_count = bindR r_u8 (\<lambda>tag.
     if tag = 0 then retR RG_None
     else if tag = 1 then bindR (read_roots param_count) (\<lambda>(params, captures). retR (RG_Roots params captures))
     else failR (DE_BadTag ''return-region summary'' tag))"

definition read_return_cleanup :: "return_cleanup_abi rd" where
  "read_return_cleanup = bindR r_u8 (\<lambda>tag.
     if tag = 0 then retR RC_None
     else if tag = 1 then retR RC_DynamicBit
     else failR (DE_BadTag ''return cleanup ABI'' tag))"

definition read_mode :: "param_mode rd" where
  "read_mode = bindR r_u8 (\<lambda>tag.
     if tag = 0 then retR PM_ByValue
     else if tag = 1 then retR PM_Out
     else if tag = 2 then retR PM_Borrow
     else if tag = 3 then retR PM_BorrowMut
     else failR (DE_BadTag ''parameter mode'' tag))"

text \<open>\<open>read_param_at_depth\<close>, with the reader of the type at that depth.\<close>

definition read_param_with :: "itype rd \<Rightarrow> iparam rd" where
  "read_param_with read_ty = bindR read_mode (\<lambda>mode. bindR read_ty (\<lambda>t. retR (I_Param mode t)))"

primrec read_type_left :: "nat \<Rightarrow> itype rd" where
  "read_type_left 0 = failR (DE_InvalidSummary ''interface type nesting exceeds 128 records'')"
| "read_type_left (Suc n) = bindR r_u8 (\<lambda>tag.
     if tag = 0 then
       bindR r_str (\<lambda>path.
       bindR (r_seq (read_type_left n)) (\<lambda>args. retR (IT_Named path args)))
     else if tag = 1 then
       bindR (r_seq (read_type_left n)) (\<lambda>elems. retR (IT_Tuple elems))
     else if tag = 2 then
       bindR (r_seq (read_param_with (read_type_left n))) (\<lambda>params.
       bindR (read_type_left n) (\<lambda>ret.
       bindR (read_return_borrow (length params)) (\<lambda>borrow.
       bindR (read_return_region (length params)) (\<lambda>region.
       bindR read_return_cleanup (\<lambda>cleanup.
       retR (IT_Fn params ret borrow region cleanup))))))
     else if tag = 3 then
       bindR (read_type_left n) (\<lambda>element.
       bindR r_u32 (\<lambda>len. retR (IT_FixedArray element len)))
     else failR (DE_BadTag ''type'' tag))"

definition read_type :: "itype rd" where
  "read_type = read_type_left MAX_TYPE_DEPTH"

definition read_param :: "iparam rd" where
  "read_param = read_param_with (read_type_left MAX_TYPE_DEPTH)"

definition read_type_param :: "itype_param rd" where
  "read_type_param = bindR r_str (\<lambda>name. bindR r_opt_str (\<lambda>bound.
     retR \<lparr>itp_name = name, itp_bound = bound\<rparr>))"

definition read_type_params :: "itype_param list rd" where
  "read_type_params = r_seq read_type_param"

definition read_effect :: "effect rd" where
  "read_effect = bindR r_u8 (\<lambda>tag.
     if tag = 0 then retR E_Pure
     else if tag = 1 then retR E_Impure
     else if tag = 2 then retR E_Unknown
     else failR (DE_BadTag ''effect'' tag))"

definition read_producer_certification :: "producer_certification rd" where
  "read_producer_certification = bindR r_u8 (\<lambda>tag.
     if tag = 0 then retR PC_RevalidateGenericBody
     else if tag = 1 then retR PC_ValidatedBody
     else failR (DE_BadTag ''producer certification'' tag))"

definition read_drop_state_effect :: "drop_state_effect rd" where
  "read_drop_state_effect = bindR r_u8 (\<lambda>tag.
     if tag = 0 then retR DS_NotApplicable
     else if tag = 1 then retR DS_Invariant
     else if tag = 2 then retR DS_MayChange
     else if tag = 3 then retR DS_Deferred
     else failR (DE_BadTag ''drop-state effect'' tag))"

definition read_drop_state_effects :: "drop_state_effect list rd" where
  "read_drop_state_effects = r_seq read_drop_state_effect"

subsection \<open>Well-formed types\<close>

text \<open>A root set of an exported summary: parameters of the signature, in order, no captures.\<close>

definition roots_ok :: "nat \<Rightarrow> u32 list \<Rightarrow> u32 list \<Rightarrow> bool" where
  "roots_ok n params captures \<longleftrightarrow>
     sorted_wrt (<) params \<and> list_all (\<lambda>i. unat i < n) params \<and> params \<noteq> [] \<and> captures = []"

primrec borrow_ok :: "nat \<Rightarrow> return_borrow \<Rightarrow> bool" where
  "borrow_ok n RB_None \<longleftrightarrow> True"
| "borrow_ok n (RB_Roots params captures) \<longleftrightarrow> roots_ok n params captures"

primrec region_ok :: "nat \<Rightarrow> return_region \<Rightarrow> bool" where
  "region_ok n RG_None \<longleftrightarrow> True"
| "region_ok n (RG_Roots params captures) \<longleftrightarrow> roots_ok n params captures"

fun type_wf :: "itype \<Rightarrow> bool" and param_wf :: "iparam \<Rightarrow> bool" where
  "type_wf (IT_Named path args) \<longleftrightarrow> valid_utf8 path \<and> list_all type_wf args"
| "type_wf (IT_Tuple elems) \<longleftrightarrow> list_all type_wf elems"
| "type_wf (IT_FixedArray element len) \<longleftrightarrow> type_wf element"
| "type_wf (IT_Fn params ret borrow region cleanup) \<longleftrightarrow>
     list_all param_wf params \<and> type_wf ret \<and>
     borrow_ok (length params) borrow \<and> region_ok (length params) region"
| "param_wf (I_Param mode t) \<longleftrightarrow> type_wf t"

text \<open>The number of nested records.\<close>

fun type_depth :: "itype \<Rightarrow> nat" and param_depth :: "iparam \<Rightarrow> nat" where
  "type_depth (IT_Named path args) = Suc (foldr max (map type_depth args) 0)"
| "type_depth (IT_Tuple elems) = Suc (foldr max (map type_depth elems) 0)"
| "type_depth (IT_FixedArray element len) = Suc (type_depth element)"
| "type_depth (IT_Fn params ret borrow region cleanup) =
     Suc (max (foldr max (map param_depth params) 0) (type_depth ret))"
| "param_depth (I_Param mode t) = type_depth t"

definition type_ok :: "nat \<Rightarrow> itype \<Rightarrow> bool" where
  "type_ok n t \<longleftrightarrow> type_wf t \<and> type_depth t \<le> n"

definition iparam_ok :: "nat \<Rightarrow> iparam \<Rightarrow> bool" where
  "iparam_ok n p \<longleftrightarrow> param_wf p \<and> param_depth p \<le> n"

lemma foldr_max_le: "foldr max (map f xs) 0 \<le> n \<longleftrightarrow> list_all (\<lambda>x. f x \<le> (n::nat)) xs"
  by (induction xs) auto

lemma list_all_conj: "list_all (\<lambda>x. P x \<and> Q x) xs \<longleftrightarrow> list_all P xs \<and> list_all Q xs"
  by (induction xs) auto

lemma type_ok_simps [simp]:
  "type_ok 0 t \<longleftrightarrow> False"
  "type_ok (Suc n) (IT_Named path args) \<longleftrightarrow> valid_utf8 path \<and> list_all (type_ok n) args"
  "type_ok (Suc n) (IT_Tuple elems) \<longleftrightarrow> list_all (type_ok n) elems"
  "type_ok (Suc n) (IT_FixedArray element len) \<longleftrightarrow> type_ok n element"
  "type_ok (Suc n) (IT_Fn params ret borrow region cleanup) \<longleftrightarrow>
     list_all (iparam_ok n) params \<and> type_ok n ret \<and>
     borrow_ok (length params) borrow \<and> region_ok (length params) region"
  "iparam_ok n (I_Param mode t) \<longleftrightarrow> type_ok n t"
  by (cases t; auto simp: type_ok_def iparam_ok_def foldr_max_le list_all_conj [abs_def] list.pred_set)+

subsection \<open>The readers accept what the writers emit\<close>

lemma list_all_True [codec_law]: "list_all (\<lambda>_. True) xs"
  by (induction xs) simp_all

declare u32.get_seq_iff [codec_law] str.get_seq_iff [codec_law]

lemma validate_roots_iff [codec_law]: "validate_roots ps cs n = Inr () \<longleftrightarrow> roots_ok n ps cs"
  by (auto simp: validate_roots_def roots_ok_def unordered_iff Bex_def Ball_def list_ex_iff list_all_iff not_le linorder_not_less)

definition transfer_ok :: "nat \<Rightarrow> u32 list \<Rightarrow> bool" where
  "transfer_ok n params \<longleftrightarrow> sorted_wrt (<) params \<and> list_all (\<lambda>i. unat i < n) params"

lemma validate_transfer_roots_iff [codec_law]:
  "validate_transfer_roots ps n = Inr () \<longleftrightarrow> transfer_ok n ps"
  by (auto simp: validate_transfer_roots_def transfer_ok_def unordered_iff Bex_def Ball_def list_ex_iff list_all_iff not_le linorder_not_less)

lemma read_roots_iff [codec_law]:
  "read_roots n r = Inr ((ps, cs), q) \<longleftrightarrow> roots_ok n ps cs \<and> emits r (write_roots ps cs) q"
  by (auto simp: read_roots_def write_roots_def codec_law)

lemma read_return_borrow_iff:
  "read_return_borrow n r = Inr (x, q) \<longleftrightarrow> borrow_ok n x \<and> emits r (write_return_borrow x) q"
  by (cases x) (auto simp: read_return_borrow_def write_return_borrow_def codec_law)

lemma read_return_region_iff:
  "read_return_region n r = Inr (x, q) \<longleftrightarrow> region_ok n x \<and> emits r (write_return_region x) q"
  by (cases x) (auto simp: read_return_region_def write_return_region_def codec_law)

interpretation borrow: codec write_return_borrow "read_return_borrow n" "borrow_ok n" for n
  by unfold_locales (rule read_return_borrow_iff)

interpretation region: codec write_return_region "read_return_region n" "region_ok n" for n
  by unfold_locales (rule read_return_region_iff)

interpretation cleanup: codec write_return_cleanup read_return_cleanup "\<lambda>_. True"
  by unfold_locales
    (auto simp: read_return_cleanup_def write_return_cleanup_def codec_law split: return_cleanup_abi.splits)

interpretation mode: codec write_mode read_mode "\<lambda>_. True"
  by unfold_locales (auto simp: read_mode_def write_mode_def codec_law split: param_mode.splits)

declare borrow.get_iff [codec_law] region.get_iff [codec_law] cleanup.get_iff [codec_law]
  mode.get_iff [codec_law]

lemmas prenex = ex_simps(1,2) [symmetric] conj_assoc

lemma read_param_codec:
  assumes "codec write_type rt (type_ok n)"
  shows "codec write_param (read_param_with rt) (iparam_ok n)"
proof
  fix r p q
  show "read_param_with rt r = Inr (p, q) \<longleftrightarrow> iparam_ok n p \<and> emits r (write_param p) q"
    by (cases p) (auto simp: read_param_with_def codec_law codec.get_iff [OF assms])
qed

lemma read_type_codec: "codec write_type (read_type_left n) (type_ok n)"
proof (induction n)
  case 0
  show ?case by unfold_locales (simp add: failR_iff)
next
  case (Suc n)
  note types = codec.get_iff [OF Suc] codec.get_seq_iff [OF Suc]
    codec.get_seq_iff [OF read_param_codec [OF Suc]]
  show ?case
  proof
    fix r t q
    show "read_type_left (Suc n) r = Inr (t, q) \<longleftrightarrow> type_ok (Suc n) t \<and> emits r (write_type t) q"
      by (cases t) (simp_all add: types codec_law prenex del: ex_simps cong: conj_cong, (blast+)?)
  qed
qed

interpretation ty: codec write_type read_type "type_ok MAX_TYPE_DEPTH"
  unfolding read_type_def by (rule read_type_codec)

interpretation param: codec write_param read_param "iparam_ok MAX_TYPE_DEPTH"
  unfolding read_param_def by (rule read_param_codec [OF read_type_codec])

definition type_param_ok :: "itype_param \<Rightarrow> bool" where
  "type_param_ok tp \<longleftrightarrow> valid_utf8 (itp_name tp) \<and> opt_all valid_utf8 (itp_bound tp)"

lemma read_type_param_iff:
  "read_type_param r = Inr (x, q) \<longleftrightarrow> type_param_ok x \<and> emits r (write_type_param x) q"
  by (cases x) (simp add: read_type_param_def write_type_param_def type_param_ok_def codec_law prenex
    del: ex_simps, blast)

interpretation type_param: codec write_type_param read_type_param type_param_ok
  by unfold_locales (rule read_type_param_iff)

interpretation type_params: codec write_type_params read_type_params "list_all type_param_ok"
  by unfold_locales
    (simp add: read_type_params_def write_type_params_def type_param.get_seq_iff)

interpretation effect: codec write_effect read_effect "\<lambda>_. True"
  by unfold_locales (auto simp: read_effect_def write_effect_def codec_law split: effect.splits)

interpretation certification: codec write_producer_certification read_producer_certification "\<lambda>_. True"
  by unfold_locales (auto simp: read_producer_certification_def write_producer_certification_def
    codec_law split: producer_certification.splits)

interpretation drop_state: codec write_drop_state_effect read_drop_state_effect "\<lambda>_. True"
  by unfold_locales (auto simp: read_drop_state_effect_def write_drop_state_effect_def codec_law
    split: drop_state_effect.splits)

interpretation drop_states: codec write_drop_state_effects read_drop_state_effects "\<lambda>_. True"
  by unfold_locales (simp add: read_drop_state_effects_def write_drop_state_effects_def
    drop_state.get_seq_iff list_all_True)

declare ty.get_iff [codec_law] ty.get_seq_iff [codec_law] param.get_seq_iff [codec_law]
  type_params.get_iff [codec_law] effect.get_iff [codec_law] certification.get_iff [codec_law]
  drop_states.get_iff [codec_law]

end
