(* ===== verification/Codec_Flow.thy ===== *)
theory Codec_Flow
  imports Codec_Types
begin

section \<open>align\_interface: encoding callable flow\<close>

text \<open>
  The callback contracts, mutable-access, mutable-retention and mutable-view records of a function
  signature: their writers and readers in \<open>codec.rs\<close>, with the canonical-order checks of
  \<open>crates/align_sema/src/hir.rs\<close> the readers run. The readers of the first three validate after
  reading; the view-effect reader checks while it reads, and accepts exactly what the shared
  validator of \<open>hir.rs\<close> accepts.
\<close>

subsection \<open>Callback records\<close>

definition write_callback_projection :: "callback_projection \<Rightarrow> u8 list option" where
  "write_callback_projection p = (case p of
     CP_StructField i \<Rightarrow> writes [w_u8 0, w_u32 i]
   | CP_TupleElement i \<Rightarrow> writes [w_u8 1, w_u32 i]
   | CP_EnumPayload v i \<Rightarrow> writes [w_u8 2, w_u32 v, w_u32 i]
   | CP_OptionSome \<Rightarrow> w_u8 3
   | CP_ResultOk \<Rightarrow> w_u8 4
   | CP_ResultErr \<Rightarrow> w_u8 5
   | CP_ArrayElement \<Rightarrow> w_u8 6)"

definition write_callback_path :: "callback_projection list \<Rightarrow> u8 list option" where
  "write_callback_path path = w_seq write_callback_projection path"

definition read_callback_projection :: "callback_projection rd" where
  "read_callback_projection = bindR r_u8 (\<lambda>tag.
     if tag = 0 then bindR r_u32 (\<lambda>i. retR (CP_StructField i))
     else if tag = 1 then bindR r_u32 (\<lambda>i. retR (CP_TupleElement i))
     else if tag = 2 then bindR r_u32 (\<lambda>v. bindR r_u32 (\<lambda>i. retR (CP_EnumPayload v i)))
     else if tag = 3 then retR CP_OptionSome
     else if tag = 4 then retR CP_ResultOk
     else if tag = 5 then retR CP_ResultErr
     else if tag = 6 then retR CP_ArrayElement
     else failR (DE_BadTag ''callback projection'' tag))"

definition read_callback_path :: "callback_projection list rd" where
  "read_callback_path = r_seq read_callback_projection"

primrec write_callback_input :: "callback_input \<Rightarrow> u8 list option" where
  "write_callback_input (Callback_Input p path) = writes [w_u32 p, write_callback_path path]"

definition read_callback_input :: "callback_input rd" where
  "read_callback_input = bindR r_u32 (\<lambda>p. bindR read_callback_path (\<lambda>path. retR (Callback_Input p path)))"

definition write_callback_read :: "callback_read \<Rightarrow> u8 list option" where
  "write_callback_read rd = (case rd of
     CR_Environment \<Rightarrow> w_u8 0
   | CR_Argument i \<Rightarrow> writes [w_u8 1, w_u32 i])"

primrec write_callback_requirement :: "callback_requirement \<Rightarrow> u8 list option" where
  "write_callback_requirement (Callback_Requirement input rd) =
     writes [write_callback_input input, write_callback_read rd]"

definition read_callback_read :: "callback_read rd" where
  "read_callback_read = bindR r_u8 (\<lambda>tag.
     if tag = 0 then retR CR_Environment
     else if tag = 1 then bindR r_u32 (\<lambda>i. retR (CR_Argument i))
     else failR (DE_BadTag ''callback read'' tag))"

definition read_callback_requirement :: "callback_requirement rd" where
  "read_callback_requirement =
     bindR read_callback_input (\<lambda>input.
     bindR read_callback_read (\<lambda>rd. retR (Callback_Requirement input rd)))"

primrec write_callback_effects :: "callback_effects \<Rightarrow> u8 list option" where
  "write_callback_effects (Callback_Effects env ws) = writes [w_bool env, w_seq w_u32 ws]"

definition write_callback_source :: "callback_source \<Rightarrow> u8 list option" where
  "write_callback_source s = (case s of
     CS_Parameter input \<Rightarrow> writes [w_u8 0, write_callback_input input]
   | CS_Known effects \<Rightarrow> writes [w_u8 1, write_callback_effects effects]
   | CS_Unknown \<Rightarrow> w_u8 2)"

definition read_callback_effects :: "callback_effects rd" where
  "read_callback_effects = bindR r_bool (\<lambda>env. bindR (r_seq r_u32) (\<lambda>ws. retR (Callback_Effects env ws)))"

definition read_callback_source :: "callback_source rd" where
  "read_callback_source = bindR r_u8 (\<lambda>tag.
     if tag = 0 then bindR read_callback_input (\<lambda>input. retR (CS_Parameter input))
     else if tag = 1 then bindR read_callback_effects (\<lambda>effects. retR (CS_Known effects))
     else if tag = 2 then retR CS_Unknown
     else failR (DE_BadTag ''callback source'' tag))"

definition write_callback_return :: "callback_return \<Rightarrow> u8 list option" where
  "write_callback_return row =
     writes [write_callback_path (cb_path row), w_seq write_callback_source (cb_sources row)]"

definition write_callback_contract :: "callback_contract option \<Rightarrow> u8 list option" where
  "write_callback_contract c = (case c of
     None \<Rightarrow> w_u8 0
   | Some c \<Rightarrow> writes [w_u8 1, w_seq write_callback_requirement (cc_requirements c),
       w_seq write_callback_return (cc_returns c)])"

definition read_callback_return :: "callback_return rd" where
  "read_callback_return =
     bindR read_callback_path (\<lambda>path.
     bindR (r_seq read_callback_source) (\<lambda>sources.
     retR \<lparr>cb_path = path, cb_sources = sources\<rparr>))"

definition read_callback_contract :: "callback_contract option rd" where
  "read_callback_contract = bindR r_u8 (\<lambda>tag.
     if tag = 0 then retR None
     else if tag = 1 then
       bindR (r_seq read_callback_requirement) (\<lambda>requirements.
       bindR (r_seq read_callback_return) (\<lambda>returns.
       retR (Some \<lparr>cc_requirements = requirements, cc_returns = returns\<rparr>)))
     else failR (DE_BadTag ''callback contract'' tag))"

interpretation projection: codec write_callback_projection read_callback_projection "\<lambda>_. True"
  by unfold_locales (auto simp: write_callback_projection_def read_callback_projection_def codec_law
    split: callback_projection.splits)

interpretation callback_path: codec write_callback_path read_callback_path "\<lambda>_. True"
  by unfold_locales (simp add: write_callback_path_def read_callback_path_def projection.get_seq_iff codec_law)

declare callback_path.get_iff [codec_law]

lemma read_callback_input_iff:
  "read_callback_input r = Inr (x, q) \<longleftrightarrow> emits r (write_callback_input x) q"
  by (cases x) (auto simp: read_callback_input_def codec_law)

interpretation callback_input: codec write_callback_input read_callback_input "\<lambda>_. True"
  by unfold_locales (simp add: read_callback_input_iff)

interpretation callback_read: codec write_callback_read read_callback_read "\<lambda>_. True"
  by unfold_locales (auto simp: write_callback_read_def read_callback_read_def codec_law
    split: callback_read.splits)

declare callback_input.get_iff [codec_law] callback_read.get_iff [codec_law]

lemma read_callback_requirement_iff:
  "read_callback_requirement r = Inr (x, q) \<longleftrightarrow> emits r (write_callback_requirement x) q"
  by (cases x) (auto simp: read_callback_requirement_def codec_law)

interpretation requirement: codec write_callback_requirement read_callback_requirement "\<lambda>_. True"
  by unfold_locales (simp add: read_callback_requirement_iff)

lemma read_callback_effects_iff:
  "read_callback_effects r = Inr (x, q) \<longleftrightarrow> emits r (write_callback_effects x) q"
  by (cases x) (auto simp: read_callback_effects_def codec_law)

interpretation callback_effects: codec write_callback_effects read_callback_effects "\<lambda>_. True"
  by unfold_locales (simp add: read_callback_effects_iff)

declare requirement.get_iff [codec_law] requirement.get_seq_iff [codec_law]
  callback_effects.get_iff [codec_law]

interpretation callback_source: codec write_callback_source read_callback_source "\<lambda>_. True"
  by unfold_locales (auto simp: write_callback_source_def read_callback_source_def codec_law
    split: callback_source.splits)

declare callback_source.get_seq_iff [codec_law]

lemma read_callback_return_iff:
  "read_callback_return r = Inr (x, q) \<longleftrightarrow> emits r (write_callback_return x) q"
  by (cases x) (auto simp: read_callback_return_def write_callback_return_def codec_law)

interpretation callback_return: codec write_callback_return read_callback_return "\<lambda>_. True"
  by unfold_locales (simp add: read_callback_return_iff)

declare callback_return.get_seq_iff [codec_law]

lemma read_callback_contract_iff:
  "read_callback_contract r = Inr (x, q) \<longleftrightarrow> emits r (write_callback_contract x) q"
proof (cases x)
  case (Some c)
  then show ?thesis
    by (cases c) (auto simp: read_callback_contract_def write_callback_contract_def codec_law)
qed (auto simp: read_callback_contract_def write_callback_contract_def codec_law)

interpretation contract: codec write_callback_contract read_callback_contract "\<lambda>_. True"
  by unfold_locales (simp add: read_callback_contract_iff)

declare contract.get_iff [codec_law]

text \<open>\<open>validate_callback_record_order\<close>: \<open>Some\<close> is the error's reason.\<close>

definition input_valid :: "nat \<Rightarrow> callback_input \<Rightarrow> bool" where
  "input_valid n input \<longleftrightarrow> unat (ci_parameter input) < n"

fun source_fault :: "nat \<Rightarrow> callback_source \<Rightarrow> string option" where
  "source_fault n (CS_Parameter input) =
     (if \<not> input_valid n input then Some ''callback source parameter'' else None)"
| "source_fault n (CS_Known effects) =
     (if unordered (ce_argument_writes effects) then Some ''callback source effects order'' else None)"
| "source_fault n CS_Unknown = None"

text \<open>The first fault of a loop over rows.\<close>

primrec first_fault :: "('a \<Rightarrow> string option) \<Rightarrow> 'a list \<Rightarrow> string option" where
  "first_fault f [] = None"
| "first_fault f (x # xs) = (case f x of Some e \<Rightarrow> Some e | None \<Rightarrow> first_fault f xs)"

definition return_fault :: "nat \<Rightarrow> callback_return \<Rightarrow> string option" where
  "return_fault n row =
     (if unordered (cb_sources row) then Some ''callback return canonical structure''
      else first_fault (source_fault n) (cb_sources row))"

definition validate_callback_record_order ::
    "callback_contract option \<Rightarrow> nat \<Rightarrow> bool \<Rightarrow> string option" where
  "validate_callback_record_order contract parameter_count generic = (case contract of
     None \<Rightarrow> None
   | Some c \<Rightarrow>
       if generic \<or> unordered (cc_requirements c)
         \<or> list_ex (\<lambda>r. \<not> input_valid parameter_count (cr_input r)) (cc_requirements c)
         \<or> any_window (\<lambda>a b. cb_path a \<ge> cb_path b) (cc_returns c)
       then Some ''callback contract canonical structure''
       else first_fault (return_fault parameter_count) (cc_returns c))"

subsection \<open>Mutable access\<close>

definition write_access_root :: "access_root \<Rightarrow> u8 list option" where
  "write_access_root root = (case root of
     AR_Contained i \<Rightarrow> writes [w_u8 0, w_u32 i]
   | AR_Storage i \<Rightarrow> writes [w_u8 1, w_u32 i])"

definition read_access_root :: "access_root rd" where
  "read_access_root = bindR r_u8 (\<lambda>tag.
     if tag = 0 then bindR r_u32 (\<lambda>i. retR (AR_Contained i))
     else if tag = 1 then bindR r_u32 (\<lambda>i. retR (AR_Storage i))
     else failR (DE_BadTag ''mutable-access root'' tag))"

definition write_conditional_access :: "conditional_access \<Rightarrow> u8 list option" where
  "write_conditional_access row =
     writes [write_callback_requirement (ca_requirement row), w_seq write_access_root (ca_roots row)]"

definition read_conditional_access :: "conditional_access rd" where
  "read_conditional_access =
     bindR read_callback_requirement (\<lambda>requirement.
     bindR (r_seq read_access_root) (\<lambda>roots.
     retR \<lparr>ca_requirement = requirement, ca_roots = roots\<rparr>))"

definition write_mutable_access :: "mutable_access \<Rightarrow> u8 list option" where
  "write_mutable_access summary = (case summary of
     None \<Rightarrow> w_u8 0
   | Some effects \<Rightarrow> writes [w_u8 1, w_seq write_access_root (ae_direct effects),
       w_seq write_conditional_access (ae_conditional effects)])"

definition conditional_fault :: "nat \<Rightarrow> conditional_access \<Rightarrow> string option" where
  "conditional_fault parameter_count row =
     (if unat (ci_parameter (cr_input (ca_requirement row))) \<ge> parameter_count
        \<or> ca_roots row = []
        \<or> unordered (ca_roots row)
        \<or> list_ex (\<lambda>root. unat (access_index root) \<ge> parameter_count) (ca_roots row)
      then Some ''conditional access roots'' else None)"

definition validate_mutable_access :: "mutable_access \<Rightarrow> nat \<Rightarrow> bool \<Rightarrow> string option" where
  "validate_mutable_access summary parameter_count generic = (case summary of
     None \<Rightarrow> None
   | Some effects \<Rightarrow>
       if generic \<or> unordered (ae_direct effects)
         \<or> list_ex (\<lambda>root. unat (access_index root) \<ge> parameter_count) (ae_direct effects)
       then Some ''mutable-access roots''
       else if any_window (\<lambda>a b. ca_requirement a \<ge> ca_requirement b) (ae_conditional effects)
       then Some ''conditional access ordering''
       else first_fault (conditional_fault parameter_count) (ae_conditional effects))"

text \<open>\<open>.map_err(DecodeError::InvalidSummary)\<close>.\<close>

definition invalid_summary :: "string option \<Rightarrow> decode_error + unit" where
  "invalid_summary fault = (case fault of Some e \<Rightarrow> Inl (DE_InvalidSummary e) | None \<Rightarrow> Inr ())"

lemma invalid_summary_iff [codec_law]: "invalid_summary fault = Inr () \<longleftrightarrow> fault = None"
  by (auto simp: invalid_summary_def split: option.splits)

definition read_access_effects :: "mutable_access rd" where
  "read_access_effects = bindR r_u8 (\<lambda>tag.
     if tag = 0 then retR None
     else if tag = 1 then
       bindR (r_seq read_access_root) (\<lambda>direct.
       bindR (r_seq read_conditional_access) (\<lambda>conditional.
       retR (Some \<lparr>ae_direct = direct, ae_conditional = conditional\<rparr>)))
     else failR (DE_BadTag ''mutable-access option'' tag))"

definition read_mutable_access :: "nat \<Rightarrow> bool \<Rightarrow> mutable_access rd" where
  "read_mutable_access parameter_count generic =
     bindR read_access_effects (\<lambda>summary.
     checkR (invalid_summary (validate_mutable_access summary parameter_count generic))
     (retR summary))"

interpretation access_root: codec write_access_root read_access_root "\<lambda>_. True"
  by unfold_locales (auto simp: write_access_root_def read_access_root_def codec_law
    split: access_root.splits)

declare access_root.get_seq_iff [codec_law]

lemma read_conditional_access_iff:
  "read_conditional_access r = Inr (x, q) \<longleftrightarrow> emits r (write_conditional_access x) q"
  by (cases x) (auto simp: read_conditional_access_def write_conditional_access_def codec_law)

interpretation conditional: codec write_conditional_access read_conditional_access "\<lambda>_. True"
  by unfold_locales (simp add: read_conditional_access_iff)

declare conditional.get_seq_iff [codec_law]

lemma read_access_effects_iff [codec_law]:
  "read_access_effects r = Inr (x, q) \<longleftrightarrow> emits r (write_mutable_access x) q"
proof (cases x)
  case (Some c)
  then show ?thesis
    by (cases c) (auto simp: read_access_effects_def write_mutable_access_def codec_law)
qed (auto simp: read_access_effects_def write_mutable_access_def codec_law)

interpretation access: codec write_mutable_access "read_mutable_access n generic"
    "\<lambda>s. validate_mutable_access s n generic = None" for n generic
  by unfold_locales (auto simp: read_mutable_access_def codec_law)

end
