(* ===== verification/Codec_Views.thy ===== *)
theory Codec_Views
  imports Codec_Flow
begin

unbundle bit_operations_syntax

section \<open>align\_interface: encoding retention and view effects\<close>

text \<open>
  \<open>write_mutable_retention\<close>/\<open>read_mutable_retention\<close> and \<open>write_mutable_view_effect\<close>/
  \<open>read_mutable_view_effect\<close>, with \<open>validate_mutable_retention\<close> and \<open>validate_mutable_view_effect\<close>
  of \<open>crates/align_sema/src/hir.rs\<close>. The view-effect reader bounds the number of roots and
  checks flags, range and order byte by byte; it accepts exactly what the shared validator does
  (\<open>read_mutable_view_effect_iff\<close>).
\<close>

subsection \<open>Mutable retention\<close>

definition write_retention_root :: "retention_root \<Rightarrow> u8 list option" where
  "write_retention_root root =
     writes [w_u8 (case root of RR_Contained _ \<Rightarrow> 0 | RR_Storage _ \<Rightarrow> 1), w_u32 (root_index root)]"

definition write_retention_destination :: "retention_destination \<Rightarrow> u8 list option" where
  "write_retention_destination d =
     writes [w_bool (rd_may_mutate d), w_seq write_retention_root (rd_roots d)]"

definition write_mutable_retention :: "mutable_retention \<Rightarrow> u8 list option" where
  "write_mutable_retention summary = (case summary of
     None \<Rightarrow> w_u8 0
   | Some destinations \<Rightarrow> writes [w_u8 1, w_seq write_retention_destination destinations])"

definition destination_fault :: "nat \<Rightarrow> retention_destination \<times> param_mode \<Rightarrow> string option" where
  "destination_fault n = (\<lambda>(d, mode).
     if list_ex (\<lambda>root. unat (root_index root) \<ge> n) (rd_roots d)
     then Some ''mutable-retention source index out of range''
     else if unordered (rd_roots d)
     then Some ''mutable-retention roots are not strictly ordered''
     else if rd_roots d \<noteq> [] \<and> \<not> (mode = PM_BorrowMut \<or> mode = PM_Out)
     then Some ''mutable-retention roots require a mutable destination''
     else if rd_may_mutate d \<and> mode \<noteq> PM_BorrowMut
     then Some ''mutable-retention mutation flag requires borrow mut''
     else None)"

definition validate_mutable_retention ::
    "mutable_retention \<Rightarrow> param_mode list \<Rightarrow> bool \<Rightarrow> string option" where
  "validate_mutable_retention summary modes generic = (case summary of
     None \<Rightarrow> None
   | Some destinations \<Rightarrow>
       if length destinations \<noteq> length modes
       then Some ''mutable-retention destination arity mismatch''
       else case first_fault (destination_fault (length modes)) (zip destinations modes) of
         Some e \<Rightarrow> Some e
       | None \<Rightarrow>
           if generic then Some ''generic templates cannot carry mutable-retention summaries''
           else None)"

definition read_retention_root :: "retention_root rd" where
  "read_retention_root = bindR r_u8 (\<lambda>tag.
     if tag = 0 then bindR r_u32 (\<lambda>i. retR (RR_Contained i))
     else if tag = 1 then bindR r_u32 (\<lambda>i. retR (RR_Storage i))
     else failR (DE_BadTag ''mutable-retention root'' tag))"

definition read_retention_destination :: "retention_destination rd" where
  "read_retention_destination =
     bindR r_bool (\<lambda>may_mutate.
     bindR (r_seq read_retention_root) (\<lambda>roots.
     retR \<lparr>rd_may_mutate = may_mutate, rd_roots = roots\<rparr>))"

definition read_retention_destinations :: "mutable_retention rd" where
  "read_retention_destinations = bindR r_u8 (\<lambda>tag.
     if tag = 0 then retR None
     else if tag = 1 then bindR (r_seq read_retention_destination) (\<lambda>ds. retR (Some ds))
     else failR (DE_BadTag ''mutable-retention option'' tag))"

definition read_mutable_retention :: "iparam list \<Rightarrow> bool \<Rightarrow> mutable_retention rd" where
  "read_mutable_retention params generic =
     bindR read_retention_destinations (\<lambda>summary.
     checkR (invalid_summary (validate_mutable_retention summary (map ip_mode params) generic))
     (retR summary))"

lemma write_retention_root_simps [simp]:
  "write_retention_root (RR_Contained i) = writes [w_u8 0, w_u32 i]"
  "write_retention_root (RR_Storage i) = writes [w_u8 1, w_u32 i]"
  by (simp_all add: write_retention_root_def)

lemma read_retention_root_iff:
  "read_retention_root r = Inr (x, q) \<longleftrightarrow> emits r (write_retention_root x) q"
  by (cases x) (auto simp: read_retention_root_def codec_law)

interpretation retention_root: codec write_retention_root read_retention_root "\<lambda>_. True"
  by unfold_locales (simp add: read_retention_root_iff)

declare retention_root.get_seq_iff [codec_law]

lemma read_retention_destination_iff:
  "read_retention_destination r = Inr (x, q) \<longleftrightarrow> emits r (write_retention_destination x) q"
  by (cases x) (auto simp: read_retention_destination_def write_retention_destination_def codec_law)

interpretation destination: codec write_retention_destination read_retention_destination "\<lambda>_. True"
  by unfold_locales (simp add: read_retention_destination_iff)

declare destination.get_seq_iff [codec_law]

lemma read_retention_destinations_iff [codec_law]:
  "read_retention_destinations r = Inr (x, q) \<longleftrightarrow> emits r (write_mutable_retention x) q"
  by (cases x) (auto simp: read_retention_destinations_def write_mutable_retention_def codec_law)

interpretation retention: codec write_mutable_retention "read_mutable_retention params generic"
    "\<lambda>s. validate_mutable_retention s (map ip_mode params) generic = None" for params generic
  by unfold_locales (auto simp: read_mutable_retention_def codec_law)

subsection \<open>Mutable view effects\<close>

definition view_flags :: "bool \<Rightarrow> bool \<Rightarrow> bool \<Rightarrow> bool \<Rightarrow> u8" where
  "view_flags a b c d =
     of_bool a OR push_bit 1 (of_bool b) OR push_bit 2 (of_bool c) OR push_bit 3 (of_bool d)"

definition write_view_effect :: "view_effect option \<Rightarrow> u8 list option" where
  "write_view_effect effect = (case effect of
     None \<Rightarrow> w_u8 0
   | Some e \<Rightarrow> writes [w_u8 1,
       w_u8 (view_flags (ve_may_write_original e) (ve_must_write_original_element e)
         (ve_may_rebind e) (ve_must_rebind e)),
       w_seq write_retention_root (ve_write_roots e),
       w_seq write_retention_root (ve_rebind_roots e)])"

definition write_mutable_view_effect :: "mutable_view_effect \<Rightarrow> u8 list option" where
  "write_mutable_view_effect summary = (case summary of
     None \<Rightarrow> w_u8 0
   | Some effects \<Rightarrow> writes [w_u8 1, w_seq write_view_effect effects])"

text \<open>One turn of \<open>read_roots\<close>' loop: the next root, after the roots already read.\<close>

definition read_view_root :: "nat \<Rightarrow> retention_root list \<Rightarrow> retention_root rd" where
  "read_view_root parameter_count roots = bindR r_u8 (\<lambda>tag.
     if tag = 0 \<or> tag = 1 then
       bindR r_u32 (\<lambda>ordinal.
         if unat ordinal \<ge> parameter_count
         then failR (DE_InvalidSummary ''mutable-view-effect roots'')
         else let root = (if tag = 0 then RR_Contained ordinal else RR_Storage ordinal) in
           if roots \<noteq> [] \<and> last roots \<ge> root
           then failR (DE_InvalidSummary ''mutable-view-effect roots'')
           else retR root)
     else failR (DE_BadTag ''mutable-view-effect root'' tag))"

primrec read_view_roots_loop :: "nat \<Rightarrow> nat \<Rightarrow> retention_root list \<Rightarrow> retention_root list rd" where
  "read_view_roots_loop 0 parameter_count roots = retR roots"
| "read_view_roots_loop (Suc k) parameter_count roots =
     bindR (read_view_root parameter_count roots) (\<lambda>root.
     read_view_roots_loop k parameter_count (roots @ [root]))"

text \<open>Twice the number of parameters does not reach \<open>usize::MAX\<close>, where \<open>saturating_mul\<close> would stop.\<close>

definition read_view_roots :: "nat \<Rightarrow> retention_root list rd" where
  "read_view_roots parameter_count = bindR r_u32 (\<lambda>count.
     if unat count > parameter_count * 2
     then failR (DE_InvalidSummary ''mutable-view-effect count'')
     else read_view_roots_loop (unat count) parameter_count [])"

definition read_view_effect :: "nat \<Rightarrow> view_effect option rd" where
  "read_view_effect parameter_count = bindR r_u8 (\<lambda>tag.
     if tag = 0 then retR None
     else if tag = 1 then
       bindR r_u8 (\<lambda>flags.
         if flags AND 0xf0 \<noteq> 0 \<or> (flags AND 0x02 \<noteq> 0 \<and> flags AND 0x01 = 0)
           \<or> (flags AND 0x08 \<noteq> 0 \<and> flags AND 0x04 = 0)
         then failR (DE_InvalidSummary ''mutable-view-effect flags'')
         else
           bindR (read_view_roots parameter_count) (\<lambda>write_roots.
           bindR (read_view_roots parameter_count) (\<lambda>rebind_roots.
             if flags AND 0x04 = 0 \<and> rebind_roots \<noteq> []
             then failR (DE_InvalidSummary ''mutable-view-effect roots'')
             else retR (Some \<lparr>ve_may_write_original = (flags AND 0x01 \<noteq> 0),
               ve_must_write_original_element = (flags AND 0x02 \<noteq> 0),
               ve_may_rebind = (flags AND 0x04 \<noteq> 0),
               ve_must_rebind = (flags AND 0x08 \<noteq> 0),
               ve_write_roots = write_roots, ve_rebind_roots = rebind_roots\<rparr>))))
     else failR (DE_BadTag ''mutable-view-effect option'' tag))"

definition read_mutable_view_effect :: "nat \<Rightarrow> bool \<Rightarrow> mutable_view_effect rd" where
  "read_mutable_view_effect parameter_count generic = bindR r_u8 (\<lambda>tag.
     if tag = 0 then retR None
     else if tag = 1 then
       bindR r_u32 (\<lambda>count.
         if generic \<or> unat count \<noteq> parameter_count
         then failR (DE_InvalidSummary ''mutable-view-effect count'')
         else bindR (r_times (unat count) (read_view_effect parameter_count)) (\<lambda>effects.
           retR (Some effects)))
     else failR (DE_BadTag ''mutable-view-effect option'' tag))"

text \<open>The shared validator.\<close>

definition view_fault :: "nat \<Rightarrow> view_effect option \<times> bool \<Rightarrow> string option" where
  "view_fault parameter_count = (\<lambda>(effect, is_eligible).
     if (effect \<noteq> None) \<noteq> is_eligible then Some ''mutable-view-effect eligibility''
     else case effect of
       None \<Rightarrow> None
     | Some e \<Rightarrow>
         if (ve_must_write_original_element e \<and> \<not> ve_may_write_original e)
           \<or> (ve_must_rebind e \<and> \<not> ve_may_rebind e)
         then Some ''mutable-view-effect flags''
         else if (\<not> ve_may_rebind e \<and> ve_rebind_roots e \<noteq> [])
           \<or> unordered (ve_write_roots e) \<or> unordered (ve_rebind_roots e)
           \<or> list_ex (\<lambda>root. unat (root_index root) \<ge> parameter_count) (ve_write_roots e @ ve_rebind_roots e)
         then Some ''mutable-view-effect roots''
         else None)"

definition validate_mutable_view_effect ::
    "mutable_view_effect \<Rightarrow> bool list \<Rightarrow> bool \<Rightarrow> string option" where
  "validate_mutable_view_effect summary eligible generic = (case summary of
     None \<Rightarrow> None
   | Some effects \<Rightarrow>
       if generic \<or> length effects \<noteq> length eligible then Some ''mutable-view-effect count''
       else first_fault (view_fault (length eligible)) (zip effects eligible))"

subsection \<open>The view-effect reader and the shared validator\<close>

lemma bit_view_flags:
  "bit (view_flags a b c d) n \<longleftrightarrow> n = 0 \<and> a \<or> n = 1 \<and> b \<or> n = 2 \<and> c \<or> n = 3 \<and> d"
  by (auto simp: view_flags_def bit_simps)

lemma flag_tests:
  "(f :: u8) AND 0x01 = 0 \<longleftrightarrow> \<not> bit f 0" "f AND 0x02 = 0 \<longleftrightarrow> \<not> bit f 1"
  "f AND 0x04 = 0 \<longleftrightarrow> \<not> bit f 2" "f AND 0x08 = 0 \<longleftrightarrow> \<not> bit f 3"
  using and_exp_eq_0_iff_not_bit [of f 0] and_exp_eq_0_iff_not_bit [of f 1]
    and_exp_eq_0_iff_not_bit [of f 2] and_exp_eq_0_iff_not_bit [of f 3] by simp_all

lemma all_from_four: "(\<forall>n. P n) \<longleftrightarrow> (\<forall>n \<ge> (4::nat). P n) \<and> P 0 \<and> P 1 \<and> P 2 \<and> P 3"
proof -
  have "n = 0 \<or> n = 1 \<or> n = 2 \<or> n = 3 \<or> 4 \<le> n" for n :: nat by arith
  then show ?thesis by metis
qed

lemma high_nibble_test: "(f :: u8) AND 0xf0 = 0 \<longleftrightarrow> (\<forall>n \<ge> 4. \<not> bit f n)"
proof -
  have "f AND 0xf0 = f AND push_bit 4 (mask 4)" by (simp add: mask_eq_exp_minus_1)
  moreover have "bit (f AND push_bit 4 (mask 4)) n \<longleftrightarrow> 4 \<le> n \<and> bit f n" for n
    using bit_imp_le_length [of f n] by (auto simp: bit_simps)
  moreover have "w = 0 \<longleftrightarrow> (\<forall>n. \<not> bit w n)" for w :: u8
    by (auto intro: bit_eqI)
  ultimately show ?thesis by simp
qed

lemma view_flags_iff:
  "f = view_flags a b c d \<longleftrightarrow> f AND 0xf0 = 0 \<and>
     (f AND 0x01 \<noteq> 0) = a \<and> (f AND 0x02 \<noteq> 0) = b \<and> (f AND 0x04 \<noteq> 0) = c \<and> (f AND 0x08 \<noteq> 0) = d"
proof -
  have "f = view_flags a b c d \<longleftrightarrow> (\<forall>n. bit f n \<longleftrightarrow> bit (view_flags a b c d) n)"
    by (auto intro: bit_eqI)
  also have "\<dots> \<longleftrightarrow> (\<forall>n \<ge> 4. \<not> bit f n) \<and> bit f 0 = a \<and> bit f 1 = b \<and> bit f 2 = c \<and> bit f 3 = d"
    by (subst all_from_four) (simp add: bit_view_flags)
  finally show ?thesis unfolding high_nibble_test by (simp add: flag_tests)
qed


definition view_roots_ok :: "nat \<Rightarrow> retention_root list \<Rightarrow> bool" where
  "view_roots_ok n xs \<longleftrightarrow> sorted_wrt (<) xs \<and> list_all (\<lambda>x. unat (root_index x) < n) xs"

lemma read_view_root_iff:
  "read_view_root n roots r = Inr (x, q) \<longleftrightarrow>
     unat (root_index x) < n \<and> (roots = [] \<or> last roots < x) \<and> emits r (write_retention_root x) q"
  by (cases x) (auto simp: read_view_root_def Let_def codec_law not_le not_less)

lemma sorted_snoc_iff:
  "sorted_wrt (<) xs \<Longrightarrow> sorted_wrt (<) (xs @ [x :: 'a::linorder]) \<longleftrightarrow> xs = [] \<or> last xs < x"
  by (induction xs rule: rev_induct) (auto simp: sorted_wrt_append intro: less_trans)

lemma read_view_roots_loop_iff:
  "reader_ok r \<Longrightarrow> view_roots_ok n roots \<Longrightarrow>
   read_view_roots_loop k n roots r = Inr (ys, q) \<longleftrightarrow>
     (\<exists>xs. ys = roots @ xs \<and> length xs = k \<and> view_roots_ok n ys \<and>
       emits r (writes (map write_retention_root xs)) q)"
proof (induction k arbitrary: r roots)
  case 0
  then show ?case by (auto simp: retR_iff emits_writes_Nil)
next
  case (Suc k)
  have step: "unat (root_index x) < n \<and> (roots = [] \<or> last roots < x) \<longleftrightarrow> view_roots_ok n (roots @ [x])" for x
    using Suc.prems(2) sorted_snoc_iff [of roots x] by (auto simp: view_roots_ok_def)
  have "read_view_roots_loop (Suc k) n roots r = Inr (ys, q) \<longleftrightarrow>
      (\<exists>x s. view_roots_ok n (roots @ [x]) \<and> emits r (write_retention_root x) s \<and>
        read_view_roots_loop k n (roots @ [x]) s = Inr (ys, q))"
    by (auto simp: bindR_iff read_view_root_iff step [symmetric])
  also have "\<dots> \<longleftrightarrow> (\<exists>x s xs. view_roots_ok n (roots @ [x]) \<and> emits r (write_retention_root x) s \<and>
        ys = roots @ x # xs \<and> length xs = k \<and> view_roots_ok n ys \<and>
        emits s (writes (map write_retention_root xs)) q)"
    using Suc.IH [OF emits_ok] by (auto 0 4)
  also have "\<dots> \<longleftrightarrow> (\<exists>x xs. ys = roots @ x # xs \<and> length xs = k \<and> view_roots_ok n ys \<and>
        emits r (writes (map write_retention_root (x # xs))) q)"
  proof -
    have "view_roots_ok n (roots @ [x])" if "view_roots_ok n (roots @ x # xs)" for x xs
      using that by (auto simp: view_roots_ok_def sorted_wrt_append)
    then show ?thesis unfolding list.map emits_writes_Cons by blast
  qed
  finally show ?case by (auto simp: length_Suc_conv)
qed

text \<open>The bound on the number of roots refuses nothing that is in order.\<close>

lemma view_roots_bound:
  assumes "view_roots_ok n xs"
  shows "length xs \<le> n * 2"
proof -
  let ?I = "(of_nat :: nat \<Rightarrow> u32) ` {..< n}"
  have "x \<in> RR_Contained ` ?I \<union> RR_Storage ` ?I" if "unat (root_index x) < n" for x
    using that by (cases x) (auto simp: image_iff Bex_def intro!: exI [of _ "unat (root_index x)"])
  then have "set xs \<subseteq> RR_Contained ` ?I \<union> RR_Storage ` ?I"
    using assms unfolding view_roots_ok_def list_all_iff by blast
  then have "card (set xs) \<le> card (RR_Contained ` ?I \<union> RR_Storage ` ?I)"
    by (intro card_mono) auto
  also have "\<dots> \<le> card (RR_Contained ` ?I) + card (RR_Storage ` ?I)"
    by (rule card_Un_le)
  also have "\<dots> \<le> n + n"
    by (intro add_mono order_trans [OF card_image_le] order_trans [OF card_image_le [of "{..< n}"]]) auto
  finally have "card (set xs) \<le> n * 2" by simp
  moreover have "distinct xs"
    using assms by (auto simp: view_roots_ok_def strict_sorted_iff)
  ultimately show ?thesis by (simp add: distinct_card)
qed

lemma read_view_roots_iff:
  "read_view_roots n r = Inr (xs, q) \<longleftrightarrow> view_roots_ok n xs \<and> emits r (w_seq write_retention_root xs) q"
proof -
  have nil: "view_roots_ok n []" by (simp add: view_roots_ok_def)
  have "read_view_roots n r = Inr (xs, q) \<longleftrightarrow>
      (\<exists>k s. emits r (w_u32 k) s \<and> unat k \<le> n * 2 \<and> read_view_roots_loop (unat k) n [] s = Inr (xs, q))"
    by (auto simp: read_view_roots_def codec_law not_less)
  also have "\<dots> \<longleftrightarrow> (\<exists>k s. emits r (w_u32 k) s \<and> unat k \<le> n * 2 \<and> length xs = unat k \<and>
      view_roots_ok n xs \<and> emits s (writes (map write_retention_root xs)) q)"
    by (intro ex_cong1 conj_cong refl) (simp_all add: read_view_roots_loop_iff [OF emits_ok nil])
  also have "\<dots> \<longleftrightarrow> view_roots_ok n xs \<and> emits r (w_seq write_retention_root xs) q"
    unfolding w_seq_def emits_len using view_roots_bound [of n xs] by metis
  finally show ?thesis .
qed

interpretation view_roots: codec "w_seq write_retention_root" "read_view_roots n" "view_roots_ok n" for n
  by unfold_locales (rule read_view_roots_iff)

declare view_roots.get_iff [codec_law]

text \<open>One effect, as the shared validator sees it.\<close>

definition view_ok :: "nat \<Rightarrow> view_effect option \<Rightarrow> bool" where
  "view_ok n e \<longleftrightarrow> view_fault n (e, e \<noteq> None) = None"

lemma list_ex_out_of_range: "list_ex (\<lambda>x. n \<le> f x) xs \<longleftrightarrow> \<not> list_all (\<lambda>x. f x < (n :: nat)) xs"
  by (induction xs) auto

lemma view_ok_iff:
  "view_ok n None \<longleftrightarrow> True"
  "view_ok n (Some e) \<longleftrightarrow>
     (ve_must_write_original_element e \<longrightarrow> ve_may_write_original e) \<and>
     (ve_must_rebind e \<longrightarrow> ve_may_rebind e) \<and> (ve_rebind_roots e = [] \<or> ve_may_rebind e) \<and>
     view_roots_ok n (ve_write_roots e) \<and> view_roots_ok n (ve_rebind_roots e)"
  by (auto simp: view_ok_def view_fault_def view_roots_ok_def unordered_iff list_ex_out_of_range)

lemma read_view_effect_iff:
  "read_view_effect n r = Inr (x, q) \<longleftrightarrow> view_ok n x \<and> emits r (write_view_effect x) q"
proof (cases x)
  case None
  then show ?thesis by (auto simp: read_view_effect_def write_view_effect_def codec_law view_ok_iff)
next
  case (Some e)
  obtain a b c d ws rs where e: "e = \<lparr>ve_may_write_original = a, ve_must_write_original_element = b,
      ve_may_rebind = c, ve_must_rebind = d, ve_write_roots = ws, ve_rebind_roots = rs\<rparr>"
    by (cases e)
  have "read_view_effect n r = Inr (x, q) \<longleftrightarrow> (\<exists>f s1 s2 s3. f = view_flags a b c d \<and>
      (b \<longrightarrow> a) \<and> (d \<longrightarrow> c) \<and> (rs = [] \<or> c) \<and> view_roots_ok n ws \<and> view_roots_ok n rs \<and>
      emits r (w_u8 1) s1 \<and> emits s1 (w_u8 f) s2 \<and>
      emits s2 (w_seq write_retention_root ws) s3 \<and> emits s3 (w_seq write_retention_root rs) q)"
    unfolding view_flags_iff
    by (simp add: read_view_effect_def codec_law Some e prenex del: ex_simps) blast
  then show ?thesis
    by (auto simp: Some e write_view_effect_def codec_law view_ok_iff)
qed

interpretation view: codec write_view_effect "read_view_effect n" "view_ok n" for n
  by unfold_locales (rule read_view_effect_iff)

text \<open>The summary of a signature with \<open>n\<close> parameters passes the shared validator, with the
  parameters that carry an effect as the eligible ones.\<close>

definition views_ok :: "nat \<Rightarrow> bool \<Rightarrow> mutable_view_effect \<Rightarrow> bool" where
  "views_ok n generic s \<longleftrightarrow> (case s of
     None \<Rightarrow> True
   | Some es \<Rightarrow> length es = n \<and>
       validate_mutable_view_effect (Some es) (map (\<lambda>e. e \<noteq> None) es) generic = None)"

lemma first_fault_None: "first_fault f xs = None \<longleftrightarrow> list_all (\<lambda>x. f x = None) xs"
  by (induction xs) (auto split: option.splits)

lemma validate_views_iff:
  "validate_mutable_view_effect (Some es) (map (\<lambda>e. e \<noteq> None) es) generic = None \<longleftrightarrow>
     \<not> generic \<and> list_all (view_ok (length es)) es"
  by (simp add: validate_mutable_view_effect_def first_fault_None view_ok_def [abs_def]
    zip_map2 zip_same_conv_map list.pred_map o_def)

lemma read_mutable_view_effect_iff:
  "read_mutable_view_effect n generic r = Inr (x, q) \<longleftrightarrow>
     views_ok n generic x \<and> emits r (write_mutable_view_effect x) q"
proof (cases x)
  case None
  then show ?thesis
    by (auto simp: read_mutable_view_effect_def write_mutable_view_effect_def views_ok_def codec_law)
next
  case (Some es)
  have "read_mutable_view_effect n generic r = Inr (x, q) \<longleftrightarrow> \<not> generic \<and>
      (\<exists>s k t. emits r (w_u8 1) s \<and> emits s (w_u32 k) t \<and> unat k = n \<and>
        r_times n (read_view_effect n) t = Inr (es, q))"
    by (auto simp: read_mutable_view_effect_def codec_law Some)
  also have "\<dots> \<longleftrightarrow> \<not> generic \<and>
      (\<exists>s k t. emits r (w_u8 1) s \<and> emits s (w_u32 k) t \<and> unat k = n \<and>
        length es = n \<and> list_all (view_ok n) es \<and> emits t (writes (map write_view_effect es)) q)"
    using view.get_times_iff [OF emits_ok] by blast
  finally show ?thesis
    unfolding Some views_ok_def option.case validate_views_iff write_mutable_view_effect_def
      emits_writes2 emits_writes1 w_seq_def emits_len by metis
qed

interpretation views: codec write_mutable_view_effect "read_mutable_view_effect n generic"
    "views_ok n generic" for n generic
  by unfold_locales (rule read_mutable_view_effect_iff)

declare access.get_iff [codec_law] retention.get_iff [codec_law] views.get_iff [codec_law]

end
