(* ===== verification/Codec_Items.thy ===== *)
theory Codec_Items
  imports Codec_Views
begin

section \<open>align\_interface: encoding the exported items\<close>

text \<open>
  Function signatures with their bodies, structs, enums, resources, constants and owned-JSON
  entries: the writers and readers of \<open>codec.rs\<close>, and for each the well-formedness its reader
  enforces. Each pair is an instance of the \<open>codec\<close> contract.
\<close>

subsection \<open>Function bodies\<close>

definition write_inline_extern :: "inline_extern \<Rightarrow> u8 list option" where
  "write_inline_extern e = writes [w_opt_str (ie_link e), w_str (ie_name e),
     w_seq write_type (ie_params e), write_type (ie_ret e)]"

definition write_fn_body :: "ifn_body \<Rightarrow> u8 list option" where
  "write_fn_body body = (case body of
     FB_Absent \<Rightarrow> w_u8 0
   | FB_GenericTemplate source \<Rightarrow> writes [w_u8 1, w_str source]
   | FB_ConcreteInline policy_version source externs \<Rightarrow>
       writes [w_u8 2, w_u32 policy_version, w_str source, w_seq write_inline_extern externs])"

definition read_inline_extern :: "inline_extern rd" where
  "read_inline_extern =
     bindR r_opt_str (\<lambda>link.
     bindR r_str (\<lambda>name.
     bindR (r_seq read_type) (\<lambda>params.
     bindR read_type (\<lambda>ret.
     retR \<lparr>ie_link = link, ie_name = name, ie_params = params, ie_ret = ret\<rparr>))))"

definition externs_canonical :: "inline_extern list \<Rightarrow> bool" where
  "externs_canonical externs \<longleftrightarrow>
     \<not> (any_window (\<lambda>a b. (ie_link a, ie_name a) \<ge> (ie_link b, ie_name b)) externs
       \<or> \<not> distinct (map ie_name externs))"

definition read_fn_body :: "ifn_body rd" where
  "read_fn_body = bindR r_u8 (\<lambda>tag.
     if tag = 0 then retR FB_Absent
     else if tag = 1 then bindR r_str (\<lambda>source. retR (FB_GenericTemplate source))
     else if tag = 2 then
       bindR r_u32 (\<lambda>policy_version.
         if policy_version \<noteq> INLINE_BODY_POLICY_VERSION
         then failR (DE_InvalidSummary ''unsupported concrete-inline policy version'')
         else
           bindR r_str (\<lambda>source.
           bindR (r_seq read_inline_extern) (\<lambda>externs.
             if \<not> externs_canonical externs
             then failR (DE_InvalidSummary ''concrete-inline externs are not canonical'')
             else retR (FB_ConcreteInline policy_version source externs))))
     else failR (DE_BadTag ''function body'' tag))"

definition extern_ok :: "inline_extern \<Rightarrow> bool" where
  "extern_ok e \<longleftrightarrow> opt_all valid_utf8 (ie_link e) \<and> valid_utf8 (ie_name e) \<and>
     list_all (type_ok MAX_TYPE_DEPTH) (ie_params e) \<and> type_ok MAX_TYPE_DEPTH (ie_ret e)"

primrec ibody_ok :: "ifn_body \<Rightarrow> bool" where
  "ibody_ok FB_Absent \<longleftrightarrow> True"
| "ibody_ok (FB_GenericTemplate source) \<longleftrightarrow> valid_utf8 source"
| "ibody_ok (FB_ConcreteInline policy_version source externs) \<longleftrightarrow>
     policy_version = INLINE_BODY_POLICY_VERSION \<and> valid_utf8 source \<and>
     list_all extern_ok externs \<and> externs_canonical externs"

lemma read_inline_extern_iff:
  "read_inline_extern r = Inr (x, q) \<longleftrightarrow> extern_ok x \<and> emits r (write_inline_extern x) q"
  by (cases x) (simp add: read_inline_extern_def write_inline_extern_def extern_ok_def codec_law prenex
    del: ex_simps, blast)

interpretation extern: codec write_inline_extern read_inline_extern extern_ok
  by unfold_locales (rule read_inline_extern_iff)

declare extern.get_seq_iff [codec_law]

lemma read_fn_body_iff:
  "read_fn_body r = Inr (x, q) \<longleftrightarrow> ibody_ok x \<and> emits r (write_fn_body x) q"
  by (cases x) (simp add: read_fn_body_def write_fn_body_def codec_law prenex del: ex_simps, blast?)+

interpretation body: codec write_fn_body read_fn_body ibody_ok
  by unfold_locales (rule read_fn_body_iff)

declare body.get_iff [codec_law]

subsection \<open>Function signatures\<close>

definition write_fn :: "ifn_sig \<Rightarrow> u8 list option" where
  "write_fn f = writes [
     w_str (if_name f),
     write_type_params (if_type_params f),
     w_seq write_param (if_params f),
     write_type (if_ret f),
     write_return_borrow (if_return_borrow f),
     write_return_region (if_return_region f),
     write_return_cleanup (if_return_cleanup f),
     write_drop_state_effects (if_drop_state_effects f),
     write_producer_certification (if_producer_certification f),
     write_effect (if_effect f),
     w_seq w_u32 (if_parallel_transfer_params f),
     write_mutable_access (if_mutable_access f),
     write_callback_contract (if_callback_contract f),
     write_mutable_retention (if_mutable_retention f),
     write_mutable_view_effect (if_mutable_view_effect f),
     w_bool (if_resource_hook_body f),
     write_fn_body (if_body f)]"

text \<open>The drop-state effect of one parameter.\<close>

definition drop_state_valid :: "bool \<Rightarrow> iparam \<Rightarrow> drop_state_effect \<Rightarrow> bool" where
  "drop_state_valid generic p d \<longleftrightarrow>
     (if generic then (d = DS_Deferred) = (ip_mode p = PM_BorrowMut)
      else if ip_mode p = PM_BorrowMut then d \<noteq> DS_Deferred
      else d = DS_NotApplicable)"

definition validate_drop_states ::
    "bool \<Rightarrow> iparam list \<Rightarrow> drop_state_effect list \<Rightarrow> decode_error + unit" where
  "validate_drop_states generic params ds =
     (if length ds \<noteq> length params
      then Inl (DE_InvalidSummary ''drop-state effect arity disagrees with parameters'')
      else if list_ex (\<lambda>(p, d). \<not> drop_state_valid generic p d) (zip params ds)
      then Inl (DE_InvalidSummary ''drop-state effect disagrees with parameter mode or template state'')
      else Inr ())"

definition is_template :: "ifn_body \<Rightarrow> bool" where
  "is_template b \<longleftrightarrow> (case b of FB_GenericTemplate _ \<Rightarrow> True | _ \<Rightarrow> False)"

definition certification_matches :: "producer_certification \<Rightarrow> itype_param list \<Rightarrow> ifn_body \<Rightarrow> bool" where
  "certification_matches c tps body \<longleftrightarrow> (case c of
     PC_RevalidateGenericBody \<Rightarrow> tps \<noteq> [] \<and> is_template body
   | PC_ValidatedBody \<Rightarrow> tps = [] \<and> \<not> is_template body)"

definition read_fn :: "ifn_sig rd" where
  "read_fn =
     bindR r_str (\<lambda>name.
     bindR read_type_params (\<lambda>type_params.
     bindR (r_seq read_param) (\<lambda>params.
     bindR read_type (\<lambda>ret.
     bindR (read_return_borrow (length params)) (\<lambda>borrow.
     bindR (read_return_region (length params)) (\<lambda>region.
     bindR read_return_cleanup (\<lambda>cleanup.
     bindR read_drop_state_effects (\<lambda>drop_states.
     checkR (validate_drop_states (type_params \<noteq> []) params drop_states) (
     bindR read_producer_certification (\<lambda>certification.
     bindR read_effect (\<lambda>effect.
     bindR (r_seq r_u32) (\<lambda>transfer.
     checkR (validate_transfer_roots transfer (length params)) (
     bindR (read_mutable_access (length params) (type_params \<noteq> [])) (\<lambda>access.
     bindR read_callback_contract (\<lambda>contract.
     checkR (invalid_summary (validate_callback_record_order contract (length params) (type_params \<noteq> []))) (
     bindR (read_mutable_retention params (type_params \<noteq> [])) (\<lambda>retention.
     bindR (read_mutable_view_effect (length params) (type_params \<noteq> [])) (\<lambda>views.
     bindR r_bool (\<lambda>hook.
     bindR read_fn_body (\<lambda>body.
     if \<not> certification_matches certification type_params body
     then failR (DE_InvalidSummary ''producer certification disagrees with function body presence'')
     else retR \<lparr>if_name = name, if_type_params = type_params, if_params = params, if_ret = ret,
       if_return_borrow = borrow, if_return_region = region, if_return_cleanup = cleanup,
       if_drop_state_effects = drop_states, if_producer_certification = certification,
       if_effect = effect, if_parallel_transfer_params = transfer, if_mutable_access = access,
       if_callback_contract = contract, if_mutable_retention = retention,
       if_mutable_view_effect = views, if_resource_hook_body = hook, if_body = body\<rparr>))))))))))))))))))))"

definition drop_states_ok :: "bool \<Rightarrow> iparam list \<Rightarrow> drop_state_effect list \<Rightarrow> bool" where
  "drop_states_ok generic params ds \<longleftrightarrow> list_all2 (drop_state_valid generic) params ds"

text \<open>The rules a decoded signature obeys, its summaries relative to its own parameters.\<close>

definition ifn_ok :: "ifn_sig \<Rightarrow> bool" where
  "ifn_ok f \<longleftrightarrow> (let n = length (if_params f); generic = (if_type_params f \<noteq> []) in
     valid_utf8 (if_name f) \<and>
     list_all type_param_ok (if_type_params f) \<and>
     list_all (iparam_ok MAX_TYPE_DEPTH) (if_params f) \<and>
     type_ok MAX_TYPE_DEPTH (if_ret f) \<and>
     borrow_ok n (if_return_borrow f) \<and>
     region_ok n (if_return_region f) \<and>
     drop_states_ok generic (if_params f) (if_drop_state_effects f) \<and>
     transfer_ok n (if_parallel_transfer_params f) \<and>
     validate_mutable_access (if_mutable_access f) n generic = None \<and>
     validate_callback_record_order (if_callback_contract f) n generic = None \<and>
     validate_mutable_retention (if_mutable_retention f) (map ip_mode (if_params f)) generic = None \<and>
     views_ok n generic (if_mutable_view_effect f) \<and>
     ibody_ok (if_body f) \<and>
     certification_matches (if_producer_certification f) (if_type_params f) (if_body f))"

lemma validate_drop_states_iff [codec_law]:
  "validate_drop_states generic params ds = Inr () \<longleftrightarrow> drop_states_ok generic params ds"
  by (auto simp: validate_drop_states_def drop_states_ok_def list_all2_iff list_ex_iff)

lemma read_fn_iff: "read_fn r = Inr (x, q) \<longleftrightarrow> ifn_ok x \<and> emits r (write_fn x) q"
  by (cases x) (simp add: read_fn_def write_fn_def ifn_ok_def Let_def codec_law prenex del: ex_simps, blast)

interpretation fn: codec write_fn read_fn ifn_ok
  by unfold_locales (rule read_fn_iff)

subsection \<open>Type definitions, constants and owned-JSON entries\<close>

definition write_field :: "bytes \<times> itype \<Rightarrow> u8 list option" where
  "write_field = (\<lambda>(name, t). writes [w_str name, write_type t])"

definition write_struct :: "istruct_def \<Rightarrow> u8 list option" where
  "write_struct s = writes [w_str (is_name s), write_type_params (is_type_params s),
     w_seq write_field (is_fields s), w_opt_u32 (is_align s), w_bool (is_c_repr s),
     w_opt_str (is_generic_body s)]"

definition write_owned_json_entry :: "owned_json_entry \<Rightarrow> u8 list option" where
  "write_owned_json_entry e = writes [w_str (oj_type_name e), w_blob (oj_envelope e)]"

definition write_variant :: "bytes \<times> itype list \<Rightarrow> u8 list option" where
  "write_variant = (\<lambda>(name, payload). writes [w_str name, w_seq write_type payload])"

definition write_enum :: "ienum_def \<Rightarrow> u8 list option" where
  "write_enum e = writes [w_str (en_name e), write_type_params (en_type_params e),
     w_seq write_variant (en_variants e), w_opt_str (en_generic_body e)]"

definition write_resource :: "iresource_def \<Rightarrow> u8 list option" where
  "write_resource x = writes [w_str (re_name x), write_type_params (re_type_params x),
     w_u32 (re_generic_arity x), w_u32 (re_representation_version x), w_str (re_drop_thunk x),
     Some (re_drop_abi_fingerprint x)]"

definition write_opt_type :: "itype option \<Rightarrow> u8 list option" where
  "write_opt_type t = (case t of Some t \<Rightarrow> writes [w_u8 1, write_type t] | None \<Rightarrow> w_u8 0)"

definition write_const :: "iconst \<Rightarrow> u8 list option" where
  "write_const c = writes [w_str (ic_name c), write_opt_type (ic_ty c), w_str (ic_value_src c)]"

definition read_field :: "(bytes \<times> itype) rd" where
  "read_field = bindR r_str (\<lambda>name. bindR read_type (\<lambda>t. retR (name, t)))"

definition read_struct :: "istruct_def rd" where
  "read_struct =
     bindR r_str (\<lambda>name.
     bindR read_type_params (\<lambda>type_params.
     bindR (r_seq read_field) (\<lambda>fields.
     bindR r_opt_u32 (\<lambda>align.
     bindR r_bool (\<lambda>c_repr.
     bindR r_opt_str (\<lambda>generic_body.
     retR \<lparr>is_name = name, is_type_params = type_params, is_fields = fields, is_align = align,
       is_c_repr = c_repr, is_generic_body = generic_body\<rparr>))))))"

definition read_variant :: "(bytes \<times> itype list) rd" where
  "read_variant = bindR r_str (\<lambda>name. bindR (r_seq read_type) (\<lambda>payload. retR (name, payload)))"

definition read_enum :: "ienum_def rd" where
  "read_enum =
     bindR r_str (\<lambda>name.
     bindR read_type_params (\<lambda>type_params.
     bindR (r_seq read_variant) (\<lambda>variants.
     bindR r_opt_str (\<lambda>generic_body.
     retR \<lparr>en_name = name, en_type_params = type_params, en_variants = variants,
       en_generic_body = generic_body\<rparr>))))"

definition read_resource :: "iresource_def rd" where
  "read_resource =
     bindR r_str (\<lambda>name.
     bindR read_type_params (\<lambda>type_params.
     bindR r_u32 (\<lambda>generic_arity.
     bindR r_u32 (\<lambda>representation_version.
     bindR r_str (\<lambda>drop_thunk.
     bindR (r_take 16) (\<lambda>fingerprint.
     retR \<lparr>re_name = name, re_type_params = type_params, re_generic_arity = generic_arity,
       re_representation_version = representation_version, re_drop_thunk = drop_thunk,
       re_drop_abi_fingerprint = fingerprint\<rparr>))))))"

definition read_opt_type :: "itype option rd" where
  "read_opt_type = bindR r_u8 (\<lambda>tag.
     if tag = 0 then retR None
     else if tag = 1 then bindR read_type (\<lambda>t. retR (Some t))
     else failR (DE_BadTag ''option'' tag))"

definition read_const :: "iconst rd" where
  "read_const =
     bindR r_str (\<lambda>name.
     bindR read_opt_type (\<lambda>t.
     bindR r_str (\<lambda>value_src.
     retR \<lparr>ic_name = name, ic_ty = t, ic_value_src = value_src\<rparr>)))"

definition read_owned_json_entry :: "owned_json_entry rd" where
  "read_owned_json_entry =
     bindR r_str (\<lambda>type_name.
     bindR r_blob (\<lambda>envelope.
     retR \<lparr>oj_type_name = type_name, oj_envelope = envelope\<rparr>))"

definition field_ok :: "bytes \<times> itype \<Rightarrow> bool" where
  "field_ok = (\<lambda>(name, t). valid_utf8 name \<and> type_ok MAX_TYPE_DEPTH t)"

definition istruct_ok :: "istruct_def \<Rightarrow> bool" where
  "istruct_ok s \<longleftrightarrow> valid_utf8 (is_name s) \<and> list_all type_param_ok (is_type_params s) \<and>
     list_all field_ok (is_fields s) \<and> opt_all valid_utf8 (is_generic_body s)"

definition variant_ok :: "bytes \<times> itype list \<Rightarrow> bool" where
  "variant_ok = (\<lambda>(name, payload). valid_utf8 name \<and> list_all (type_ok MAX_TYPE_DEPTH) payload)"

definition ienum_ok :: "ienum_def \<Rightarrow> bool" where
  "ienum_ok e \<longleftrightarrow> valid_utf8 (en_name e) \<and> list_all type_param_ok (en_type_params e) \<and>
     list_all variant_ok (en_variants e) \<and> opt_all valid_utf8 (en_generic_body e)"

definition iresource_ok :: "iresource_def \<Rightarrow> bool" where
  "iresource_ok x \<longleftrightarrow> valid_utf8 (re_name x) \<and> list_all type_param_ok (re_type_params x) \<and>
     valid_utf8 (re_drop_thunk x) \<and> length (re_drop_abi_fingerprint x) = 16"

definition iconst_ok :: "iconst \<Rightarrow> bool" where
  "iconst_ok c \<longleftrightarrow> valid_utf8 (ic_name c) \<and> opt_all (type_ok MAX_TYPE_DEPTH) (ic_ty c) \<and>
     valid_utf8 (ic_value_src c)"

interpretation field: codec write_field read_field field_ok
  by unfold_locales (auto simp: write_field_def read_field_def field_ok_def codec_law split: prod.splits)

interpretation variant: codec write_variant read_variant variant_ok
  by unfold_locales (auto simp: write_variant_def read_variant_def variant_ok_def codec_law split: prod.splits)

declare field.get_seq_iff [codec_law] variant.get_seq_iff [codec_law]

lemma read_struct_iff: "read_struct r = Inr (x, q) \<longleftrightarrow> istruct_ok x \<and> emits r (write_struct x) q"
  by (cases x) (simp add: read_struct_def write_struct_def istruct_ok_def codec_law prenex del: ex_simps, blast)

lemma read_enum_iff: "read_enum r = Inr (x, q) \<longleftrightarrow> ienum_ok x \<and> emits r (write_enum x) q"
  by (cases x) (simp add: read_enum_def write_enum_def ienum_ok_def codec_law prenex del: ex_simps, blast)

lemma read_resource_iff: "read_resource r = Inr (x, q) \<longleftrightarrow> iresource_ok x \<and> emits r (write_resource x) q"
  by (cases x) (simp add: read_resource_def write_resource_def iresource_ok_def codec_law prenex
    del: ex_simps, blast)

lemma read_opt_type_iff [codec_law]:
  "read_opt_type r = Inr (x, q) \<longleftrightarrow> opt_all (type_ok MAX_TYPE_DEPTH) x \<and> emits r (write_opt_type x) q"
  by (cases x) (auto simp: read_opt_type_def write_opt_type_def codec_law)

lemma read_const_iff: "read_const r = Inr (x, q) \<longleftrightarrow> iconst_ok x \<and> emits r (write_const x) q"
  by (cases x) (simp add: read_const_def write_const_def iconst_ok_def codec_law prenex del: ex_simps, blast)

lemma read_owned_json_entry_iff:
  "read_owned_json_entry r = Inr (x, q) \<longleftrightarrow>
     valid_utf8 (oj_type_name x) \<and> emits r (write_owned_json_entry x) q"
  by (cases x) (auto simp: read_owned_json_entry_def write_owned_json_entry_def codec_law)

interpretation struct: codec write_struct read_struct istruct_ok
  by unfold_locales (rule read_struct_iff)

interpretation enum: codec write_enum read_enum ienum_ok
  by unfold_locales (rule read_enum_iff)

interpretation resource: codec write_resource read_resource iresource_ok
  by unfold_locales (rule read_resource_iff)

interpretation const: codec write_const read_const iconst_ok
  by unfold_locales (rule read_const_iff)

interpretation json: codec write_owned_json_entry read_owned_json_entry "\<lambda>e. valid_utf8 (oj_type_name e)"
  by unfold_locales (rule read_owned_json_entry_iff)

declare fn.get_seq_iff [codec_law] struct.get_seq_iff [codec_law] enum.get_seq_iff [codec_law]
  resource.get_seq_iff [codec_law] const.get_seq_iff [codec_law] json.get_seq_iff [codec_law]

end
