(* ===== verification/Interface_Codec.thy ===== *)
theory Interface_Codec
  imports Codec_Items
begin

section \<open>align\_interface: the artifact of an interface summary\<close>

text \<open>
  \<open>serialize\<close>, \<open>encode_interface_surface\<close> and \<open>deserialize_impl\<close> of
  \<open>crates/align_interface/src/codec.rs\<close>. After the bytes are read, the Rust code runs four checks
  that live outside the codec: whether the parallel-transfer roots are borrow-capable, whether the
  owned-JSON entries are the ones of the structs, whether the view effects fit the resolved types,
  and whether the drop-state effects fit the resolved ownership. They are the fields of
  \<open>summary_checks\<close>, an argument of the decoder; each may panic (\<open>None\<close>), and every theorem holds for
  all of them.

  The decoder returns \<open>None\<close> where a Rust panic would happen: in a read, in the slice that is hashed,
  in the hash, or in one of the four checks.
\<close>

definition FORMAT_VERSION :: u32 where
  "FORMAT_VERSION = 21"

definition w_hash :: "hash128 \<Rightarrow> u8 list option" where
  "w_hash h = writes [w_u64 (h_lo h), w_u64 (h_hi h)]"

definition write_surface :: "interface_summary \<Rightarrow> u8 list option" where
  "write_surface s = writes [
     w_u32 FORMAT_VERSION,
     w_str (su_unit s),
     w_seq write_fn (su_fns s),
     w_seq write_struct (su_structs s),
     w_seq write_owned_json_entry (su_owned_json_graphs s),
     w_seq write_enum (su_enums s),
     w_seq write_resource (su_resources s),
     w_seq write_const (su_consts s)]"

definition encode_interface_surface :: "interface_summary \<Rightarrow> u8 list option" where
  "encode_interface_surface s = write_surface s"

definition serialize :: "interface_summary \<Rightarrow> u8 list option" where
  "serialize s = writes [write_surface s, w_seq w_str (su_capabilities s),
     w_hash (su_interface_hash s), w_hash (su_impl_hash s)]"

record 't summary_checks =
  roots_borrow_capable :: "interface_summary \<Rightarrow> bool option"
  owned_json_fault :: "istruct_def list \<Rightarrow> owned_json_entry list \<Rightarrow> 't option \<Rightarrow> string option option"
  view_effects_fault :: "interface_summary \<Rightarrow> string option option"
  drop_state_mismatch :: "interface_summary \<Rightarrow> bool option"

definition r_hash :: "hash128 rd" where
  "r_hash = bindR r_u64 (\<lambda>lo. bindR r_u64 (\<lambda>hi. retR \<lparr>h_lo = lo, h_hi = hi\<rparr>))"

definition read_position :: "nat rd" where
  "read_position r = Inr (rd_pos r, r)"

text \<open>The surface: the fields up to the position that is hashed.\<close>

definition read_surface :: "(bytes \<times> ifn_sig list \<times> istruct_def list \<times> owned_json_entry list \<times>
    ienum_def list \<times> iresource_def list \<times> iconst list) rd" where
  "read_surface =
     bindR r_u32 (\<lambda>version.
     if version \<noteq> FORMAT_VERSION then failR (DE_UnknownVersion version)
     else
     bindR r_str (\<lambda>unit.
     bindR (r_seq read_fn) (\<lambda>fns.
     bindR (r_seq read_struct) (\<lambda>structs.
     bindR (r_seq read_owned_json_entry) (\<lambda>graphs.
     bindR (r_seq read_enum) (\<lambda>enums.
     bindR (r_seq read_resource) (\<lambda>resources.
     bindR (r_seq read_const) (\<lambda>consts.
     retR (unit, fns, structs, graphs, enums, resources, consts)))))))))"

definition read_summary :: "(interface_summary \<times> nat) rd" where
  "read_summary =
     bindR read_surface (\<lambda>(unit, fns, structs, graphs, enums, resources, consts).
     bindR read_position (\<lambda>surface_len.
     bindR (r_seq r_str) (\<lambda>capabilities.
     bindR r_hash (\<lambda>interface_hash.
     bindR r_hash (\<lambda>impl_hash.
     bindR r_finish (\<lambda>_.
     retR (\<lparr>su_unit = unit, su_fns = fns, su_structs = structs, su_owned_json_graphs = graphs,
       su_enums = enums, su_resources = resources, su_consts = consts,
       su_capabilities = capabilities, su_interface_hash = interface_hash,
       su_impl_hash = impl_hash\<rparr>, surface_len)))))))"

text \<open>The checks on the summary that was read, in the order of the code.\<close>

definition check_summary ::
    "'t summary_checks \<Rightarrow> u8 list \<Rightarrow> 't option \<Rightarrow> interface_summary \<Rightarrow> nat \<Rightarrow> (decode_error + interface_summary) option" where
  "check_summary chk bs target s surface_len =
     do {
       capable \<leftarrow> roots_borrow_capable chk s;
       if \<not> capable
       then Some (Inl (DE_InvalidSummary ''parallel-transfer root is not borrow-capable''))
       else do {
         json \<leftarrow> owned_json_fault chk (su_structs s) (su_owned_json_graphs s) target;
         case json of
           Some e \<Rightarrow> Some (Inl (DE_InvalidOwnedJson e))
         | None \<Rightarrow> do {
             surface \<leftarrow> slice_range bs 0 surface_len;
             h \<leftarrow> hash128_of surface;
             if h \<noteq> su_interface_hash s then Some (Inl DE_InterfaceHashMismatch)
             else do {
               views \<leftarrow> view_effects_fault chk s;
               case views of
                 Some e \<Rightarrow> Some (Inl (DE_InvalidSummary e))
               | None \<Rightarrow> do {
                   mismatch \<leftarrow> drop_state_mismatch chk s;
                   if mismatch
                   then Some (Inl (DE_InvalidSummary
                     ''drop-state effect disagrees with resolved parameter ownership''))
                   else Some (Inr s)
                 }
             }
           }
       }
     }"

definition deserialize_impl ::
    "'t summary_checks \<Rightarrow> u8 list \<Rightarrow> 't option \<Rightarrow> (decode_error + interface_summary) option" where
  "deserialize_impl chk bs target = (case read_summary (reader_new bs) of
     Inl Read_Panic \<Rightarrow> None
   | Inl (Failed e) \<Rightarrow> Some (Inl e)
   | Inr ((s, surface_len), _) \<Rightarrow> check_summary chk bs target s surface_len)"

definition deserialize :: "'t summary_checks \<Rightarrow> u8 list \<Rightarrow> (decode_error + interface_summary) option" where
  "deserialize chk bs = deserialize_impl chk bs None"

definition deserialize_for_target ::
    "'t summary_checks \<Rightarrow> u8 list \<Rightarrow> 't \<Rightarrow> (decode_error + interface_summary) option" where
  "deserialize_for_target chk bs target = deserialize_impl chk bs (Some target)"

subsection \<open>The summaries an artifact can hold\<close>

definition summary_ok :: "interface_summary \<Rightarrow> bool" where
  "summary_ok s \<longleftrightarrow> valid_utf8 (su_unit s) \<and> list_all ifn_ok (su_fns s) \<and>
     list_all istruct_ok (su_structs s) \<and>
     list_all (\<lambda>e. valid_utf8 (oj_type_name e)) (su_owned_json_graphs s) \<and>
     list_all ienum_ok (su_enums s) \<and> list_all iresource_ok (su_resources s) \<and>
     list_all iconst_ok (su_consts s) \<and> list_all valid_utf8 (su_capabilities s)"

text \<open>The checks outside the codec, and the stored hash.\<close>

definition summary_accepted :: "'t summary_checks \<Rightarrow> 't option \<Rightarrow> interface_summary \<Rightarrow> bool" where
  "summary_accepted chk target s \<longleftrightarrow> roots_borrow_capable chk s = Some True \<and>
     owned_json_fault chk (su_structs s) (su_owned_json_graphs s) target = Some None \<and>
     Option.bind (encode_interface_surface s) hash128_of = Some (su_interface_hash s) \<and>
     view_effects_fault chk s = Some None \<and> drop_state_mismatch chk s = Some False"

text \<open>The checks, in their order, reach one that panics.\<close>

definition check_panics :: "'t summary_checks \<Rightarrow> 't option \<Rightarrow> interface_summary \<Rightarrow> bool" where
  "check_panics chk target s \<longleftrightarrow>
     roots_borrow_capable chk s = None \<or>
     roots_borrow_capable chk s = Some True \<and>
       (let json = owned_json_fault chk (su_structs s) (su_owned_json_graphs s) target
        in json = None \<or>
           json = Some None \<and> Option.bind (encode_interface_surface s) hash128_of = Some (su_interface_hash s) \<and>
             (view_effects_fault chk s = None \<or>
              view_effects_fault chk s = Some None \<and> drop_state_mismatch chk s = None))"

lemma r_hash_iff: "r_hash r = Inr (x, q) \<longleftrightarrow> emits r (w_hash x) q"
  by (cases x) (auto simp: r_hash_def w_hash_def codec_law)

interpretation hash: codec w_hash r_hash "\<lambda>_. True"
  by unfold_locales (simp add: r_hash_iff)

declare hash.get_iff [codec_law]

lemma read_surface_iff:
  "read_surface r = Inr ((un, fns, structs, graphs, enums, resources, consts), q) \<longleftrightarrow>
     valid_utf8 un \<and> list_all ifn_ok fns \<and> list_all istruct_ok structs \<and>
     list_all (\<lambda>e. valid_utf8 (oj_type_name e)) graphs \<and> list_all ienum_ok enums \<and>
     list_all iresource_ok resources \<and> list_all iconst_ok consts \<and>
     emits r (writes [w_u32 FORMAT_VERSION, w_str un, w_seq write_fn fns, w_seq write_struct structs,
       w_seq write_owned_json_entry graphs, w_seq write_enum enums, w_seq write_resource resources,
       w_seq write_const consts]) q"
  by (simp add: read_surface_def codec_law prenex del: ex_simps) blast

lemma read_position_iff: "read_position r = Inr (n, q) \<longleftrightarrow> n = rd_pos r \<and> q = r"
  by (auto simp: read_position_def)

lemma r_finish_iff: "r_finish r = Inr (u, q) \<longleftrightarrow> q = r \<and> rd_pos r = length (rd_buf r)"
  by (auto simp: r_finish_def)

lemma read_summary_iff:
  "read_summary r = Inr ((s, n), q) \<longleftrightarrow> summary_ok s \<and> rd_pos q = length (rd_buf q) \<and>
     (\<exists>t. emits r (write_surface s) t \<and> n = rd_pos t \<and>
       emits t (writes [w_seq w_str (su_capabilities s), w_hash (su_interface_hash s), w_hash (su_impl_hash s)]) q)"
  by (cases s) (simp add: read_summary_def summary_ok_def write_surface_def codec_law read_surface_iff
    read_position_iff r_finish_iff prenex del: ex_simps, blast)

end
