(* ===== verification/Codec_Safety.thy ===== *)
theory Codec_Safety
  imports Interface_Codec
begin

section \<open>align\_interface: reading never panics\<close>

text \<open>
  The reading functions of the codec one by one: none reaches an index or an \<open>unwrap\<close> that fails,
  because the primitive reads ask for slices of a fixed length and every other read is put together
  from them.
\<close>

subsection \<open>Types\<close>

lemma calm_roots [calm_rules]: "calm (read_roots param_count)"
  unfolding read_roots_def by (rule calm_rules)+

lemma calm_return_borrow [calm_rules]: "calm (read_return_borrow param_count)"
  unfolding read_return_borrow_def by (rule calm_rules)+

lemma calm_return_region [calm_rules]: "calm (read_return_region param_count)"
  unfolding read_return_region_def by (rule calm_rules)+

lemma calm_return_cleanup [calm_rules]: "calm read_return_cleanup"
  unfolding read_return_cleanup_def by (rule calm_rules)+

lemma calm_mode [calm_rules]: "calm read_mode"
  unfolding read_mode_def by (rule calm_rules)+

lemma calm_param_with [calm_rules]: "calm m \<Longrightarrow> calm (read_param_with m)"
  unfolding read_param_with_def by (rule calm_rules | assumption)+

lemma calm_type_left [calm_rules]: "calm (read_type_left n)"
proof (induction n)
  case (Suc n)
  show ?case unfolding read_type_left.simps by (rule calm_rules Suc.IH)+
qed (simp add: calm_fail)

lemma calm_type [calm_rules]: "calm read_type"
  unfolding read_type_def by (rule calm_rules)+

lemma calm_param [calm_rules]: "calm read_param"
  unfolding read_param_def by (rule calm_rules)+

lemma calm_type_param [calm_rules]: "calm read_type_param"
  unfolding read_type_param_def by (rule calm_rules)+

lemma calm_type_params [calm_rules]: "calm read_type_params"
  unfolding read_type_params_def by (rule calm_rules)+

lemma calm_effect [calm_rules]: "calm read_effect"
  unfolding read_effect_def by (rule calm_rules)+

lemma calm_producer_certification [calm_rules]: "calm read_producer_certification"
  unfolding read_producer_certification_def by (rule calm_rules)+

lemma calm_drop_state_effect [calm_rules]: "calm read_drop_state_effect"
  unfolding read_drop_state_effect_def by (rule calm_rules)+

lemma calm_drop_state_effects [calm_rules]: "calm read_drop_state_effects"
  unfolding read_drop_state_effects_def by (rule calm_rules)+

subsection \<open>Callable-flow records\<close>

lemma calm_callback_projection [calm_rules]: "calm read_callback_projection"
  unfolding read_callback_projection_def by (rule calm_rules)+

lemma calm_callback_path [calm_rules]: "calm read_callback_path"
  unfolding read_callback_path_def by (rule calm_rules)+

lemma calm_callback_input [calm_rules]: "calm read_callback_input"
  unfolding read_callback_input_def by (rule calm_rules)+

lemma calm_callback_read [calm_rules]: "calm read_callback_read"
  unfolding read_callback_read_def by (rule calm_rules)+

lemma calm_callback_requirement [calm_rules]: "calm read_callback_requirement"
  unfolding read_callback_requirement_def by (rule calm_rules)+

lemma calm_callback_effects [calm_rules]: "calm read_callback_effects"
  unfolding read_callback_effects_def by (rule calm_rules)+

lemma calm_callback_source [calm_rules]: "calm read_callback_source"
  unfolding read_callback_source_def by (rule calm_rules)+

lemma calm_callback_return [calm_rules]: "calm read_callback_return"
  unfolding read_callback_return_def by (rule calm_rules)+

lemma calm_callback_contract [calm_rules]: "calm read_callback_contract"
  unfolding read_callback_contract_def by (rule calm_rules)+

lemma calm_access_root [calm_rules]: "calm read_access_root"
  unfolding read_access_root_def by (rule calm_rules)+

lemma calm_conditional_access [calm_rules]: "calm read_conditional_access"
  unfolding read_conditional_access_def by (rule calm_rules)+

lemma calm_access_effects [calm_rules]: "calm read_access_effects"
  unfolding read_access_effects_def by (rule calm_rules)+

lemma calm_mutable_access [calm_rules]: "calm (read_mutable_access parameter_count generic)"
  unfolding read_mutable_access_def by (rule calm_rules)+

subsection \<open>Retention and view records\<close>

lemma calm_retention_root [calm_rules]: "calm read_retention_root"
  unfolding read_retention_root_def by (rule calm_rules)+

lemma calm_retention_destination [calm_rules]: "calm read_retention_destination"
  unfolding read_retention_destination_def by (rule calm_rules)+

lemma calm_retention_destinations [calm_rules]: "calm read_retention_destinations"
  unfolding read_retention_destinations_def by (rule calm_rules)+

lemma calm_mutable_retention [calm_rules]: "calm (read_mutable_retention params generic)"
  unfolding read_mutable_retention_def by (rule calm_rules)+

lemma calm_view_root [calm_rules]: "calm (read_view_root parameter_count roots)"
  unfolding read_view_root_def by (rule calm_rules)+

lemma calm_view_roots_loop [calm_rules]: "calm (read_view_roots_loop k n roots)"
proof (induction k arbitrary: roots)
  case (Suc k)
  show ?case unfolding read_view_roots_loop.simps by (rule calm_rules Suc.IH)+
qed (simp add: calm_ret)

lemma calm_view_roots [calm_rules]: "calm (read_view_roots parameter_count)"
  unfolding read_view_roots_def by (rule calm_rules)+

lemma calm_view_effect [calm_rules]: "calm (read_view_effect parameter_count)"
  unfolding read_view_effect_def by (rule calm_rules)+

lemma calm_mutable_view_effect [calm_rules]: "calm (read_mutable_view_effect parameter_count generic)"
  unfolding read_mutable_view_effect_def by (rule calm_rules)+

subsection \<open>Items\<close>

lemma calm_inline_extern [calm_rules]: "calm read_inline_extern"
  unfolding read_inline_extern_def by (rule calm_rules)+

lemma calm_fn_body [calm_rules]: "calm read_fn_body"
  unfolding read_fn_body_def by (rule calm_rules)+

lemma calm_fn [calm_rules]: "calm read_fn"
  unfolding read_fn_def by (rule calm_rules)+

lemma calm_field [calm_rules]: "calm read_field"
  unfolding read_field_def by (rule calm_rules)+

lemma calm_struct [calm_rules]: "calm read_struct"
  unfolding read_struct_def by (rule calm_rules)+

lemma calm_variant [calm_rules]: "calm read_variant"
  unfolding read_variant_def by (rule calm_rules)+

lemma calm_enum [calm_rules]: "calm read_enum"
  unfolding read_enum_def by (rule calm_rules)+

lemma calm_resource [calm_rules]: "calm read_resource"
  unfolding read_resource_def by (rule calm_rules)+

lemma calm_opt_type [calm_rules]: "calm read_opt_type"
  unfolding read_opt_type_def by (rule calm_rules)+

lemma calm_const [calm_rules]: "calm read_const"
  unfolding read_const_def by (rule calm_rules)+

lemma calm_owned_json_entry [calm_rules]: "calm read_owned_json_entry"
  unfolding read_owned_json_entry_def by (rule calm_rules)+

subsection \<open>The artifact\<close>

lemma calm_hash [calm_rules]: "calm r_hash"
  unfolding r_hash_def by (rule calm_rules)+

lemma calm_position [calm_rules]: "calm read_position"
  by (simp add: calm_def read_position_def)

lemma calm_surface [calm_rules]: "calm read_surface"
  unfolding read_surface_def by (rule calm_rules)+

lemma calm_summary [calm_rules]: "calm read_summary"
  unfolding read_summary_def by (rule calm_rules)+

end
