(* ===== verification/Codec_Props.thy ===== *)
theory Codec_Props
  imports Codec_Safety
begin

section \<open>Properties of the interface artifact\<close>

text \<open>
  What the codec guarantees of a whole artifact: the decoder accepts exactly the encodings of
  well-formed summaries that pass the later checks and whose stored hash is the hash of their
  surface; it panics only where one of the later checks does; every damaged artifact (truncated, extended, of another version,
  with an edited surface) is refused; and the surface bytes determine the surface.
\<close>

subsection \<open>A sample artifact\<close>

definition sample_fn :: ifn_sig where
  "sample_fn = \<lparr>if_name = ''area'', if_type_params = [],
     if_params = [I_Param PM_Borrow (IT_Named ''Shape'' []),
       I_Param PM_BorrowMut (IT_FixedArray (IT_Named ''i64'' []) 4)],
     if_ret = IT_Named ''slice'' [IT_Named ''i64'' []],
     if_return_borrow = RB_Roots [0, 1] [], if_return_region = RG_None, if_return_cleanup = RC_None,
     if_drop_state_effects = [DS_NotApplicable, DS_Invariant],
     if_producer_certification = PC_ValidatedBody, if_effect = E_Pure,
     if_parallel_transfer_params = [],
     if_mutable_access = Some \<lparr>ae_direct = [AR_Contained 1], ae_conditional = []\<rparr>,
     if_callback_contract = None,
     if_mutable_retention = Some [\<lparr>rd_may_mutate = False, rd_roots = []\<rparr>,
       \<lparr>rd_may_mutate = True, rd_roots = [RR_Contained 0]\<rparr>],
     if_mutable_view_effect = Some [None, Some \<lparr>ve_may_write_original = True,
       ve_must_write_original_element = False, ve_may_rebind = False, ve_must_rebind = False,
       ve_write_roots = [RR_Contained 0, RR_Storage 0], ve_rebind_roots = []\<rparr>],
     if_resource_hook_body = False, if_body = FB_Absent\<rparr>"

definition sample_summary :: interface_summary where
  "sample_summary = \<lparr>su_unit = ''geom'', su_fns = [sample_fn],
     su_structs = [\<lparr>is_name = ''Shape'', is_type_params = [], is_fields = [(''w'', IT_Named ''i64'' [])],
       is_align = None, is_c_repr = True, is_generic_body = None\<rparr>],
     su_owned_json_graphs = [], su_enums = [], su_resources = [], su_consts = [],
     su_capabilities = [''zlib''], su_interface_hash = \<lparr>h_lo = 5301476818872376361, h_hi = 14507437643138551008\<rparr>,
     su_impl_hash = \<lparr>h_lo = 5, h_hi = 7\<rparr>\<rparr>"
text \<open>Later checks that pass.\<close>

definition no_checks :: "unit summary_checks" where
  "no_checks = \<lparr>roots_borrow_capable = \<lambda>_. Some True, owned_json_fault = \<lambda>_ _ _. Some None,
     view_effects_fault = \<lambda>_. Some None, drop_state_mismatch = \<lambda>_. Some False\<rparr>"

lemma sample_ok: "summary_ok sample_summary"
  by code_simp

lemma sample_written: "\<exists>bs. serialize sample_summary = Some bs"
proof -
  have "serialize sample_summary \<noteq> None" by code_simp
  then show ?thesis by auto
qed

subsection \<open>From readers to artifacts\<close>

lemma emits_new: "emits (reader_new bs) m q \<and> rd_pos q = length (rd_buf q) \<longleftrightarrow>
    m = Some bs \<and> q = \<lparr>rd_buf = bs, rd_pos = length bs\<rparr>"
  by (cases q) (auto simp: emits_def consumes_def reader_new_def)

lemma serialize_split:
  "serialize s = Some bs \<longleftrightarrow> (\<exists>a b. encode_interface_surface s = Some a \<and> bs = a @ b \<and>
     writes [w_seq w_str (su_capabilities s), w_hash (su_interface_hash s), w_hash (su_impl_hash s)] = Some b)"
  by (subst serialize_def, subst writes.simps(2))
    (auto simp: encode_interface_surface_def bind_eq_Some_conv)

lemma read_summary_new:
  "read_summary (reader_new bs) = Inr ((s, n), q) \<longleftrightarrow>
     summary_ok s \<and> q = \<lparr>rd_buf = bs, rd_pos = length bs\<rparr> \<and> serialize s = Some bs \<and>
     (\<exists>a. encode_interface_surface s = Some a \<and> n = length a \<and> take n bs = a)"
proof -
  let ?tail = "writes [w_seq w_str (su_capabilities s), w_hash (su_interface_hash s), w_hash (su_impl_hash s)]"
  have "(\<exists>t. emits (reader_new bs) (write_surface s) t \<and> n = rd_pos t \<and> emits t ?tail q) \<and>
      rd_pos q = length (rd_buf q) \<longleftrightarrow>
      q = \<lparr>rd_buf = bs, rd_pos = length bs\<rparr> \<and>
      (\<exists>a b. write_surface s = Some a \<and> ?tail = Some b \<and> bs = a @ b \<and> n = length a)"
  proof -
    have c: "(\<exists>t. consumes (reader_new bs) a t \<and> n = rd_pos t \<and> consumes t b q) \<and> rd_pos q = length (rd_buf q)
        \<longleftrightarrow> q = \<lparr>rd_buf = bs, rd_pos = length bs\<rparr> \<and> bs = a @ b \<and> n = length a" (is "?l \<longleftrightarrow> ?r") for a b
    proof
      assume ?l
      then obtain t where t: "consumes (reader_new bs) a t" "n = rd_pos t" "consumes t b q"
        and e: "rd_pos q = length (rd_buf q)" by blast
      have "consumes (reader_new bs) (a @ b) q" using t consumes_append by blast
      then have "q = \<lparr>rd_buf = bs, rd_pos = length bs\<rparr> \<and> bs = a @ b"
        using e by (cases q) (auto simp: consumes_def reader_new_def)
      then show ?r using t(1,2) by (auto simp: consumes_def reader_new_def)
    next
      assume ?r
      then show ?l
        by (auto simp: consumes_def reader_new_def intro!: exI [of _ "\<lparr>rd_buf = a @ b, rd_pos = length a\<rparr>"])
    qed
    show ?thesis using c unfolding emits_def by blast
  qed
  then show ?thesis
    unfolding read_summary_iff serialize_split encode_interface_surface_def by auto
qed


lemma deserialize_cases:
  assumes "serialize s = Some bs" and "summary_ok s"
  obtains a where "encode_interface_surface s = Some a" and "slice_range bs 0 (length a) = Some a"
    and "read_summary (reader_new bs) = Inr ((s, length a), \<lparr>rd_buf = bs, rd_pos = length bs\<rparr>)"
proof -
  obtain a b where "encode_interface_surface s = Some a" "bs = a @ b"
    using assms(1) serialize_split by blast
  with that [of a] assms show ?thesis
    by (simp add: read_summary_new)
qed

lemma deserialize_exact_aux:
  "deserialize_impl chk bs target = Some (Inr s) \<longleftrightarrow>
     serialize s = Some bs \<and> summary_ok s \<and> summary_accepted chk target s"
proof
  assume d: "deserialize_impl chk bs target = Some (Inr s)"
  then obtain n q where "read_summary (reader_new bs) = Inr ((s, n), q)"
    by (auto simp: deserialize_impl_def check_summary_def bind_eq_Some_conv
      split: sum.splits read_stop.splits prod.splits if_splits option.splits)
  then have r: "summary_ok s" "serialize s = Some bs" and "read_summary (reader_new bs) = Inr ((s, n), q)"
    and n: "encode_interface_surface s = Some (take n bs)" "slice_range bs 0 n = Some (take n bs)"
    by (auto simp: read_summary_new slice_range_def)
  with d show "serialize s = Some bs \<and> summary_ok s \<and> summary_accepted chk target s"
    by (auto simp: deserialize_impl_def check_summary_def summary_accepted_def bind_eq_Some_conv
      split: if_splits option.splits)
next
  assume "serialize s = Some bs \<and> summary_ok s \<and> summary_accepted chk target s"
  then have a: "serialize s = Some bs" "summary_ok s" "summary_accepted chk target s" by auto
  show "deserialize_impl chk bs target = Some (Inr s)"
    by (rule deserialize_cases [OF a(1,2)])
      (use a(3) in \<open>simp add: deserialize_impl_def check_summary_def summary_accepted_def\<close>)
qed

lemma check_summary_panics:
  assumes "encode_interface_surface s = Some a" "slice_range bs 0 n = Some a" "hash128_of a = Some h"
  shows "check_summary chk bs target s n = None \<longleftrightarrow> check_panics chk target s"
  using assms
  by (auto simp: check_summary_def check_panics_def Let_def bind_eq_None_conv split: if_splits option.splits)

lemma deserialize_panics:
  assumes "length bs < 2 ^ 64"
  shows "deserialize_impl chk bs target = None \<longleftrightarrow>
    (\<exists>s. serialize s = Some bs \<and> summary_ok s \<and> check_panics chk target s)"
proof (cases "read_summary (reader_new bs)")
  case (Inl e)
  have "e \<noteq> Read_Panic" using calm_summary Inl by (auto simp: calm_def)
  moreover have "\<not> (serialize s = Some bs \<and> summary_ok s)" for s
    using Inl deserialize_cases [of s bs] by (metis Inl_Inr_False)
  ultimately show ?thesis using Inl by (auto simp: deserialize_impl_def split: read_stop.split)
next
  case (Inr v)
  obtain s n q where v: "v = ((s, n), q)" by (metis prod.exhaust)
  with Inr have s: "summary_ok s" "serialize s = Some bs" and a: "encode_interface_surface s = Some (take n bs)"
    and n: "n \<le> length bs" by (auto simp: read_summary_new dest: arg_cong [of _ _ length])
  obtain h where h: "hash128_of (take n bs) = Some h" using hash128_of_total [of "take n bs"] assms n by auto
  have "t = s" if "serialize t = Some bs" "summary_ok t" for t
    using deserialize_cases [OF that] Inr v by (metis Inr_inject prod.inject)
  moreover have "slice_range bs 0 n = Some (take n bs)" using n by (simp add: slice_range_def)
  then have "check_summary chk bs target s n = None \<longleftrightarrow> check_panics chk target s"
    by (rule check_summary_panics [OF a _ h])
  moreover have "deserialize_impl chk bs target = check_summary chk bs target s n"
    by (simp add: deserialize_impl_def Inr v)
  ultimately show ?thesis using s by metis
qed

text \<open>Whole artifacts satisfy the contract, the later checks aside.\<close>

definition read_artifact :: "interface_summary rd" where
  "read_artifact =
     bindR read_surface (\<lambda>(unit, fns, structs, graphs, enums, resources, consts).
     bindR (r_seq r_str) (\<lambda>capabilities.
     bindR r_hash (\<lambda>interface_hash.
     bindR r_hash (\<lambda>impl_hash.
     retR \<lparr>su_unit = unit, su_fns = fns, su_structs = structs, su_owned_json_graphs = graphs,
       su_enums = enums, su_resources = resources, su_consts = consts,
       su_capabilities = capabilities, su_interface_hash = interface_hash, su_impl_hash = impl_hash\<rparr>))))"

lemma read_artifact_iff: "read_artifact r = Inr (s, q) \<longleftrightarrow> summary_ok s \<and> emits r (serialize s) q"
  by (cases s) (simp add: read_artifact_def summary_ok_def serialize_def write_surface_def codec_law
    read_surface_iff prenex del: ex_simps, blast)

interpretation artifact: codec serialize read_artifact summary_ok
  by unfold_locales (rule read_artifact_iff)

lemma read_summary_artifact:
  "read_artifact r = Inr (s, q) \<Longrightarrow> rd_pos q \<noteq> length (rd_buf q) \<Longrightarrow> read_summary r = Inl (Failed DE_TrailingBytes)"
  by (auto simp: read_artifact_def read_summary_def bindR_def retR_def read_position_def r_finish_def
    split: sum.splits)

lemma read_summary_trailing:
  assumes "serialize s = Some bs" and "summary_ok s" and "extra \<noteq> []"
  shows "read_summary (reader_new (bs @ extra)) = Inl (Failed DE_TrailingBytes)"
  using artifact.get_put [OF assms(1,2), of "[]" extra] assms(3)
  by (intro read_summary_artifact [of _ s]) (auto simp: reader_new_def)

subsection \<open>The properties\<close>

text \<open>
  C8. The decoder accepts a byte string exactly when it is the encoding of a summary whose parts
  are well-formed (text, canonical provenance and callable-flow records, types nested at most 128
  deep), whose stored hash is the hash of its own surface, and which the later checks accept; and
  the summary it returns is that one. So an accepted artifact has one encoding, the one
  \<open>serialize\<close> writes.
\<close>

theorem deserialize_exact:
  "deserialize_impl chk bs target = Some (Inr s) \<longleftrightarrow>
     serialize s = Some bs \<and> summary_ok s \<and> summary_accepted chk target s"
  by (rule deserialize_exact_aux)

text \<open>
  C13. The decoder panics only where one of the four checks outside the codec does: whatever the
  bytes, for a target or without one, no read, no slice and no hash panics, so the decoder
  returns a summary or an error, unless the bytes are the encoding of a well-formed summary on
  which the checks, in the order of the code, reach one that panics; and then it does panic.
\<close>

theorem deserialize_never_panics:
  assumes "length bs < 2 ^ 64"
  shows "(deserialize chk bs = None \<longleftrightarrow>
      (\<exists>s. serialize s = Some bs \<and> summary_ok s \<and> check_panics chk None s)) \<and>
    (deserialize_for_target chk bs tg = None \<longleftrightarrow>
      (\<exists>s. serialize s = Some bs \<and> summary_ok s \<and> check_panics chk (Some tg) s))"
  unfolding deserialize_def deserialize_for_target_def using deserialize_panics [OF assms] by blast

theorem deserialize_never_panics_witness:
  "deserialize no_checks [21, 0, 0, 0, 9] \<noteq> None \<and>
   deserialize_for_target no_checks [21, 0, 0, 0, 9] () \<noteq> None"
  using deserialize_never_panics [of "[21, 0, 0, 0, 9]" no_checks "()"]
  by (simp add: check_panics_def no_checks_def)

text \<open>
  C12. A damaged artifact is refused: no proper prefix of the encoding of a well-formed summary
  decodes to anything, and the encoding with anything appended is refused as having trailing
  bytes.
\<close>

theorem damaged_artifact_refused:
  assumes "serialize s = Some bs" and "summary_ok s" and "k < length bs" and "extra \<noteq> []"
  shows "(\<forall>s'. deserialize_impl chk (take k bs) target \<noteq> Some (Inr s')) \<and>
    deserialize_impl chk (bs @ extra) target = Some (Inl DE_TrailingBytes)"
proof
  show "\<forall>s'. deserialize_impl chk (take k bs) target \<noteq> Some (Inr s')"
    using artifact.prefix_free [of _ "take k bs" s "drop k bs"] assms(1-3)
    by (auto simp: deserialize_exact_aux)
  show "deserialize_impl chk (bs @ extra) target = Some (Inl DE_TrailingBytes)"
    using read_summary_trailing [OF assms(1,2,4)] by (simp add: deserialize_impl_def)
qed

theorem damaged_artifact_refused_witness:
  "\<exists>bs. serialize sample_summary = Some bs \<and>
     (\<forall>s'. deserialize_impl no_checks (take 7 bs) None \<noteq> Some (Inr s')) \<and>
     deserialize_impl no_checks (bs @ [0]) None = Some (Inl DE_TrailingBytes)"
proof -
  obtain bs where bs: "serialize sample_summary = Some bs" using sample_written by blast
  have "7 < length (the (serialize sample_summary))" by code_simp
  with bs damaged_artifact_refused [OF bs sample_ok, of 7 "[0]" no_checks None] show ?thesis by simp
qed

text \<open>
  C30. The version gate: an artifact that does not begin with this build's format version is refused
  with the version it carries, whatever follows.
\<close>

theorem foreign_version_refused:
  assumes "v \<noteq> FORMAT_VERSION"
  shows "deserialize_impl chk (le_bytes 4 v @ rest) target = Some (Inl (DE_UnknownVersion v))"
proof -
  have "r_u32 (reader_new (le_bytes 4 v @ rest)) =
      Inr (v, \<lparr>rd_buf = le_bytes 4 v @ rest, rd_pos = 4\<rparr>)"
    using u32.get_put [of v "le_bytes 4 v" "[]" rest] by (simp add: w_u32_def reader_new_def)
  then show ?thesis
    using assms by (simp add: deserialize_impl_def read_summary_def read_surface_def bindR_def failR_def)
qed

theorem foreign_version_refused_witness:
  "deserialize_impl no_checks [20, 0, 0, 0, 1, 2] None = Some (Inl (DE_UnknownVersion 20))"
proof -
  have "le_bytes 4 (20 :: u32) = [20, 0, 0, 0]" by code_simp
  moreover have "(20 :: u32) \<noteq> FORMAT_VERSION" by (simp add: FORMAT_VERSION_def)
  ultimately show ?thesis using foreign_version_refused [of 20 no_checks "[1, 2]" None] by simp
qed

text \<open>
  C15. The hash gate: for a well-formed summary the checks before the hash accept, the decoder reports
  a hash mismatch exactly when the stored interface hash is not the hash of the surface bytes.
\<close>

theorem stale_hash_refused:
  assumes "serialize s = Some bs" and "summary_ok s" and "encode_interface_surface s = Some surface"
    and "length bs < 2 ^ 64" and "roots_borrow_capable chk s = Some True"
    and "owned_json_fault chk (su_structs s) (su_owned_json_graphs s) target = Some None"
  shows "deserialize_impl chk bs target = Some (Inl DE_InterfaceHashMismatch) \<longleftrightarrow>
    hash128_of surface \<noteq> Some (su_interface_hash s)"
proof (rule deserialize_cases [OF assms(1,2)])
  fix a
  assume a: "encode_interface_surface s = Some a" "slice_range bs 0 (length a) = Some a"
    "read_summary (reader_new bs) = Inr ((s, length a), \<lparr>rd_buf = bs, rd_pos = length bs\<rparr>)"
  have "length a \<le> length bs" using a(2) by (auto simp: slice_range_def split: if_splits)
  then obtain h where "hash128_of a = Some h" using hash128_of_total [of a] assms(4) by auto
  with a assms show ?thesis
    by (auto simp: deserialize_impl_def check_summary_def bind_eq_Some_conv split: option.splits if_splits)
qed

theorem stale_hash_refused_witness:
  "\<exists>bs surface. serialize sample_summary = Some bs \<and> encode_interface_surface sample_summary = Some surface \<and>
     (deserialize_impl no_checks bs None = Some (Inl DE_InterfaceHashMismatch) \<longleftrightarrow>
       hash128_of surface \<noteq> Some (su_interface_hash sample_summary))"
proof -
  obtain bs where bs: "serialize sample_summary = Some bs" using sample_written by blast
  then obtain surface where surface: "encode_interface_surface sample_summary = Some surface"
    using serialize_split by blast
  have "length (the (serialize sample_summary)) < 1000" by code_simp
  then have "length bs < 2 ^ 64" using bs by simp
  from stale_hash_refused [OF bs sample_ok surface this, of no_checks None] bs surface
  show ?thesis by (auto simp: no_checks_def)
qed

text \<open>
  C14. The surface bytes, which alone are hashed, determine the surface: two well-formed summaries
  with the same surface bytes have the same unit, functions, type definitions, resources, constants
  and owned-JSON entries; they can differ only in capabilities and in the two hashes.
\<close>

theorem surface_determines_interface:
  assumes "summary_ok s" and "summary_ok t"
    and "encode_interface_surface s = Some a" and "encode_interface_surface t = Some a"
  shows "t = s\<lparr>su_capabilities := su_capabilities t, su_interface_hash := su_interface_hash t,
    su_impl_hash := su_impl_hash t\<rparr>"
proof -
  let ?q = "\<lparr>rd_buf = a, rd_pos = length a\<rparr>"
  have "read_surface (reader_new a) = Inr ((su_unit u, su_fns u, su_structs u, su_owned_json_graphs u,
      su_enums u, su_resources u, su_consts u), ?q)"
    if "summary_ok u" "encode_interface_surface u = Some a" for u
    using that emits_new [of a "Some a" ?q]
    by (simp add: read_surface_iff summary_ok_def encode_interface_surface_def write_surface_def)
  from this [OF assms(1,3)] this [OF assms(2,4)] show ?thesis
    by (cases s; cases t) simp
qed

theorem surface_determines_interface_witness:
  "sample_summary\<lparr>su_capabilities := [''zlib'', ''openssl'']\<rparr> =
     sample_summary\<lparr>su_capabilities := [''zlib'', ''openssl''],
       su_interface_hash := su_interface_hash sample_summary, su_impl_hash := su_impl_hash sample_summary\<rparr>"
proof -
  let ?t = "sample_summary\<lparr>su_capabilities := [''zlib'', ''openssl'']\<rparr>"
  have t: "summary_ok ?t" by code_simp
  obtain a where a: "encode_interface_surface sample_summary = Some a"
    using sample_written serialize_split by blast
  have "encode_interface_surface ?t = Some a"
    using a by (simp add: encode_interface_surface_def write_surface_def)
  from surface_determines_interface [OF sample_ok t a this] show ?thesis by simp
qed

text \<open>
  C17. Types round-trip up to the depth limit and not beyond: a type whose paths are text and whose
  summaries are canonical is read back from its encoding, in any context, when it nests at most 128
  records; a deeper one is encoded all the same but never read.
\<close>

theorem type_roundtrip_to_depth:
  assumes "type_wf t" and "write_type t = Some bs"
  shows "if type_depth t \<le> MAX_TYPE_DEPTH
    then read_type \<lparr>rd_buf = pre @ bs @ post, rd_pos = length pre\<rparr> =
      Inr (t, \<lparr>rd_buf = pre @ bs @ post, rd_pos = length pre + length bs\<rparr>)
    else (\<forall>t' q. read_type \<lparr>rd_buf = pre @ bs @ post, rd_pos = length pre\<rparr> \<noteq> Inr (t', q))"
proof (cases "type_depth t \<le> MAX_TYPE_DEPTH")
  case True
  then show ?thesis using ty.get_put [OF assms(2)] assms(1) by (simp add: type_ok_def)
next
  case False
  let ?r = "\<lparr>rd_buf = pre @ bs @ post, rd_pos = length pre\<rparr>"
  let ?m = "type_depth t"
  have "read_type ?r \<noteq> Inr (t', q)" for t' q
  proof
    assume r: "read_type ?r = Inr (t', q)"
    then have d: "type_depth t' \<le> MAX_TYPE_DEPTH" "type_ok ?m t'" "emits ?r (write_type t') q"
      using False by (auto simp: ty.get_iff type_ok_def)
    have "read_type_left ?m ?r = Inr (t', q)"
      using d by (simp add: codec.get_iff [OF read_type_codec])
    moreover have "read_type_left ?m ?r = Inr (t, \<lparr>rd_buf = pre @ bs @ post, rd_pos = length pre + length bs\<rparr>)"
      using codec.get_put [OF read_type_codec assms(2), of ?m] assms(1) by (simp add: type_ok_def)
    ultimately show False using d(1) False by simp
  qed
  with False show ?thesis by simp
qed

definition nested_tuple :: "nat \<Rightarrow> itype" where
  "nested_tuple n = ((\<lambda>t. IT_Tuple [t]) ^^ n) (IT_Tuple [])"

theorem type_roundtrip_to_depth_witness:
  "\<exists>bs. write_type (nested_tuple 128) = Some bs \<and>
     (\<forall>t' q. read_type \<lparr>rd_buf = bs, rd_pos = 0\<rparr> \<noteq> Inr (t', q))"
proof -
  have "write_type (nested_tuple 128) \<noteq> None" by code_simp
  then obtain bs where bs: "write_type (nested_tuple 128) = Some bs" by auto
  have "type_wf (nested_tuple 128)" "\<not> type_depth (nested_tuple 128) \<le> MAX_TYPE_DEPTH"
    by code_simp+
  with bs type_roundtrip_to_depth [OF _ bs, of "[]" "[]"] show ?thesis by simp
qed

text \<open>
  C16. The view-effect reader, which checks counts, flags, range and order byte by byte, agrees with
  the validator that producer and importer share: from the bytes of a summary it returns that
  summary exactly when the validator passes it with the same parameters eligible.
\<close>

theorem view_reader_is_validator:
  assumes "write_mutable_view_effect (Some es) = Some bs"
  shows "read_mutable_view_effect (length es) generic \<lparr>rd_buf = pre @ bs @ post, rd_pos = length pre\<rparr> =
      Inr (Some es, \<lparr>rd_buf = pre @ bs @ post, rd_pos = length pre + length bs\<rparr>) \<longleftrightarrow>
    validate_mutable_view_effect (Some es) (map (\<lambda>e. e \<noteq> None) es) generic = None"
  using views.get_put [OF assms, of "length es" generic pre post]
  by (auto simp: views.get_iff views_ok_def)

theorem view_reader_is_validator_witness:
  "\<exists>bs. write_mutable_view_effect (if_mutable_view_effect sample_fn) = Some bs \<and>
     read_mutable_view_effect 2 False \<lparr>rd_buf = bs, rd_pos = 0\<rparr> =
       Inr (if_mutable_view_effect sample_fn, \<lparr>rd_buf = bs, rd_pos = length bs\<rparr>)"
proof -
  let ?es = "the (if_mutable_view_effect sample_fn)"
  have "write_mutable_view_effect (Some ?es) \<noteq> None" by code_simp
  then obtain bs where bs: "write_mutable_view_effect (Some ?es) = Some bs" by auto
  have "length ?es = 2" "if_mutable_view_effect sample_fn = Some ?es"
    by (simp_all add: sample_fn_def)
  moreover have "validate_mutable_view_effect (Some ?es) (map (\<lambda>e. e \<noteq> None) ?es) False = None"
    by code_simp
  ultimately show ?thesis
    using bs view_reader_is_validator [OF bs, of False "[]" "[]"] by simp
qed

end
