(* ===== verification/Known_Bits.thy ===== *)
theory Known_Bits
  imports Wyhash Ast
begin

unbundle bit_operations_syntax

section \<open>align\_sema: known bits of integer expressions\<close>

text \<open>
  The model of \<open>crates/align_sema/src/known_bits.rs\<close>: an abstract interpretation that finds bits of
  an integer expression that are known to be zero or one, and the test \<open>lossless_integer_cast\<close>
  built on it, which silences the warning about a narrowing cast. The analysis looks at literals,
  negated literals, bitwise operators, shifts by a literal and integer casts; every other
  expression is \<open>HK_Other\<close> here.

  The soundness theorems are against a reference semantics of integer expressions: values are
  integers in the range of their type, an operator computes on integers and its result wraps to
  the type (two's complement), and an expression the analysis knows nothing about may have any
  value of its type.
\<close>

subsection \<open>Types and expressions\<close>

record int_ty =
  it_bits :: nat
  it_signed :: bool

datatype sema_ty = ST_Int int_ty | ST_Other

datatype hir_expr = H_Expr (he_kind: hir_kind) (he_ty: sema_ty)
and hir_kind =
    HK_Int int
  | HK_Unary un_op hir_expr
  | HK_Binary bin_op hir_expr hir_expr
  | HK_Cast hir_expr
  | HK_Other

subsection \<open>The analysis\<close>

record known_bits =
  kb_zero :: u64
  kb_one :: u64

definition bits_default :: known_bits where
  "bits_default = \<lparr>kb_zero = 0, kb_one = 0\<rparr>"

definition bits_mask :: "nat \<Rightarrow> u64 option" where
  "bits_mask bits =
     (if bits = 8 \<or> bits = 16 \<or> bits = 32 then Some (push_bit bits 1 - 1)
      else if bits = 64 then Some (-1)
      else None)"

text \<open>A literal modulo the width.\<close>

definition literal_bits :: "int_ty \<Rightarrow> int \<Rightarrow> known_bits" where
  "literal_bits t value = (let low = word_of_int (value mod 2 ^ it_bits t) in
     \<lparr>kb_zero = NOT low, kb_one = low\<rparr>)"

definition checked_neg :: "int \<Rightarrow> int option" where
  "checked_neg v = (if v = - (2 ^ 127) then None else Some (- v))"

definition shift_amount :: "int_ty \<Rightarrow> hir_expr \<Rightarrow> nat option" where
  "shift_amount t e = (case he_kind e of
     HK_Int amount \<Rightarrow> if 0 \<le> amount \<and> amount < 2 ^ 32 \<and> amount < int (it_bits t) then Some (nat amount) else None
   | _ \<Rightarrow> None)"

definition shl_bits :: "nat \<Rightarrow> known_bits \<Rightarrow> known_bits" where
  "shl_bits shift left =
     \<lparr>kb_zero = push_bit shift (kb_zero left) OR (push_bit shift 1 - 1), kb_one = push_bit shift (kb_one left)\<rparr>"

definition shr_bits :: "int_ty \<Rightarrow> u64 \<Rightarrow> nat \<Rightarrow> known_bits \<Rightarrow> known_bits" where
  "shr_bits t value_mask shift left =
     (let upper = value_mask XOR drop_bit shift value_mask;
          sign = push_bit (it_bits t - 1) 1 in
      \<lparr>kb_zero = drop_bit shift (kb_zero left) OR
         (if \<not> it_signed t \<or> kb_zero left AND sign \<noteq> 0 then upper else 0),
       kb_one = drop_bit shift (kb_one left) OR
         (if it_signed t \<and> kb_one left AND sign \<noteq> 0 then upper else 0)\<rparr>)"

definition binary_bits ::
    "int_ty \<Rightarrow> u64 \<Rightarrow> bin_op \<Rightarrow> hir_expr \<Rightarrow> known_bits \<Rightarrow> known_bits \<Rightarrow> known_bits" where
  "binary_bits t value_mask op rhs left right = (case op of
     Op_BitAnd \<Rightarrow> \<lparr>kb_zero = kb_zero left OR kb_zero right, kb_one = kb_one left AND kb_one right\<rparr>
   | Op_BitOr \<Rightarrow> \<lparr>kb_zero = kb_zero left AND kb_zero right, kb_one = kb_one left OR kb_one right\<rparr>
   | Op_BitXor \<Rightarrow>
       \<lparr>kb_zero = (kb_zero left AND kb_zero right) OR (kb_one left AND kb_one right),
        kb_one = (kb_zero left AND kb_one right) OR (kb_one left AND kb_zero right)\<rparr>
   | Op_Shl \<Rightarrow> (case shift_amount t rhs of Some shift \<Rightarrow> shl_bits shift left | None \<Rightarrow> bits_default)
   | Op_Shr \<Rightarrow> (case shift_amount t rhs of Some shift \<Rightarrow> shr_bits t value_mask shift left | None \<Rightarrow> bits_default)
   | _ \<Rightarrow> bits_default)"

definition cast_bits :: "int_ty \<Rightarrow> u64 \<Rightarrow> int_ty \<Rightarrow> u64 \<Rightarrow> known_bits \<Rightarrow> known_bits" where
  "cast_bits t value_mask source source_mask bits =
     (if it_bits t > it_bits source then
        let upper = value_mask XOR source_mask; sign = push_bit (it_bits source - 1) 1 in
        if \<not> it_signed source \<or> kb_zero bits AND sign \<noteq> 0 then bits\<lparr>kb_zero := kb_zero bits OR upper\<rparr>
        else if kb_one bits AND sign \<noteq> 0 then bits\<lparr>kb_one := kb_one bits OR upper\<rparr>
        else bits
      else bits)"

text \<open>\<open>facts\<close>, the budget first: at budget 0 nothing is known.\<close>

primrec facts :: "nat \<Rightarrow> hir_expr \<Rightarrow> known_bits" where
  "facts 0 e = bits_default"
| "facts (Suc budget) e = (case he_ty e of
     ST_Other \<Rightarrow> bits_default
   | ST_Int t \<Rightarrow> (case bits_mask (it_bits t) of
       None \<Rightarrow> bits_default
     | Some value_mask \<Rightarrow>
         let result = (case he_kind e of
             HK_Int value \<Rightarrow> literal_bits t value
           | HK_Unary Un_Neg inner \<Rightarrow> (case he_kind inner of
               HK_Int value \<Rightarrow> (case checked_neg value of
                 Some negative \<Rightarrow> literal_bits t negative
               | None \<Rightarrow> bits_default)
             | _ \<Rightarrow> bits_default)
           | HK_Unary Un_BitNot inner \<Rightarrow>
               (let bits = facts budget inner in \<lparr>kb_zero = kb_one bits, kb_one = kb_zero bits\<rparr>)
           | HK_Unary Un_Not inner \<Rightarrow> bits_default
           | HK_Binary op lhs rhs \<Rightarrow>
               if he_ty lhs = he_ty e \<and> he_ty rhs = he_ty e
               then binary_bits t value_mask op rhs (facts budget lhs) (facts budget rhs)
               else bits_default
           | HK_Cast inner \<Rightarrow> (case he_ty inner of
               ST_Int source \<Rightarrow> (case bits_mask (it_bits source) of
                 Some source_mask \<Rightarrow> cast_bits t value_mask source source_mask (facts budget inner)
               | None \<Rightarrow> bits_default)
             | ST_Other \<Rightarrow> bits_default)
           | HK_Other \<Rightarrow> bits_default)
         in \<lparr>kb_zero = kb_zero result AND value_mask, kb_one = kb_one result AND value_mask\<rparr>))"

definition signed_pattern :: "nat \<Rightarrow> u64 \<Rightarrow> int" where
  "signed_pattern bits value =
     uint value - (if value AND push_bit (bits - 1) 1 \<noteq> 0 then 2 ^ bits else 0)"

text \<open>The least and the greatest value the known bits allow.\<close>

definition known_interval :: "int_ty \<Rightarrow> u64 \<Rightarrow> known_bits \<Rightarrow> int \<times> int" where
  "known_interval source source_mask bits =
     (let sign = push_bit (it_bits source - 1) 1; maximum_bits = source_mask AND NOT (kb_zero bits) in
      if \<not> it_signed source then (uint (kb_one bits), uint maximum_bits)
      else
        let minimum = (if kb_zero bits AND sign \<noteq> 0 then kb_one bits else kb_one bits OR sign);
            maximum = (if kb_one bits AND sign \<noteq> 0 then maximum_bits else maximum_bits AND NOT sign)
        in (signed_pattern (it_bits source) minimum, signed_pattern (it_bits source) maximum))"

definition int_range :: "int_ty \<Rightarrow> int \<times> int" where
  "int_range t =
     (if it_signed t then (- (2 ^ (it_bits t - 1)), 2 ^ (it_bits t - 1) - 1) else (0, 2 ^ it_bits t - 1))"

definition lossless_integer_cast :: "hir_expr \<Rightarrow> sema_ty \<Rightarrow> bool" where
  "lossless_integer_cast e target_ty = (case (he_ty e, target_ty) of
     (ST_Int source, ST_Int target) \<Rightarrow>
       (case (bits_mask (it_bits source), bits_mask (it_bits target)) of
          (Some source_mask, Some _) \<Rightarrow>
            let (minimum, maximum) = known_interval source source_mask (facts 48 e);
                (low, high) = int_range target
            in minimum \<ge> low \<and> maximum \<le> high
        | _ \<Rightarrow> False)
   | _ \<Rightarrow> False)"

subsection \<open>The reference semantics\<close>

definition in_type :: "int_ty \<Rightarrow> int \<Rightarrow> bool" where
  "in_type t i \<longleftrightarrow> fst (int_range t) \<le> i \<and> i \<le> snd (int_range t)"

text \<open>Two's complement wrap-around.\<close>

definition wrap :: "int_ty \<Rightarrow> int \<Rightarrow> int" where
  "wrap t i = (if it_signed t then signed_take_bit (it_bits t - 1) i else take_bit (it_bits t) i)"

text \<open>The bitwise operators; a shift is defined for amounts below the width.\<close>

fun bit_op :: "int_ty \<Rightarrow> bin_op \<Rightarrow> int \<Rightarrow> int \<Rightarrow> int option" where
  "bit_op t Op_BitAnd a b = Some (a AND b)"
| "bit_op t Op_BitOr a b = Some (a OR b)"
| "bit_op t Op_BitXor a b = Some (a XOR b)"
| "bit_op t Op_Shl a b = (if 0 \<le> b \<and> b < int (it_bits t) then Some (a * 2 ^ nat b) else None)"
| "bit_op t Op_Shr a b = (if 0 \<le> b \<and> b < int (it_bits t) then Some (a div 2 ^ nat b) else None)"
| "bit_op t _ a b = None"

inductive evaluates :: "hir_expr \<Rightarrow> int \<Rightarrow> bool" where
  ev_int: "evaluates (H_Expr (HK_Int k) (ST_Int t)) (wrap t k)"
| ev_neg: "evaluates e a \<Longrightarrow> he_ty e = ST_Int t \<Longrightarrow>
    evaluates (H_Expr (HK_Unary Un_Neg e) (ST_Int t)) (wrap t (- a))"
| ev_not: "evaluates e a \<Longrightarrow> he_ty e = ST_Int t \<Longrightarrow>
    evaluates (H_Expr (HK_Unary Un_BitNot e) (ST_Int t)) (wrap t (NOT a))"
| ev_bit: "evaluates l a \<Longrightarrow> evaluates r b \<Longrightarrow> he_ty l = ST_Int t \<Longrightarrow> he_ty r = ST_Int t \<Longrightarrow>
    bit_op t op a b = Some c \<Longrightarrow> evaluates (H_Expr (HK_Binary op l r) (ST_Int t)) (wrap t c)"
| ev_arith: "evaluates l a \<Longrightarrow> evaluates r b \<Longrightarrow> he_ty l = ST_Int t \<Longrightarrow> he_ty r = ST_Int t \<Longrightarrow>
    bit_op t op a b = None \<Longrightarrow> in_type t c \<Longrightarrow> evaluates (H_Expr (HK_Binary op l r) (ST_Int t)) c"
| ev_cast: "evaluates e a \<Longrightarrow> he_ty e = ST_Int s \<Longrightarrow>
    evaluates (H_Expr (HK_Cast e) (ST_Int t)) (wrap t a)"
| ev_cast_other: "he_ty e = ST_Other \<Longrightarrow> in_type t c \<Longrightarrow> evaluates (H_Expr (HK_Cast e) (ST_Int t)) c"
| ev_other: "in_type t c \<Longrightarrow> evaluates (H_Expr HK_Other (ST_Int t)) c"

inductive_simps evaluates_int: "evaluates (H_Expr (HK_Int k) ty) i"

subsection \<open>Bits of values\<close>

definition width_ok :: "int_ty \<Rightarrow> bool" where
  "width_ok t \<longleftrightarrow> it_bits t \<in> {8, 16, 32, 64}"

lemma bits_mask_Some: "bits_mask (it_bits t) = Some m \<longleftrightarrow> width_ok t \<and> m = mask (it_bits t)"
  by (auto simp: bits_mask_def width_ok_def mask_eq_exp_minus_1 push_bit_eq_mult)

lemma width_bounds: "width_ok t \<Longrightarrow> 8 \<le> it_bits t \<and> it_bits t \<le> 64"
  by (auto simp: width_ok_def)

lemma bit_wrap: "n < it_bits t \<Longrightarrow> bit (wrap t i) n \<longleftrightarrow> bit i n"
proof -
  assume "n < it_bits t"
  moreover from this have "min (it_bits t - 1) n = n" by auto
  ultimately show ?thesis by (simp add: wrap_def bit_signed_take_bit_iff bit_take_bit_iff)
qed

lemma bit_wrap_high:
  "it_bits t \<le> n \<Longrightarrow> bit (wrap t i) n \<longleftrightarrow> it_signed t \<and> bit i (it_bits t - 1)"
  by (auto simp: wrap_def bit_signed_take_bit_iff bit_take_bit_iff min_def)

lemma wrap_wrap: "wrap t (wrap t i) = wrap t i"
  by (simp add: wrap_def)

lemma in_type_wrap: "width_ok t \<Longrightarrow> in_type t i \<longleftrightarrow> wrap t i = i"
  using width_bounds [of t]
  by (auto simp: in_type_def wrap_def int_range_def signed_take_bit_int_eq_self_iff
    take_bit_int_eq_self_iff)

lemma evaluates_in_type:
  "evaluates e i \<Longrightarrow> he_ty e = ST_Int t \<Longrightarrow> width_ok t \<Longrightarrow> wrap t i = i"
  by (induction rule: evaluates.induct) (auto simp: wrap_wrap in_type_wrap)

text \<open>What the analysis claims of a value.\<close>

definition bits_agree :: "int_ty \<Rightarrow> known_bits \<Rightarrow> int \<Rightarrow> bool" where
  "bits_agree t f i \<longleftrightarrow> (\<forall>n < it_bits t. (bit (kb_zero f) n \<longrightarrow> \<not> bit i n) \<and> (bit (kb_one f) n \<longrightarrow> bit i n))"

lemma agrees_default [simp]: "bits_agree t bits_default i"
  by (simp add: bits_agree_def bits_default_def)

lemma agrees_masked:
  "bits_agree t f i \<Longrightarrow> bits_agree t \<lparr>kb_zero = kb_zero f AND m, kb_one = kb_one f AND m\<rparr> i"
  by (auto simp: bits_agree_def bit_and_iff)

lemma literal_agrees:
  assumes "width_ok t"
  shows "bits_agree t (literal_bits t k) (wrap t k)"
  using width_bounds [OF assms]
  by (auto simp: bits_agree_def literal_bits_def Let_def bit_wrap bit_not_iff bit_word_of_int_iff
    simp flip: take_bit_eq_mod simp: bit_take_bit_iff)

lemma take_bit_wrap: "width_ok t \<Longrightarrow> take_bit (it_bits t) (wrap t i) = take_bit (it_bits t) i"
  by (rule bit_eqI) (auto simp: bit_take_bit_iff bit_wrap)

lemma wrap_cong:
  assumes "width_ok t" and "take_bit (it_bits t) i = take_bit (it_bits t) j"
  shows "wrap t i = wrap t j"
proof -
  have "signed_take_bit (it_bits t - 1) i = signed_take_bit (it_bits t - 1) j"
    using assms width_bounds [OF assms(1)] by (simp add: signed_take_bit_eq_iff_take_bit_eq)
  with assms(2) show ?thesis by (simp add: wrap_def)
qed

lemma wrap_neg: "width_ok t \<Longrightarrow> wrap t (- wrap t k) = wrap t (- k)"
  using take_bit_minus [of "it_bits t" "wrap t k"] take_bit_minus [of "it_bits t" k]
  by (intro wrap_cong) (simp_all only: take_bit_wrap)

lemma sign_test:
  assumes "width_ok t"
  shows "(w :: u64) AND push_bit (it_bits t - 1) 1 \<noteq> 0 \<longleftrightarrow> bit w (it_bits t - 1)"
  using and_exp_eq_0_iff_not_bit [of w "it_bits t - 1"] by (simp add: push_bit_eq_mult)

lemma bit_upper:
  assumes "width_ok t"
  shows "bit (mask (it_bits t) XOR drop_bit s (mask (it_bits t)) :: u64) n \<longleftrightarrow>
    n < it_bits t \<and> it_bits t \<le> n + s"
  using width_bounds [OF assms] by (auto simp: bit_simps)

lemma not_agrees:
  assumes "bits_agree t f a"
  shows "bits_agree t \<lparr>kb_zero = kb_one f, kb_one = kb_zero f\<rparr> (wrap t (NOT a))"
  using assms by (auto simp: bits_agree_def bit_wrap bit_not_iff)

lemma shl_agrees:
  assumes "width_ok t" and "bits_agree t f a" and "s < it_bits t"
  shows "bits_agree t (shl_bits s f) (wrap t (a * 2 ^ s))"
proof -
  have "a * 2 ^ s = push_bit s a" by (simp add: push_bit_eq_mult)
  then show ?thesis
    using assms(2,3) width_bounds [OF assms(1)]
    by (auto simp: bits_agree_def shl_bits_def bit_wrap bit_simps simp flip: mask_eq_exp_minus_1
      simp: push_bit_eq_mult [of s 1, simplified])
qed

text \<open>The facts of an expression lie within its width.\<close>

definition in_width :: "int_ty \<Rightarrow> known_bits \<Rightarrow> bool" where
  "in_width t f \<longleftrightarrow> (\<forall>n. bit (kb_zero f) n \<or> bit (kb_one f) n \<longrightarrow> n < it_bits t)"

lemma in_width_default [simp]: "in_width t bits_default"
  by (simp add: in_width_def bits_default_def)

lemma in_width_masked:
  "width_ok t \<Longrightarrow> in_width t \<lparr>kb_zero = z AND mask (it_bits t), kb_one = u AND mask (it_bits t)\<rparr>"
  by (auto simp: in_width_def bit_and_iff bit_mask_iff)

lemma facts_in_width: "he_ty e = ST_Int t \<Longrightarrow> in_width t (facts n e)"
  by (cases n) (auto simp: Let_def bits_mask_Some in_width_masked split: option.splits)

lemma wrapped_sign:
  assumes "wrap t a = a" and "it_bits t \<le> n"
  shows "bit a n \<longleftrightarrow> it_signed t \<and> bit a (it_bits t - 1)"
  using bit_wrap_high [OF assms(2), of a] assms(1) by simp

lemma shr_agrees:
  assumes "width_ok t" and "bits_agree t f a" and "in_width t f" and "wrap t a = a"
  shows "bits_agree t (shr_bits t (mask (it_bits t)) s f) (wrap t (a div 2 ^ s))"
  unfolding bits_agree_def
proof (intro allI impI)
  fix n assume n: "n < it_bits t"
  let ?sign = "it_bits t - 1"
  have v: "bit (wrap t (a div 2 ^ s)) n \<longleftrightarrow> bit a (n + s)"
    using n by (simp add: bit_wrap bit_drop_bit_eq add.commute flip: drop_bit_eq_div)
  have high: "it_bits t \<le> n + s \<Longrightarrow> bit a (n + s) \<longleftrightarrow> it_signed t \<and> bit a ?sign"
    by (rule wrapped_sign [OF assms(4)])
  have sign: "bit (kb_zero f) ?sign \<Longrightarrow> \<not> bit a ?sign" "bit (kb_one f) ?sign \<Longrightarrow> bit a ?sign"
    using assms(2) width_bounds [OF assms(1)] by (auto simp: bits_agree_def)
  have low: "bit (kb_zero f) (n + s) \<Longrightarrow> \<not> bit a (n + s)" "bit (kb_one f) (n + s) \<Longrightarrow> bit a (n + s)"
    using assms(2,3) by (auto simp: bits_agree_def in_width_def)
  show "(bit (kb_zero (shr_bits t (mask (it_bits t)) s f)) n \<longrightarrow> \<not> bit (wrap t (a div 2 ^ s)) n) \<and>
      (bit (kb_one (shr_bits t (mask (it_bits t)) s f)) n \<longrightarrow> bit (wrap t (a div 2 ^ s)) n)"
    unfolding v shr_bits_def Let_def sign_test [OF assms(1)] using sign low high
    by (auto simp: bit_or_iff bit_upper [OF assms(1)] bit_drop_bit_eq add.commute split: if_splits)
qed

lemma cast_agrees:
  assumes "width_ok t" and "width_ok s" and "bits_agree s f a" and "in_width s f" and "wrap s a = a"
  shows "bits_agree t (cast_bits t (mask (it_bits t)) s (mask (it_bits s)) f) (wrap t a)"
  unfolding bits_agree_def
proof (intro allI impI)
  fix n assume n: "n < it_bits t"
  let ?sign = "it_bits s - 1"
  have high: "it_bits s \<le> n \<Longrightarrow> bit a n \<longleftrightarrow> it_signed s \<and> bit a ?sign"
    by (rule wrapped_sign [OF assms(5)])
  have sign: "bit (kb_zero f) ?sign \<Longrightarrow> \<not> bit a ?sign" "bit (kb_one f) ?sign \<Longrightarrow> bit a ?sign"
    using assms(3) width_bounds [OF assms(2)] by (auto simp: bits_agree_def)
  have low: "bit (kb_zero f) n \<Longrightarrow> \<not> bit a n" "bit (kb_one f) n \<Longrightarrow> bit a n"
    using assms(3,4) by (auto simp: bits_agree_def in_width_def)
  have upper: "bit (mask (it_bits t) XOR mask (it_bits s) :: u64) n \<Longrightarrow> it_bits s \<le> n"
    using n width_bounds [OF assms(1)] by (auto simp: bit_simps)
  show "(bit (kb_zero (cast_bits t (mask (it_bits t)) s (mask (it_bits s)) f)) n \<longrightarrow> \<not> bit (wrap t a) n) \<and>
      (bit (kb_one (cast_bits t (mask (it_bits t)) s (mask (it_bits s)) f)) n \<longrightarrow> bit (wrap t a) n)"
    unfolding cast_bits_def Let_def sign_test [OF assms(2)] bit_wrap [OF n] using sign low high upper
    by (auto simp: bit_or_iff)
qed

lemma binary_agrees:
  assumes "width_ok t" and "bits_agree t f a" and "bits_agree t g b" and "in_width t f" and "wrap t a = a"
    and "bit_op t op a b = Some c"
    and "\<And>s. shift_amount t r = Some s \<Longrightarrow> b = int s"
  shows "bits_agree t (binary_bits t (mask (it_bits t)) op r f g) (wrap t c)"
proof -
  have s: "s < it_bits t" if "shift_amount t r = Some s" for s
    using that by (auto simp: shift_amount_def split: hir_kind.splits if_splits)
  show ?thesis
  proof (cases op)
    case Op_Shl
    then show ?thesis using assms s by (auto simp: binary_bits_def shl_agrees split: option.splits if_splits)
  next
    case Op_Shr
    then show ?thesis using assms s by (auto simp: binary_bits_def shr_agrees split: option.splits if_splits)
  qed (use assms(2,3,6) in \<open>auto simp: binary_bits_def bits_agree_def bit_wrap bit_simps\<close>)
qed

lemma binary_unknown:
  assumes "bit_op t op a b = None" and "\<And>s. shift_amount t r = Some s \<Longrightarrow> b = int s"
  shows "binary_bits t m op r f g = bits_default"
proof -
  have "s < it_bits t" if "shift_amount t r = Some s" for s
    using that by (auto simp: shift_amount_def split: hir_kind.splits if_splits)
  then show ?thesis
    using assms by (cases op) (fastforce simp: binary_bits_def split: option.splits if_splits)+
qed

lemma shift_amount_value:
  assumes "evaluates r b" and "he_ty r = ST_Int t" and "width_ok t" and "shift_amount t r = Some s"
  shows "b = int s"
proof -
  obtain k where k: "he_kind r = HK_Int k" "0 \<le> k" "k < int (it_bits t)" "s = nat k"
    using assms(4) by (auto simp: shift_amount_def split: hir_kind.splits if_splits)
  then have "b = wrap t k"
    using assms(1,2) by (cases r) (auto simp: evaluates_int)
  moreover have "in_type t k"
    using k(2,3) assms(3) by (auto simp: in_type_def int_range_def width_ok_def)
  ultimately show ?thesis using k assms(3) by (simp add: in_type_wrap)
qed

lemma bits_mask_ok: "width_ok t \<Longrightarrow> bits_mask (it_bits t) = Some (mask (it_bits t))"
  by (simp add: bits_mask_Some)

lemma facts_neg:
  assumes "evaluates e a" and "he_ty e = ST_Int t" and "width_ok t"
  shows "bits_agree t (facts n (H_Expr (HK_Unary Un_Neg e) (ST_Int t))) (wrap t (- a))"
proof -
  have "bits_agree t (literal_bits t (- k)) (wrap t (- a))" if "he_kind e = HK_Int k" for k
    using that assms literal_agrees [of t "- k"] by (cases e) (auto simp: evaluates_int wrap_neg)
  then show ?thesis using assms(3)
    by (cases n) (auto simp: Let_def bits_mask_ok checked_neg_def split: hir_kind.splits
      intro!: agrees_masked)
qed

lemma facts_binary:
  assumes "he_ty l = ST_Int t" and "he_ty r = ST_Int t" and "width_ok t"
    and "\<And>m. bits_agree t (binary_bits t (mask (it_bits t)) op r (facts m l) (facts m r)) c"
  shows "bits_agree t (facts n (H_Expr (HK_Binary op l r) (ST_Int t))) c"
  using assms by (cases n) (auto simp: Let_def bits_mask_ok intro!: agrees_masked)

text \<open>A fact about an expression is a fact about each of its values.\<close>

lemma facts_agree:
  assumes "evaluates e i" and "he_ty e = ST_Int t" and "width_ok t"
  shows "bits_agree t (facts n e) i"
  using assms
proof (induction arbitrary: n t rule: evaluates.induct)
  case (ev_int k t')
  then show ?case
    by (cases n) (auto simp: Let_def bits_mask_ok intro!: agrees_masked literal_agrees)
next
  case (ev_neg e a t')
  then show ?case using facts_neg [of e a t n] by simp
next
  case (ev_not e a t')
  have t: "t' = t" using ev_not.prems(1) by simp
  have "bits_agree t (facts m e) a" for m using ev_not.IH [of t m] ev_not.hyps ev_not.prems(2) t by simp
  from agrees_masked [OF not_agrees [OF this]] show ?case
    using ev_not.prems(2) by (cases n) (auto simp: t Let_def bits_mask_ok)
next
  case (ev_bit l a r b t' op c)
  have t: "t' = t" using ev_bit.prems(1) by simp
  have "bits_agree t (facts m l) a" "bits_agree t (facts m r) b" "in_width t (facts m l)" "wrap t a = a" for m
    using ev_bit.hyps ev_bit.prems(2) t
    by (simp_all add: ev_bit.IH facts_in_width evaluates_in_type)
  then have "bits_agree t (binary_bits t (mask (it_bits t)) op r (facts m l) (facts m r)) (wrap t c)" for m
    using ev_bit.hyps ev_bit.prems(2) t
    by (intro binary_agrees [where b = b and a = a]) (auto intro: shift_amount_value)
  then show ?case using facts_binary [of l t r op] ev_bit.hyps ev_bit.prems(2) t by simp
next
  case (ev_arith l a r b t' op c)
  have t: "t' = t" using ev_arith.prems(1) by simp
  have "binary_bits t m op r f g = bits_default" for m f g
    using ev_arith.hyps ev_arith.prems(2) t
    by (intro binary_unknown [where a = a and b = b]) (auto intro: shift_amount_value)
  then show ?case using facts_binary [of l t r op] ev_arith.hyps ev_arith.prems(2) t by simp
next
  case (ev_cast e a s t')
  have t: "t' = t" using ev_cast.prems(1) by simp
  have "bits_agree t (cast_bits t (mask (it_bits t)) s (mask (it_bits s)) (facts m e)) (wrap t a)"
    if "width_ok s" for m
    using ev_cast.IH ev_cast.hyps ev_cast.prems(2) that
    by (intro cast_agrees) (simp_all add: facts_in_width evaluates_in_type)
  from agrees_masked [OF this] show ?case
    using ev_cast.prems(2) ev_cast.hyps
    by (cases n) (auto simp: t Let_def bits_mask_ok bits_mask_Some intro!: agrees_masked [of t bits_default] split: option.splits)
next
  case (ev_cast_other e t' c)
  then show ?case
    by (cases n) (auto simp: Let_def bits_mask_ok intro!: agrees_masked)
next
  case (ev_other t' c)
  then show ?case
    by (cases n) (auto simp: Let_def bits_mask_ok intro!: agrees_masked)
qed

subsection \<open>The interval of the known bits\<close>

lemma subset_le: "(\<And>n. bit a n \<Longrightarrow> bit b n) \<Longrightarrow> 0 \<le> b \<Longrightarrow> a \<le> b" if "0 \<le> a" for a b :: int
proof -
  assume "\<And>n. bit a n \<Longrightarrow> bit b n" and b: "0 \<le> b"
  then have "b AND a = a" by (intro bit_eqI) (auto simp: bit_and_iff)
  then show "a \<le> b" using AND_upper1 [OF b, of a] by simp
qed

lemma bit_uint: "bit (uint (w :: u64)) n \<longleftrightarrow> bit w n"
  by (auto simp: bit_uint_iff dest: bit_imp_le_length)

lemma interval_unsigned:
  assumes "width_ok t" and "bits_agree t f i" and "in_width t f" and "wrap t i = i" and "\<not> it_signed t"
  shows "uint (kb_one f) \<le> i \<and> i \<le> uint (mask (it_bits t) AND NOT (kb_zero f))"
proof -
  have i: "0 \<le> i" using assms(4,5) by (metis wrap_def take_bit_nonnegative)
  have high: "n < it_bits t" if "bit i n" for n
    using wrapped_sign [OF assms(4)] assms(5) that not_le by blast
  have "uint (kb_one f) \<le> i"
    by (rule subset_le) (use assms(2,3) i in \<open>auto simp: bit_uint bits_agree_def in_width_def\<close>)
  moreover have "i \<le> uint (mask (it_bits t) AND NOT (kb_zero f))"
  proof (rule subset_le [OF i])
    fix n assume n: "bit i n"
    then have "n < it_bits t" "\<not> bit (kb_zero f) n" "n < 64"
      using assms(2) high [OF n] width_bounds [OF assms(1)] by (auto simp: bits_agree_def)
    then show "bit (uint (mask (it_bits t) AND NOT (kb_zero f))) n"
      by (simp add: bit_uint bit_and_iff bit_mask_iff bit_not_iff)
  qed simp
  ultimately show ?thesis by simp
qed

text \<open>A signed value and its bit pattern.\<close>

lemma signed_value:
  assumes "width_ok t" and "wrap t i = i" and "it_signed t"
  shows "i = take_bit (it_bits t) i - (if bit i (it_bits t - 1) then 2 ^ it_bits t else 0)"
proof -
  have "Suc (it_bits t - 1) = it_bits t" using width_bounds [OF assms(1)] by simp
  then show ?thesis
    using signed_take_bit_eq_take_bit_minus [of "it_bits t - 1" i] assms(2,3)
    by (cases "bit i (it_bits t - 1)") (simp_all add: wrap_def)
qed

lemma signed_pattern_bit:
  "width_ok t \<Longrightarrow> signed_pattern (it_bits t) p =
     uint p - (if bit p (it_bits t - 1) then 2 ^ it_bits t else 0)"
  using sign_test [of t p] by (simp add: signed_pattern_def)

lemma pattern_bounds:
  fixes p :: u64
  assumes "width_ok t" and "\<And>n. bit p n \<Longrightarrow> n < it_bits t"
  shows "0 \<le> uint p" and "uint p < 2 ^ it_bits t"
proof -
  have "take_bit (it_bits t) (uint p) = uint p"
    by (rule bit_eqI) (use assms(2) in \<open>auto simp: bit_take_bit_iff bit_uint\<close>)
  then show "uint p < 2 ^ it_bits t" by (metis take_bit_int_less_exp)
qed simp

text \<open>Signed patterns of one sign are ordered as their bits; a negative one is below the others.\<close>

lemma signed_lower:
  assumes "width_ok t" and "wrap t i = i" and "it_signed t"
    and "\<And>n. bit p n \<Longrightarrow> n < it_bits t" and "bit i (it_bits t - 1) \<Longrightarrow> bit p (it_bits t - 1)"
    and "bit i (it_bits t - 1) = bit p (it_bits t - 1) \<Longrightarrow> (\<And>n. bit p n \<Longrightarrow> bit i n)"
  shows "signed_pattern (it_bits t) p \<le> i"
proof (cases "bit i (it_bits t - 1) = bit p (it_bits t - 1)")
  case True
  have "uint p \<le> take_bit (it_bits t) i"
    by (rule subset_le) (use assms(4) assms(6) [OF True] in \<open>auto simp: bit_uint bit_take_bit_iff\<close>)
  then show ?thesis using signed_value [OF assms(1-3)] True by (simp add: signed_pattern_bit assms(1))
next
  case False
  then have "bit p (it_bits t - 1)" "\<not> bit i (it_bits t - 1)" using assms(5) by blast+
  moreover have "0 \<le> take_bit (it_bits t) i" "uint p < 2 ^ it_bits t"
    using pattern_bounds [OF assms(1,4)] by simp_all
  ultimately show ?thesis
    using signed_value [OF assms(1-3)] unfolding signed_pattern_bit [OF assms(1)]
    by (simp only: if_True if_False)
qed

lemma signed_upper:
  assumes "width_ok t" and "wrap t i = i" and "it_signed t"
    and "\<And>n. bit p n \<Longrightarrow> n < it_bits t" and "bit p (it_bits t - 1) \<Longrightarrow> bit i (it_bits t - 1)"
    and "bit i (it_bits t - 1) = bit p (it_bits t - 1) \<Longrightarrow> (\<And>n. n < it_bits t \<Longrightarrow> bit i n \<Longrightarrow> bit p n)"
  shows "i \<le> signed_pattern (it_bits t) p"
proof (cases "bit i (it_bits t - 1) = bit p (it_bits t - 1)")
  case True
  have "take_bit (it_bits t) i \<le> uint p"
    by (rule subset_le) (use assms(6) [OF True] in \<open>auto simp: bit_uint bit_take_bit_iff\<close>)
  then show ?thesis using signed_value [OF assms(1-3)] True by (simp add: signed_pattern_bit assms(1))
next
  case False
  then have "\<not> bit p (it_bits t - 1)" "bit i (it_bits t - 1)" using assms(5) by blast+
  moreover have "take_bit (it_bits t) i < 2 ^ it_bits t" "0 \<le> uint p" by simp_all
  ultimately show ?thesis
    using signed_value [OF assms(1-3)] unfolding signed_pattern_bit [OF assms(1)]
    by (simp only: if_True if_False)
qed

lemma interval_signed:
  assumes "width_ok t" and "bits_agree t f i" and "in_width t f" and "wrap t i = i" and "it_signed t"
    and "known_interval t (mask (it_bits t)) f = (lo, hi)"
  shows "lo \<le> i \<and> i \<le> hi"
proof -
  let ?s = "it_bits t - 1"
  define sg :: u64 where "sg = push_bit ?s 1"
  have s: "?s < it_bits t" "?s < 64" using width_bounds [OF assms(1)] by auto
  have sign: "bit sg n \<longleftrightarrow> n = ?s" for n using s by (auto simp: sg_def bit_simps)
  have f: "bit (kb_zero f) n \<Longrightarrow> n < it_bits t \<and> \<not> bit i n" "bit (kb_one f) n \<Longrightarrow> n < it_bits t \<and> bit i n" for n
    using assms(2,3) by (auto simp: bits_agree_def in_width_def)
  have m: "bit (mask (it_bits t) AND NOT (kb_zero f)) n \<longleftrightarrow> n < it_bits t \<and> \<not> bit (kb_zero f) n" for n
    using width_bounds [OF assms(1)] by (auto simp: bit_and_iff bit_mask_iff bit_not_iff)
  have lo: "lo = signed_pattern (it_bits t) (if bit (kb_zero f) ?s then kb_one f else kb_one f OR sg)"
    and hi: "hi = signed_pattern (it_bits t) (if bit (kb_one f) ?s then mask (it_bits t) AND NOT (kb_zero f)
      else (mask (it_bits t) AND NOT (kb_zero f)) AND NOT sg)"
    using assms(5,6) unfolding known_interval_def Let_def sign_test [OF assms(1)] sg_def by simp_all
  have "lo \<le> i"
    unfolding lo by (rule signed_lower [OF assms(1,4,5)])
      (use f s in \<open>auto simp: bit_or_iff sign split: if_splits\<close>)
  moreover have "i \<le> hi"
    unfolding hi by (rule signed_upper [OF assms(1,4,5)])
      (use f s m in \<open>auto simp: bit_and_iff bit_not_iff sign split: if_splits\<close>)
  ultimately show ?thesis by simp
qed

lemma interval_holds:
  assumes "evaluates e i" and "he_ty e = ST_Int t" and "width_ok t"
    and "known_interval t (mask (it_bits t)) (facts n e) = (lo, hi)"
  shows "lo \<le> i \<and> i \<le> hi"
proof -
  have f: "bits_agree t (facts n e) i" "in_width t (facts n e)" "wrap t i = i"
    using assms by (simp_all add: facts_agree facts_in_width evaluates_in_type)
  show ?thesis
  proof (cases "it_signed t")
    case True
    then show ?thesis using interval_signed [OF assms(3) f True assms(4)] by simp
  next
    case False
    then show ?thesis
      using interval_unsigned [OF assms(3) f False] assms(4) by (auto simp: known_interval_def Let_def)
  qed
qed

subsection \<open>The properties\<close>

text \<open>
  C20. The analysis is sound: whatever the budget, a bit of an integer expression that is reported
  zero is zero, and one that is reported one is one, in every value the expression can have; no bit
  is reported both, and none beyond the width.
\<close>

theorem known_bits_sound:
  assumes "evaluates e i" and "he_ty e = ST_Int t" and "bits_mask (it_bits t) = Some m"
  shows "i AND uint (kb_zero (facts budget e)) = 0 \<and>
    i AND uint (kb_one (facts budget e)) = uint (kb_one (facts budget e)) \<and>
    kb_zero (facts budget e) AND kb_one (facts budget e) = 0 \<and>
    (kb_zero (facts budget e) OR kb_one (facts budget e)) AND NOT m = 0"
proof -
  let ?f = "facts budget e"
  have w: "width_ok t" and m: "m = mask (it_bits t)" using assms(3) by (auto simp: bits_mask_Some)
  have f: "bit (kb_zero ?f) n \<Longrightarrow> n < it_bits t \<and> \<not> bit i n" "bit (kb_one ?f) n \<Longrightarrow> n < it_bits t \<and> bit i n" for n
    using facts_agree [OF assms(1,2) w, of budget] facts_in_width [OF assms(2), of budget]
    by (auto simp: bits_agree_def in_width_def)
  have "i AND uint (kb_zero ?f) = 0" "i AND uint (kb_one ?f) = uint (kb_one ?f)"
    by (rule bit_eqI; use f in \<open>auto simp: bit_and_iff bit_uint\<close>)+
  moreover have "kb_zero ?f AND kb_one ?f = 0" "(kb_zero ?f OR kb_one ?f) AND NOT m = 0"
    by (rule bit_word_eqI; use f in \<open>auto simp: m bit_and_iff bit_or_iff bit_not_iff bit_mask_iff\<close>)+
  ultimately show ?thesis by simp
qed

text \<open>\<open>x & 127\<close> for an unknown \<open>x: i32\<close>.\<close>

definition sample_u8 :: int_ty where
  "sample_u8 = \<lparr>it_bits = 8, it_signed = False\<rparr>"

definition sample_i32 :: int_ty where
  "sample_i32 = \<lparr>it_bits = 32, it_signed = True\<rparr>"

definition sample_masked :: hir_expr where
  "sample_masked = H_Expr (HK_Binary Op_BitAnd (H_Expr HK_Other (ST_Int sample_i32))
     (H_Expr (HK_Int 127) (ST_Int sample_i32))) (ST_Int sample_i32)"

lemma sample_value: "evaluates sample_masked 68"
proof -
  have "evaluates (H_Expr HK_Other (ST_Int sample_i32)) (- 60)"
    by (rule ev_other) (simp add: in_type_def int_range_def sample_i32_def)
  moreover have "evaluates (H_Expr (HK_Int 127) (ST_Int sample_i32)) (wrap sample_i32 127)"
    by (rule ev_int)
  moreover have "wrap sample_i32 (- 60 AND wrap sample_i32 127) = 68"
    by code_simp
  ultimately show ?thesis
    using ev_bit [of _ "- 60" _ "wrap sample_i32 127" sample_i32 Op_BitAnd "- 60 AND wrap sample_i32 127"]
    unfolding sample_masked_def by simp
qed

theorem known_bits_sound_witness:
  "(68 :: int) AND uint (kb_zero (facts 48 sample_masked)) = 0 \<and>
   68 AND uint (kb_one (facts 48 sample_masked)) = uint (kb_one (facts 48 sample_masked)) \<and>
   kb_zero (facts 48 sample_masked) = 0xFFFFFF80"
proof -
  have "bits_mask (it_bits sample_i32) = Some 0xFFFFFFFF" by code_simp
  moreover have "he_ty sample_masked = ST_Int sample_i32" by (simp add: sample_masked_def)
  moreover have "kb_zero (facts 48 sample_masked) = 0xFFFFFF80" by code_simp
  ultimately show ?thesis using known_bits_sound [OF sample_value, of sample_i32 "0xFFFFFFFF" 48] by simp
qed

text \<open>
  C19. A cast that the test calls lossless keeps the value: every value the expression can have is
  in the range of the target type, so the two's complement conversion to the target leaves it
  unchanged, whatever the two widths and signs.
\<close>

theorem lossless_cast_keeps_value:
  assumes "evaluates e i" and "lossless_integer_cast e (ST_Int t)"
  shows "in_type t i \<and> wrap t i = i"
proof -
  obtain s sm tm where s: "he_ty e = ST_Int s" "bits_mask (it_bits s) = Some sm" "bits_mask (it_bits t) = Some tm"
    using assms(2) by (auto simp: lossless_integer_cast_def split: sema_ty.splits option.splits)
  then have w: "width_ok s" "width_ok t" "sm = mask (it_bits s)" by (auto simp: bits_mask_Some)
  obtain lo hi where k: "known_interval s (mask (it_bits s)) (facts 48 e) = (lo, hi)" by fastforce
  have "fst (int_range t) \<le> lo" "hi \<le> snd (int_range t)"
    using assms(2) s k w by (auto simp: lossless_integer_cast_def split: prod.splits)
  then have "in_type t i"
    using interval_holds [OF assms(1) s(1) w(1) k] by (auto simp: in_type_def)
  then show ?thesis using w(2) by (simp add: in_type_wrap)
qed

theorem lossless_cast_keeps_value_witness:
  "lossless_integer_cast sample_masked (ST_Int sample_u8) \<and> in_type sample_u8 68 \<and> wrap sample_u8 68 = 68"
proof -
  have "lossless_integer_cast sample_masked (ST_Int sample_u8)" by code_simp
  with lossless_cast_keeps_value [OF sample_value this] show ?thesis by simp
qed

end
