(* ===== verification/Spec2Isabelle.thy ===== *)
theory Spec2Isabelle
  imports Wyhash Formatter_Props Time_Roundtrip Artifact_Hash Codec_Props Known_Bits
begin

text \<open>
  \<^bold>\<open>A verification of parts of the Align compiler.\<close>

  Align is a compiled language; its compiler is a workspace of Rust crates under
  \<open>src/crates/\<close>. A source file goes through the lexer (\<open>align_lexer\<close>) and the parser
  (\<open>align_parser\<close>, building the tree of \<open>align_ast\<close>), then through semantic analysis
  (\<open>align_sema\<close>), the middle IR (\<open>align_mir\<close>) and LLVM code generation; the formatter
  (\<open>align_fmt\<close>) reprints a source from its tokens; units are compiled separately and know each
  other through interface artifacts (\<open>align_interface\<close>) identified by hashes
  (\<open>align_hash\<close>); compiled programs call a runtime library (\<open>align_runtime\<close>). This development
  models the front end and the formatter completely, the artifact codec, the hashes, one analysis
  of \<open>align_sema\<close> and one module of the runtime. Definitions keep the names of the Rust functions.

  \<^bold>\<open>Conventions\<close> (\<open>Prelude\<close>, \<open>Utf8\<close>, \<open>Numerals\<close>). A \<open>String\<close> is the list of its bytes; \<open>usize\<close> is
  \<open>nat\<close>, with casts and checked arithmetic written out; hashed and encoded integers are words of
  their width. A Rust \<open>Option\<close> or \<open>Result\<close> is a value, and so is a panic (an outer \<open>None\<close>, or
  \<open>PPanic\<close> in the parser), so that a theorem can say that it does not occur. \<open>Utf8\<close> and \<open>Numerals\<close>
  model what is used of the standard library: UTF-8 validation, number parsing and printing.

  \<^bold>\<open>The components, their theories and what is shown\<close>

  \<^item> \<open>align_hash\<close>, theory \<open>Wyhash\<close>: the one-shot \<open>wyhash\<close> and \<open>WyHashStream\<close>. No read is outside the
    key, and any chunking gives the one-shot hash; the locale \<open>incremental_hash\<close> states the
    contract, interpreted again for \<open>Hash128Stream\<close> in \<open>Artifact_Hash\<close>.
  \<^item> \<open>align_span\<close> and \<open>align_diag\<close>, theory \<open>Spans\<close>: spans, files, line and column, diagnostics with
    checkpoints.
  \<^item> \<open>align_lexer\<close>, theories \<open>Tokens\<close>, \<open>Lexer\<close> (every function of the crate), \<open>Lexer_Props\<close>
    (totality, order, tiling of the source, the newline rule), \<open>Lexer_Weight\<close>, \<open>Lexer_Ends\<close> (tokens
    end on character boundaries) and \<open>Decoded_Runs\<close> (the second decoder of string literals agrees
    with the lexer).
  \<^item> \<open>align_ast\<close>, theory \<open>Ast\<close>: the tree, one constructor per variant.
  \<^item> \<open>align_parser\<close>: \<open>Parser_Core\<close> (state, outcomes, the specification every method satisfies),
    \<open>Parser_Types\<close>, \<open>Parser_Expr\<close>, \<open>Parser_Items\<close>, \<open>Templates\<close> and \<open>Depth_Cap\<close> (the methods),
    \<open>Parser_Expr_Props\<close>, \<open>Parser_Fuel\<close>, \<open>Parser_Trees\<close> and \<open>Precedence\<close> (the lemmas), \<open>Parser\<close>
    (\<open>parse_file\<close> and the properties), \<open>Parser_Eval\<close> (rules to run the parser on an example). Shown:
    the front end never panics and, on a call stack deep enough for the source, returns; a failing
    method has reported an error; the trees satisfy the invariants stated in \<open>align_ast\<close> (where the
    depth cap has cut an \<open>else\<close> branch, a unit expression stands in its place); operators group by
    the precedence table; the cap leaves nothing below the ceiling but leaves and empty blocks, and
    the work list that drops a cut tree reaches each node once.
  \<^item> \<open>align_fmt\<close>: \<open>Formatter\<close> (the crate), \<open>Formatter_Gaps\<close>, \<open>Formatter_Props\<close> (the output is the
    tokens and comments of the input in order, the comments found line by line and not by the
    formatter's scanner, and there is no panic) and \<open>Formatter_Example\<close> (a
    program whose meaning the formatter changes, in spite of its two safety checks).
  \<^item> \<open>align_interface\<close>: \<open>Interface_Types\<close> (summaries, the records of \<open>align_sema/src/hir.rs\<close> they carry,
    with the derived orders as \<open>linorder\<close> instances), \<open>Codec_Core\<close> (\<open>Writer\<close>, \<open>Reader\<close> and the locale
    \<open>codec\<close>), \<open>Codec_Types\<close>, \<open>Codec_Flow\<close>, \<open>Codec_Views\<close>, \<open>Codec_Items\<close> (a writer and a reader per record
    of \<open>codec.rs\<close>, each pair an interpretation of \<open>codec\<close>), \<open>Interface_Codec\<close> (\<open>serialize\<close> and
    \<open>deserialize_impl\<close>), \<open>Codec_Safety\<close> (no reading function panics), \<open>Codec_Props\<close> and \<open>Artifact_Hash\<close>.
    Shown: the decoder accepts exactly the encodings of well-formed summaries with a fresh hash,
    panics only where one of the checks it is given does, and refuses damaged, foreign and stale
    artifacts; the hashed bytes determine the interface.
  \<^item> \<open>align_sema/src/known_bits.rs\<close>, theory \<open>Known_Bits\<close>: the analysis is sound for a reference
    semantics of integer expressions, and a cast it calls lossless keeps every value.
  \<^item> \<open>align_runtime/src/time_formats.rs\<close>, theories \<open>Time_Formats\<close>, \<open>Calendar\<close>, \<open>Time_Roundtrip\<close>: the day
    count, in \<open>i64\<close> arithmetic that wraps, is the Gregorian calendar's for years up to \<open>10 ^ 16\<close>, and
    what is printed is read back, in all five formats.

  \<^bold>\<open>How the parts meet\<close>. The parser runs on the lexer's stream and relies on what \<open>Lexer_Props\<close> and
  \<open>Lexer_Weight\<close> show of it; the formatter runs lexer and parser twice and slices the source by the
  spans \<open>Lexer_Ends\<close> bounds; the codec stores texts \<open>Utf8\<close> validates and compares the surface with a
  hash computed by \<open>Wyhash\<close>, whose totality gives the decoder's.

  \<^bold>\<open>Bounds and fuel\<close>. Loops over bytes and lists are total functions with a measure or structural
  recursion. The parser's recursion is a stack of calls, \<open>knot n\<close>. \<open>parse_file_on n\<close> runs on a stack of
  \<open>n\<close> nested calls and may overflow it; \<open>parse_file\<close> takes the weight of the tokens as \<open>n\<close> (a token counts
  once, a template literal also what its holes can lex to), which is proved to be enough, to be at
  most four per byte of source and two, and beyond which a deeper stack gives the same result. How
  many of these calls fit the native stack is not modelled, and no fixed number is enough; loops of the parser
  are bounded by the tokens left, plus one, and never reach the bound. \<open>read_type_left n\<close> counts
  down the records the type reader still allows, from 128, which is a limit of the code itself,
  as is the budget of 48 of the known-bits analysis. The word-sized claims assume lengths below
  \<open>2 ^ 32\<close> (positions) or \<open>2 ^ 64\<close> (hashes).

  \<^bold>\<open>Parameters\<close>. The decoder runs four checks on a decoded summary that need the resolved type
  graph (\<open>decoded_parallel_transfer_roots_are_borrow_capable\<close>, \<open>owned_json::validate_entries\<close>,
  \<open>validate_mutable_view_effects\<close>, and the drop-state part of \<open>validate_for_import\<close>). They are the fields
  of \<open>summary_checks\<close>; nothing is assumed of them, not even that they return.

  \<^bold>\<open>Not modelled\<close>
  \<^item> \<open>align_sema\<close> apart from the module above: name resolution, type checking and lowering are one
    file of some ninety thousand lines over a shared, mutable type universe; no part of it has an
    interface narrow enough to be translated alone.
  \<^item> \<open>align_mir\<close> and \<open>align_codegen_llvm\<close>: they consume the output of \<open>align_sema\<close>, and the second is
    calls to LLVM.
  \<^item> The rest of \<open>align_interface\<close>: building summaries from checked programs, the import checks,
    owned-JSON descriptors and static SQL artifacts, which work on HIR and MIR.
  \<^item> The rest of \<open>align_runtime\<close>: entry points over raw memory, allocation, system calls.
  \<^item> \<open>align_driver\<close>, \<open>align_repl\<close>, \<open>align_watch\<close>: command line, file system and processes.
  \<^item> Rendering of diagnostics and the \<open>Display\<close> texts of errors.
\<close>

end
